(* ===== verification/Ipc_Prelude.thy ===== *)
theory Ipc_Prelude
  imports Main "HOL-Library.Word"
begin

unbundle bit_operations_syntax

text \<open>
  Shared vocabulary of the development: the machine integers of the Rust sources as words, the
  outcome of a Rust expression (a value, an error or a panic), the checked arithmetic of the
  standard library, byte slices with the bounds checks that Rust performs, and little-endian
  integer fields.  Lengths and offsets (\<^verbatim>\<open>usize\<close>) are natural numbers with the overflow of the
  64-bit targets written out; slices are lists of bytes.

  Three collections of facts carry the component proofs: \<open>outcome\<close> inverts the sequencing of
  fallible steps, \<open>wire\<close> reads and writes byte ranges, and \<open>rust_eval\<close> evaluates the models on
  concrete inputs.
\<close>

named_theorems outcome "inversion of fallible Rust computations"
named_theorems wire "reading and writing byte ranges"
named_theorems rust_eval "evaluation of the models on concrete inputs"

section \<open>Machine integers\<close>

type_synonym u8 = "8 word"
type_synonym u16 = "16 word"
type_synonym u32 = "32 word"
type_synonym u64 = "64 word"
type_synonym u128 = "128 word"
type_synonym usize = nat
type_synonym bytes = "u8 list"

definition usize_max :: usize where
  "usize_max = 2 ^ 64 - 1"

definition checked_add :: "'a::len word \<Rightarrow> 'a word \<Rightarrow> 'a word option" where
  "checked_add a b = (if unat a + unat b < 2 ^ LENGTH('a) then Some (a + b) else None)"

definition checked_mul :: "'a::len word \<Rightarrow> 'a word \<Rightarrow> 'a word option" where
  "checked_mul a b = (if unat a * unat b < 2 ^ LENGTH('a) then Some (a * b) else None)"

definition checked_sub :: "'a::len word \<Rightarrow> 'a word \<Rightarrow> 'a word option" where
  "checked_sub a b = (if unat b \<le> unat a then Some (a - b) else None)"

definition checked_add_usize :: "usize \<Rightarrow> usize \<Rightarrow> usize option" where
  "checked_add_usize a b = (if a + b \<le> usize_max then Some (a + b) else None)"

definition try_from_usize :: "usize \<Rightarrow> 'a::len word option" where
  "try_from_usize n = (if n < 2 ^ LENGTH('a) then Some (word_of_nat n) else None)"

definition usize_from_u64 :: "u64 \<Rightarrow> usize option" where
  "usize_from_u64 w = (if unat w \<le> usize_max then Some (unat w) else None)"

lemma checked_add_Some [outcome]:
  "checked_add a b = Some c \<longleftrightarrow> unat a + unat b < 2 ^ LENGTH('a) \<and> c = (a + b :: 'a::len word)"
  by (auto simp: checked_add_def)

lemma checked_mul_Some [outcome]:
  "checked_mul a b = Some c \<longleftrightarrow> unat a * unat b < 2 ^ LENGTH('a) \<and> c = (a * b :: 'a::len word)"
  by (auto simp: checked_mul_def)

lemma checked_sub_Some [outcome]:
  "checked_sub a b = Some c \<longleftrightarrow> unat b \<le> unat a \<and> c = (a - b :: 'a::len word)"
  by (auto simp: checked_sub_def)

lemma checked_add_usize_Some [outcome]:
  "checked_add_usize a b = Some c \<longleftrightarrow> a + b \<le> usize_max \<and> c = a + b"
  by (auto simp: checked_add_usize_def)

lemma try_from_usize_Some [outcome]:
  "(try_from_usize n :: 'a::len word option) = Some w \<longleftrightarrow>
     n < 2 ^ LENGTH('a) \<and> w = word_of_nat n"
  by (auto simp: try_from_usize_def)

text \<open>What a checked operation returns has the exact mathematical value.\<close>

lemma unat_checked_add:
  "checked_add a b = Some c \<Longrightarrow> unat c = unat a + unat b"
  by (auto simp: checked_add_def unat_word_ariths split: if_splits)

lemma unat_checked_mul:
  "checked_mul a b = Some c \<Longrightarrow> unat c = unat a * unat b"
  by (auto simp: checked_mul_def unat_word_ariths split: if_splits)

lemma unat_checked_sub:
  "checked_sub a b = Some c \<Longrightarrow> unat c = unat a - unat b"
  by (auto simp: checked_sub_def unat_sub word_le_nat_alt split: if_splits)

lemma unat_word_of_nat_id [simp]:
  "n < 2 ^ LENGTH('a) \<Longrightarrow> unat (word_of_nat n :: 'a::len word) = n"
  by (simp add: unat_of_nat)

lemma unat_lt_pow: "unat (w :: 'a::len word) < 2 ^ LENGTH('a)"
  by (rule unsigned_less)

lemma unat_u64_usize [simp]: "unat (w :: u64) \<le> usize_max"
  using unat_lt_pow [of w] by (simp add: usize_max_def)

lemma usize_from_u64_Some [simp]: "usize_from_u64 w = Some (unat w)"
  by (simp add: usize_from_u64_def)

lemma unat_u64_from_u32: "unat (ucast (v :: u32) :: u64) = unat v"
  using unat_lt_pow [of v] by (simp add: unsigned_ucast_eq take_bit_nat_eq_self)

lemma unat_u32_usize [simp]: "unat (w :: u32) \<le> usize_max"
  using unat_lt_pow [of w] by (simp add: usize_max_def)

lemma unat_u32_add_usize: "unat (v :: u32) + unat (w :: u32) \<le> usize_max"
  using unat_lt_pow [of v] unat_lt_pow [of w] by (simp add: usize_max_def)

section \<open>Outcomes of Rust expressions\<close>

text \<open>
  A call returns \<open>Ok\<close> or \<open>Err\<close>, or it panics: an index out of range, a failed \<^verbatim>\<open>expect\<close>, an
  \<^verbatim>\<open>unreachable!\<close>.  \<open>rbind\<close> is the \<^verbatim>\<open>?\<close> operator.
\<close>

datatype ('a, 'e) result = Ok 'a | Err 'e | Panic

primrec rbind :: "('a, 'e) result \<Rightarrow> ('a \<Rightarrow> ('b, 'e) result) \<Rightarrow> ('b, 'e) result" where
  "rbind (Ok x) f = f x"
| "rbind (Err e) f = Err e"
| "rbind Panic f = Panic"

primrec map_err :: "('e \<Rightarrow> 'f) \<Rightarrow> ('a, 'e) result \<Rightarrow> ('a, 'f) result" where
  "map_err g (Ok x) = Ok x"
| "map_err g (Err e) = Err (g e)"
| "map_err g Panic = Panic"

primrec ok_or :: "'e \<Rightarrow> 'a option \<Rightarrow> ('a, 'e) result" where
  "ok_or e None = Err e"
| "ok_or e (Some x) = Ok x"

primrec expect :: "'a option \<Rightarrow> ('a, 'e) result" where
  "expect None = Panic"
| "expect (Some x) = Ok x"

primrec is_ok :: "('a, 'e) result \<Rightarrow> bool" where
  "is_ok (Ok x) = True"
| "is_ok (Err e) = False"
| "is_ok Panic = False"

lemma rbind_eq_Ok [outcome]: "rbind m f = Ok y \<longleftrightarrow> (\<exists>x. m = Ok x \<and> f x = Ok y)"
  by (cases m) auto

lemma rbind_eq_Err [outcome]: "rbind m f = Err e \<longleftrightarrow> m = Err e \<or> (\<exists>x. m = Ok x \<and> f x = Err e)"
  by (cases m) auto

lemma rbind_eq_Panic [outcome]: "rbind m f = Panic \<longleftrightarrow> m = Panic \<or> (\<exists>x. m = Ok x \<and> f x = Panic)"
  by (cases m) auto

lemma map_err_eq_Ok [outcome]: "map_err g m = Ok y \<longleftrightarrow> m = Ok y"
  by (cases m) auto

lemma map_err_eq_Err [outcome]: "map_err g m = Err e \<longleftrightarrow> (\<exists>e'. m = Err e' \<and> e = g e')"
  by (cases m) auto

lemma map_err_eq_Panic [outcome]: "map_err g m = Panic \<longleftrightarrow> m = Panic"
  by (cases m) auto

lemma ok_or_eq_Ok [outcome]: "ok_or e m = Ok y \<longleftrightarrow> m = Some y"
  by (cases m) auto

lemma ok_or_eq_Err [outcome]: "ok_or e m = Err e' \<longleftrightarrow> m = None \<and> e' = e"
  by (cases m) auto

lemma ok_or_eq_Panic [outcome]: "ok_or e m \<noteq> Panic"
  by (cases m) auto

lemma expect_eq_Ok [outcome]: "expect m = Ok y \<longleftrightarrow> m = Some y"
  by (cases m) auto

lemma expect_eq_Panic [outcome]: "expect m = Panic \<longleftrightarrow> m = None"
  by (cases m) auto

lemma expect_neq_Err [outcome]: "expect m \<noteq> Err e"
  by (cases m) auto

text \<open>
  A method on \<^verbatim>\<open>&mut self\<close> returns the state it leaves behind together with its outcome; \<open>sbind\<close>
  sequences such calls, and an error or a panic keeps the state reached so far.
\<close>

definition sbind ::
    "'s \<times> ('a, 'e) result \<Rightarrow> ('s \<Rightarrow> 'a \<Rightarrow> 's \<times> ('b, 'e) result) \<Rightarrow> 's \<times> ('b, 'e) result" where
  "sbind m f = (case m of (s, Ok x) \<Rightarrow> f s x | (s, Err e) \<Rightarrow> (s, Err e) | (s, Panic) \<Rightarrow> (s, Panic))"

lemma sbind_simps [simp]:
  "sbind (s, Ok x) f = f s x"
  "sbind (s, Err e) f = (s, Err e)"
  "sbind (s, Panic) f = (s, Panic)"
  by (simp_all add: sbind_def)

lemma sbind_eq_Ok [outcome]:
  "sbind m f = (s', Ok y) \<longleftrightarrow> (\<exists>s x. m = (s, Ok x) \<and> f s x = (s', Ok y))"
  by (cases m; cases "snd m") (auto simp: sbind_def split: result.splits)

lemma snd_sbind_eq_Panic [outcome]:
  "snd (sbind m f) = Panic \<longleftrightarrow> snd m = Panic \<or> (\<exists>s x. m = (s, Ok x) \<and> snd (f s x) = Panic)"
  by (cases m; cases "snd m") (auto simp: sbind_def split: result.splits)

lemma is_ok_iff: "is_ok r \<longleftrightarrow> (\<exists>x. r = Ok x)"
  by (cases r) auto

text \<open>
  Unchecked \<^verbatim>\<open>usize\<close> arithmetic panics on overflow in a build with overflow checks and wraps
  otherwise; a proof that it does not panic here shows that it does not wrap there.  A loop over a
  list of items threads its state and stops at the first error.
\<close>

definition add_usize :: "usize \<Rightarrow> usize \<Rightarrow> (usize, 'e) result" where
  "add_usize a b = expect (checked_add_usize a b)"

definition mul_usize :: "usize \<Rightarrow> usize \<Rightarrow> (usize, 'e) result" where
  "mul_usize a b = (if a * b \<le> usize_max then Ok (a * b) else Panic)"

primrec for_each :: "('a \<Rightarrow> 's \<Rightarrow> ('s, 'e) result) \<Rightarrow> 'a list \<Rightarrow> 's \<Rightarrow> ('s, 'e) result" where
  "for_each f [] s = Ok s"
| "for_each f (x # xs) s = rbind (f x s) (for_each f xs)"

lemma add_usize_eq_Ok [outcome]: "add_usize a b = Ok c \<longleftrightarrow> a + b \<le> usize_max \<and> c = a + b"
  by (auto simp: add_usize_def checked_add_usize_def)

lemma add_usize_eq_Panic [outcome]: "add_usize a b = Panic \<longleftrightarrow> \<not> a + b \<le> usize_max"
  by (auto simp: add_usize_def checked_add_usize_def)

lemma add_usize_neq_Err [outcome]: "add_usize a b \<noteq> Err e"
  by (auto simp: add_usize_def checked_add_usize_def)

lemma add_usize_ok [wire]: "a + b \<le> usize_max \<Longrightarrow> add_usize a b = Ok (a + b)"
  by (simp add: outcome)

lemma mul_usize_eq_Ok [outcome]: "mul_usize a b = Ok c \<longleftrightarrow> a * b \<le> usize_max \<and> c = a * b"
  by (auto simp: mul_usize_def)

lemma mul_usize_eq_Panic [outcome]: "mul_usize a b = Panic \<longleftrightarrow> \<not> a * b \<le> usize_max"
  by (auto simp: mul_usize_def)

lemma mul_usize_neq_Err [outcome]: "mul_usize a b \<noteq> Err e"
  by (auto simp: mul_usize_def)

lemma mul_usize_ok [wire]: "a * b \<le> usize_max \<Longrightarrow> mul_usize a b = Ok (a * b)"
  by (simp add: outcome)

lemma unat_u32_mul_usize [simp]: "unat (v :: u32) * unat (w :: u32) \<le> usize_max"
proof -
  have "unat v \<le> 2 ^ 32 - 1" "unat w \<le> 2 ^ 32 - 1"
    using unat_lt_pow [of v] unat_lt_pow [of w] by simp_all
  then have "unat v * unat w \<le> (2 ^ 32 - 1) * (2 ^ 32 - 1)" by (rule mult_le_mono)
  then show ?thesis by (simp add: usize_max_def)
qed

lemma for_each_unit_Ok:
  "for_each (\<lambda>x _. f x) xs () = Ok () \<longleftrightarrow> (\<forall>x \<in> set xs. f x = Ok ())"
proof (induction xs)
  case Nil
  then show ?case by simp
next
  case (Cons x xs)
  then show ?case by (cases "f x") auto
qed

lemma for_each_unit_Panic:
  "for_each (\<lambda>x _. f x) xs () = Panic \<Longrightarrow> \<exists>x \<in> set xs. f x = Panic"
proof (induction xs)
  case Nil
  then show ?case by simp
next
  case (Cons x xs)
  then show ?case by (cases "f x") auto
qed

lemma for_each_append:
  "for_each f (xs @ ys) s = rbind (for_each f xs s) (for_each f ys)"
proof (induction xs arbitrary: s)
  case Nil
  then show ?case by simp
next
  case (Cons x xs)
  then show ?case by (cases "f x s") auto
qed

section \<open>Byte slices\<close>

definition read_at :: "bytes \<Rightarrow> usize \<Rightarrow> usize \<Rightarrow> bytes" where
  "read_at b i n = take n (drop i b)"

definition write_at :: "bytes \<Rightarrow> usize \<Rightarrow> bytes \<Rightarrow> bytes" where
  "write_at b i xs = take i b @ xs @ drop (i + length xs) b"

text \<open>
  \<^verbatim>\<open>b[i..j]\<close> panics when the range is not inside the slice; \<^verbatim>\<open>copy_from_slice\<close> also panics when
  the lengths differ.
\<close>

definition slice :: "bytes \<Rightarrow> usize \<Rightarrow> usize \<Rightarrow> (bytes, 'e) result" where
  "slice b i j = (if i \<le> j \<and> j \<le> length b then Ok (read_at b i (j - i)) else Panic)"

definition copy_from_slice :: "bytes \<Rightarrow> usize \<Rightarrow> usize \<Rightarrow> bytes \<Rightarrow> (bytes, 'e) result" where
  "copy_from_slice b i j xs =
     (if i \<le> j \<and> j \<le> length b \<and> length xs = j - i then Ok (write_at b i xs) else Panic)"

definition fill :: "bytes \<Rightarrow> usize \<Rightarrow> usize \<Rightarrow> u8 \<Rightarrow> (bytes, 'e) result" where
  "fill b i j v = copy_from_slice b i j (replicate (j - i) v)"

definition index_byte :: "bytes \<Rightarrow> usize \<Rightarrow> (u8, 'e) result" where
  "index_byte b i = (if i < length b then Ok (b ! i) else Panic)"

lemma length_write_at [simp]:
  "i + length xs \<le> length b \<Longrightarrow> length (write_at b i xs) = length b"
  by (auto simp: write_at_def)

lemma length_read_at [simp]: "i + n \<le> length b \<Longrightarrow> length (read_at b i n) = n"
  by (auto simp: read_at_def)

lemma slice_ok [wire]: "i \<le> j \<Longrightarrow> j \<le> length b \<Longrightarrow> slice b i j = Ok (read_at b i (j - i))"
  by (simp add: slice_def)

lemma copy_from_slice_ok [wire]:
  "i \<le> j \<Longrightarrow> j \<le> length b \<Longrightarrow> length xs = j - i \<Longrightarrow>
     copy_from_slice b i j xs = Ok (write_at b i xs)"
  by (simp add: copy_from_slice_def)

lemma fill_ok [wire]:
  "i \<le> j \<Longrightarrow> j \<le> length b \<Longrightarrow> fill b i j v = Ok (write_at b i (replicate (j - i) v))"
  by (simp add: fill_def copy_from_slice_def)

lemma index_byte_ok [wire]: "i < length b \<Longrightarrow> index_byte b i = Ok (b ! i)"
  by (simp add: index_byte_def)

lemma read_write_same [wire]:
  "n = length xs \<Longrightarrow> i + n \<le> length b \<Longrightarrow> read_at (write_at b i xs) i n = xs"
  by (simp add: read_at_def write_at_def)

lemma read_write_above [wire]:
  assumes "i + length xs \<le> j" "i + length xs \<le> length b"
  shows "read_at (write_at b i xs) j n = read_at b j n"
proof -
  from assms obtain k where "j = i + length xs + k" using le_Suc_ex by blast
  with assms(2) show ?thesis by (simp add: read_at_def write_at_def add.commute)
qed

lemma read_write_below [wire]:
  assumes "j + n \<le> i" "i + length xs \<le> length b"
  shows "read_at (write_at b i xs) j n = read_at b j n"
proof -
  have "read_at (take i b @ ys) j n = read_at b j n" for ys
    using assms by (auto simp: read_at_def drop_take min_def)
  then show ?thesis by (simp add: write_at_def)
qed

lemma write_at_nth:
  assumes "i + length xs \<le> length b" "k < length b"
  shows "write_at b i xs ! k = (if i \<le> k \<and> k < i + length xs then xs ! (k - i) else b ! k)"
  using assms by (auto simp: write_at_def nth_append min_def)

lemma read_at_nth: "i + n \<le> length b \<Longrightarrow> k < n \<Longrightarrow> read_at b i n ! k = b ! (i + k)"
  by (simp add: read_at_def)

lemma nth_write_outside [wire]:
  "i + length xs \<le> length b \<Longrightarrow> k < length b \<Longrightarrow> k < i \<or> i + length xs \<le> k \<Longrightarrow>
     write_at b i xs ! k = b ! k"
  by (auto simp: write_at_nth)

text \<open>Two byte strings of the same length are equal when they agree on consecutive pieces.\<close>

lemma read_at_split:
  "m \<le> n \<Longrightarrow> read_at b i n = read_at b i m @ read_at b (i + m) (n - m)"
  using take_add [of m "n - m" "drop i b"] by (simp add: read_at_def add.commute)

lemma read_at_all: "n = length b \<Longrightarrow> read_at b 0 n = b"
  by (simp add: read_at_def)

lemma read_at_eqI:
  assumes "i + n \<le> length b" "i + n \<le> length c" "\<And>k. i \<le> k \<Longrightarrow> k < i + n \<Longrightarrow> b ! k = c ! k"
  shows "read_at b i n = read_at c i n"
  by (rule nth_equalityI) (use assms in \<open>auto simp: read_at_nth\<close>)

text \<open>The consecutive fields of a record with the given widths.\<close>

primrec pieces :: "bytes \<Rightarrow> usize \<Rightarrow> nat list \<Rightarrow> bytes list" where
  "pieces b i [] = []"
| "pieces b i (w # ws) = read_at b i w # pieces b (i + w) ws"

lemma concat_pieces: "i + sum_list ws = length b \<Longrightarrow> concat (pieces b i ws) = drop i b"
proof (induction ws arbitrary: i)
  case Nil
  then show ?case by simp
next
  case (Cons w ws)
  then have "concat (pieces b (i + w) ws) = drop (i + w) b" by simp
  moreover have "take w (drop i b) @ drop (i + w) b = drop i b"
    by (metis add.commute append_take_drop_id drop_drop)
  ultimately show ?case by (simp add: read_at_def)
qed

lemma pieces_concat:
  "i = length p \<Longrightarrow> pieces (p @ concat xs @ q) i (map length xs) = xs"
proof (induction xs arbitrary: i p)
  case Nil
  then show ?case by simp
next
  case (Cons x xs)
  from Cons.IH [of "i + length x" "p @ x"] Cons.prems show ?case
    by (simp add: read_at_def)
qed

lemma pieces_determine:
  assumes "length b = sum_list ws" "pieces b 0 ws = xs"
  shows "b = concat xs"
  using concat_pieces [of 0 ws b] assms by simp

section \<open>Little-endian integers\<close>

primrec to_le_bytes :: "nat \<Rightarrow> 'a::len word \<Rightarrow> bytes" where
  "to_le_bytes 0 w = []"
| "to_le_bytes (Suc n) w = ucast w # to_le_bytes n (drop_bit 8 w)"

primrec from_le_bytes :: "bytes \<Rightarrow> 'a::len word" where
  "from_le_bytes [] = 0"
| "from_le_bytes (b # bs) = ucast b OR push_bit 8 (from_le_bytes bs)"

lemma to_le_bytes_numeral [rust_eval]:
  "to_le_bytes (numeral k) w = ucast w # to_le_bytes (pred_numeral k) (drop_bit 8 w)"
  by (simp add: numeral_eq_Suc)

lemma length_to_le_bytes [simp]: "length (to_le_bytes n w) = n"
  by (induction n arbitrary: w) auto

lemma to_le_bytes_nth: "i < n \<Longrightarrow> to_le_bytes n w ! i = ucast (drop_bit (8 * i) w)"
proof (induction n arbitrary: w i)
  case 0
  then show ?case by simp
next
  case (Suc n)
  then show ?case by (cases i) (auto simp: ac_simps)
qed

lemma bit_from_le_bytes:
  "bit (from_le_bytes bs :: 'a::len word) k \<longleftrightarrow>
     k < LENGTH('a) \<and> k div 8 < length bs \<and> bit (bs ! (k div 8)) (k mod 8)"
proof (induction bs arbitrary: k)
  case Nil
  then show ?case by simp
next
  case (Cons b bs)
  show ?case
  proof (cases "k < 8")
    case True
    then show ?thesis by (auto simp: bit_simps)
  next
    case False
    then have k: "k div 8 = Suc ((k - 8) div 8)" "k mod 8 = (k - 8) mod 8"
      by (simp_all add: le_div_geq le_mod_geq)
    from False have nb: "\<not> bit b k"
      using bit_imp_le_length by fastforce
    show ?thesis
      using False nb by (auto simp: bit_simps Cons k)
  qed
qed

lemma from_to_le_bytes:
  assumes "LENGTH('a::len) = 8 * n"
  shows "from_le_bytes (to_le_bytes n w) = (w :: 'a word)"
proof (rule bit_word_eqI)
  fix k assume k: "k < LENGTH('a)"
  then have "k div 8 < n" using assms by auto
  moreover have "8 * (k div 8) + k mod 8 = k" by simp
  ultimately show "bit (from_le_bytes (to_le_bytes n w) :: 'a word) k \<longleftrightarrow> bit w k"
    using k by (simp add: bit_from_le_bytes to_le_bytes_nth bit_simps)
qed

lemma to_from_le_bytes:
  assumes "LENGTH('a::len) = 8 * n" "length bs = n"
  shows "to_le_bytes n (from_le_bytes bs :: 'a word) = bs"
proof (rule nth_equalityI)
  show "length (to_le_bytes n (from_le_bytes bs :: 'a word)) = length bs" using assms by simp
next
  fix i assume "i < length (to_le_bytes n (from_le_bytes bs :: 'a word))"
  then have i: "i < n" by simp
  show "to_le_bytes n (from_le_bytes bs :: 'a word) ! i = bs ! i"
  proof (rule bit_word_eqI)
    fix k assume "k < LENGTH(8)"
    then have k: "k < 8" by simp
    then have "(8 * i + k) div 8 = i" "(8 * i + k) mod 8 = k" by auto
    moreover have "8 * i + k < 8 * n" using i k by simp
    ultimately show "bit (to_le_bytes n (from_le_bytes bs :: 'a word) ! i) k \<longleftrightarrow> bit (bs ! i) k"
      using i k assms by (simp add: to_le_bytes_nth bit_simps bit_from_le_bytes)
  qed
qed

section \<open>Integer fields at fixed offsets\<close>

text \<open>
  The helpers \<^verbatim>\<open>put_u16\<close>, \<^verbatim>\<open>get_u16\<close> and their siblings, which every wire module of the program
  repeats.  Each panics exactly when the field does not lie inside the slice.
\<close>

definition put_u16 :: "bytes \<Rightarrow> usize \<Rightarrow> u16 \<Rightarrow> (bytes, 'e) result" where
  "put_u16 b off v = copy_from_slice b off (off + 2) (to_le_bytes 2 v)"

definition put_u32 :: "bytes \<Rightarrow> usize \<Rightarrow> u32 \<Rightarrow> (bytes, 'e) result" where
  "put_u32 b off v = copy_from_slice b off (off + 4) (to_le_bytes 4 v)"

definition put_u64 :: "bytes \<Rightarrow> usize \<Rightarrow> u64 \<Rightarrow> (bytes, 'e) result" where
  "put_u64 b off v = copy_from_slice b off (off + 8) (to_le_bytes 8 v)"

definition get_u16 :: "bytes \<Rightarrow> usize \<Rightarrow> (u16, 'e) result" where
  "get_u16 b off = rbind (slice b off (off + 2)) (\<lambda>s. Ok (from_le_bytes s))"

definition get_u32 :: "bytes \<Rightarrow> usize \<Rightarrow> (u32, 'e) result" where
  "get_u32 b off = rbind (slice b off (off + 4)) (\<lambda>s. Ok (from_le_bytes s))"

definition get_u64 :: "bytes \<Rightarrow> usize \<Rightarrow> (u64, 'e) result" where
  "get_u64 b off = rbind (slice b off (off + 8)) (\<lambda>s. Ok (from_le_bytes s))"

text \<open>
  The contract between the wire modules and the field helpers: a field of fixed width that is
  written where it fits, read where it fits, and decoded to what was encoded.
\<close>

locale wire_field =
  fixes width :: nat
    and enc :: "'v \<Rightarrow> bytes"
    and dec :: "bytes \<Rightarrow> 'v"
    and put :: "bytes \<Rightarrow> usize \<Rightarrow> 'v \<Rightarrow> (bytes, 'e) result"
    and get :: "bytes \<Rightarrow> usize \<Rightarrow> ('v, 'f) result"
  assumes enc_length: "length (enc v) = width"
    and dec_enc: "dec (enc v) = v"
    and enc_dec: "length s = width \<Longrightarrow> enc (dec s) = s"
    and put_fits: "off + width \<le> length b \<Longrightarrow> put b off v = Ok (write_at b off (enc v))"
    and put_outside: "\<not> off + width \<le> length b \<Longrightarrow> put b off v = Panic"
    and get_fits: "off + width \<le> length b \<Longrightarrow> get b off = Ok (dec (read_at b off width))"
    and get_outside: "\<not> off + width \<le> length b \<Longrightarrow> get b off = Panic"
begin

lemma put_eq_Ok: "put b off v = Ok c \<longleftrightarrow> off + width \<le> length b \<and> c = write_at b off (enc v)"
  by (cases "off + width \<le> length b") (auto simp: put_fits put_outside)

lemma put_eq_Panic: "put b off v = Panic \<longleftrightarrow> \<not> off + width \<le> length b"
  by (cases "off + width \<le> length b") (auto simp: put_fits put_outside)

lemma get_eq_Ok: "get b off = Ok v \<longleftrightarrow> off + width \<le> length b \<and> read_at b off width = enc v"
  by (cases "off + width \<le> length b") (auto simp: get_fits get_outside dec_enc enc_dec)

lemma get_neq_Err: "get b off \<noteq> Err e"
  by (cases "off + width \<le> length b") (auto simp: get_fits get_outside)

lemma get_eq_Panic: "get b off = Panic \<longleftrightarrow> \<not> off + width \<le> length b"
  by (cases "off + width \<le> length b") (auto simp: get_fits get_outside)

lemma get_put_same:
  assumes "off + width \<le> length b"
  shows "\<exists>c. put b off v = Ok c \<and> length c = length b \<and> get c off = Ok v"
  using assms by (simp add: put_fits get_fits enc_length read_write_same dec_enc)

lemma dec_inject: "length s = width \<Longrightarrow> length t = width \<Longrightarrow> dec s = dec t \<longleftrightarrow> s = t"
  by (metis enc_dec)

end

interpretation u16_field: wire_field 2 "to_le_bytes 2" from_le_bytes put_u16 get_u16
  by unfold_locales
    (simp_all add: put_u16_def get_u16_def copy_from_slice_def slice_def from_to_le_bytes
      to_from_le_bytes)

interpretation u32_field: wire_field 4 "to_le_bytes 4" from_le_bytes put_u32 get_u32
  by unfold_locales
    (simp_all add: put_u32_def get_u32_def copy_from_slice_def slice_def from_to_le_bytes
      to_from_le_bytes)

interpretation u64_field: wire_field 8 "to_le_bytes 8" from_le_bytes put_u64 get_u64
  by unfold_locales
    (simp_all add: put_u64_def get_u64_def copy_from_slice_def slice_def from_to_le_bytes
      to_from_le_bytes)

lemmas [wire] =
  u16_field.put_fits u32_field.put_fits u64_field.put_fits
  u16_field.get_fits u32_field.get_fits u64_field.get_fits
  u16_field.dec_enc u32_field.dec_enc u64_field.dec_enc

lemmas [outcome] =
  u16_field.get_neq_Err u32_field.get_neq_Err u64_field.get_neq_Err
  u16_field.get_eq_Panic u32_field.get_eq_Panic u64_field.get_eq_Panic

section \<open>Writing a record field by field\<close>

text \<open>
  A record encoder writes consecutive fields from offset zero.  \<open>overlay ps b\<close> is the slice \<open>b\<close> with
  the fields \<open>ps\<close> written over its beginning; each put extends the list of fields.
\<close>

definition overlay :: "bytes list \<Rightarrow> bytes \<Rightarrow> bytes" where
  "overlay ps b = concat ps @ drop (length (concat ps)) b"

named_theorems record_write "writing consecutive fields of a record"

lemma overlay_start: "overlay [] b = b"
  by (simp add: overlay_def)

lemma overlay_full: "length (concat ps) = length b \<Longrightarrow> overlay ps b = concat ps"
  by (simp add: overlay_def)

lemma length_overlay [simp]: "length (concat ps) \<le> length b \<Longrightarrow> length (overlay ps b) = length b"
  by (simp add: overlay_def)

lemma write_at_overlay:
  assumes "length (concat ps) = i" "i + length xs \<le> length b"
  shows "write_at (overlay ps b) i xs = overlay (ps @ [xs]) b"
  using assms by (simp add: overlay_def write_at_def ac_simps)

lemma copy_from_slice_overlay [record_write]:
  "length (concat ps) = i \<Longrightarrow> i + length xs = j \<Longrightarrow> j \<le> length b \<Longrightarrow>
     copy_from_slice (overlay ps b) i j xs = Ok (overlay (ps @ [xs]) b)"
  by (auto simp: copy_from_slice_def write_at_overlay)

lemma fill_overlay [record_write]:
  "length (concat ps) = i \<Longrightarrow> i \<le> j \<Longrightarrow> j \<le> length b \<Longrightarrow>
     fill (overlay ps b) i j v = Ok (overlay (ps @ [replicate (j - i) v]) b)"
  by (simp add: fill_def copy_from_slice_overlay)

lemma put_u16_overlay [record_write]:
  "length (concat ps) = i \<Longrightarrow> i + 2 \<le> length b \<Longrightarrow>
     put_u16 (overlay ps b) i v = Ok (overlay (ps @ [to_le_bytes 2 v]) b)"
  by (simp add: put_u16_def copy_from_slice_overlay)

lemma put_u32_overlay [record_write]:
  "length (concat ps) = i \<Longrightarrow> i + 4 \<le> length b \<Longrightarrow>
     put_u32 (overlay ps b) i v = Ok (overlay (ps @ [to_le_bytes 4 v]) b)"
  by (simp add: put_u32_def copy_from_slice_overlay)

lemma put_u64_overlay [record_write]:
  "length (concat ps) = i \<Longrightarrow> i + 8 \<le> length b \<Longrightarrow>
     put_u64 (overlay ps b) i v = Ok (overlay (ps @ [to_le_bytes 8 v]) b)"
  by (simp add: put_u64_def copy_from_slice_overlay)

section \<open>Writing fields in place\<close>

text \<open>
  Other encoders write their fields out of order.  A slice split at the boundaries of its fields
  takes each write in the piece it replaces.
\<close>

named_theorems patch "writing a field of a slice that is split at its field boundaries"

lemma write_at_here [patch]: "length xs = length p \<Longrightarrow> write_at (p @ r) 0 xs = xs @ r"
  by (simp add: write_at_def)

lemma write_at_whole [patch]: "length xs = length p \<Longrightarrow> write_at p 0 xs = xs"
  by (simp add: write_at_def)

lemma write_at_later [patch]:
  "0 < off \<Longrightarrow> length p \<le> off \<Longrightarrow> write_at (p @ r) off xs = p @ write_at r (off - length p) xs"
  by (simp add: write_at_def)

definition set_byte :: "bytes \<Rightarrow> usize \<Rightarrow> u8 \<Rightarrow> (bytes, 'e) result" where
  "set_byte b i v = (if i < length b then Ok (b[i := v]) else Panic)"

lemma set_byte_ok [wire]: "i < length b \<Longrightarrow> set_byte b i v = Ok (write_at b i [v])"
  by (simp add: set_byte_def write_at_def upd_conv_take_nth_drop)

lemma read_at_here [patch]: "n = length p \<Longrightarrow> read_at (p @ r) 0 n = p"
  by (simp add: read_at_def)

lemma read_at_later [patch]:
  "0 < off \<Longrightarrow> length p \<le> off \<Longrightarrow> read_at (p @ r) off n = read_at r (off - length p) n"
  by (simp add: read_at_def)

lemma index_byte_here [patch]: "index_byte ((v # p) @ r) 0 = Ok v" "index_byte (v # r) 0 = Ok v"
  by (simp_all add: index_byte_def)

lemma index_byte_later [patch]:
  "0 < off \<Longrightarrow> length p \<le> off \<Longrightarrow> index_byte (p @ r) off = index_byte r (off - length p)"
  by (auto simp: index_byte_def nth_append)

lemma index_byte_eq_Ok [outcome]: "index_byte b i = Ok v \<longleftrightarrow> i < length b \<and> read_at b i 1 = [v]"
  by (auto simp: index_byte_def read_at_def take_Suc hd_drop_conv_nth)

lemma index_byte_eq_Panic [outcome]: "index_byte b i = Panic \<longleftrightarrow> \<not> i < length b"
  by (simp add: index_byte_def)

lemma index_byte_neq_Err [outcome]: "index_byte b i \<noteq> Err e"
  by (simp add: index_byte_def)

end
