(* ===== verification/Codec.thy ===== *)
theory Codec
  imports Ipc_Prelude
begin

text \<open>
  The message codec, \<^verbatim>\<open>native-ipc-core/src/codec.rs\<close>: the 72-byte little-endian envelope, the
  resource budget a protocol decoder draws on, and the encoder and decoder that wrap a protocol's
  payload codec.  A protocol is code of the library's user (the trait \<^verbatim>\<open>Protocol\<close>); it is an
  argument of the operations, and the locale \<open>protocol_codec\<close> states what they rely on.  The counter
  protocol of \<^verbatim>\<open>examples/bounded_codec.rs\<close> instantiates it.
\<close>

section \<open>Data\<close>

definition MESSAGE_MAGIC :: u32 where "MESSAGE_MAGIC = 0x4e495043"
definition VERSION_MAJOR :: u16 where "VERSION_MAJOR = 1"
definition VERSION_MINOR :: u16 where "VERSION_MINOR = 0"
definition ENVELOPE_LEN :: usize where "ENVELOPE_LEN = 72"

record Limits =
  max_message_bytes :: u32
  max_payload_bytes :: u32
  max_records :: u32
  max_allocation_bytes :: u32

datatype EncodeError =
    DestinationTooSmall usize usize
  | LengthOverflow
  | ZeroGeneration
  | ZeroSequence
  | Protocol u16

datatype LimitKind = MessageBytes | PayloadBytes | Records | AllocationBytes

datatype DecodeError =
    Truncated usize usize
  | BadMagic u32
  | BadVersion u16 u16
  | SchemaMismatch
  | ZeroGeneration
  | ZeroSequence
  | NonCanonicalLength usize usize
  | LengthOverflow
  | RelativeRangeOutOfBounds u32 u32 usize
  | LimitExceeded LimitKind
  | Protocol u16

record DecodeContext =
  ctx_limits :: Limits
  records_remaining :: u32
  allocation_remaining :: u32

record Envelope =
  env_kind :: u32
  env_flags :: u32
  env_generation :: u64
  env_sequence :: u64
  env_payload_len :: u32

record 'm DecodedMessage =
  msg_envelope :: Envelope
  msg_message :: 'm

record 'm Protocol =
  SCHEMA_ID :: bytes
  encode_payload :: "'m \<Rightarrow> bytes \<Rightarrow> bytes \<times> (usize, EncodeError) result"
  decode_payload :: "bytes \<Rightarrow> DecodeContext \<Rightarrow> DecodeContext \<times> ('m, DecodeError) result"

section \<open>The decode budget\<close>

definition DecodeContext_new :: "Limits \<Rightarrow> DecodeContext" where
  "DecodeContext_new limits =
     \<lparr>ctx_limits = limits,
      records_remaining = max_records limits,
      allocation_remaining = max_allocation_bytes limits\<rparr>"

definition claim_records :: "DecodeContext \<Rightarrow> u32 \<Rightarrow> DecodeContext \<times> (unit, DecodeError) result" where
  "claim_records ctx count =
     (case checked_sub (records_remaining ctx) count of
        None \<Rightarrow> (ctx, Err (LimitExceeded Records))
      | Some rest \<Rightarrow> (ctx\<lparr>records_remaining := rest\<rparr>, Ok ()))"

definition claim_allocation :: "DecodeContext \<Rightarrow> u32 \<Rightarrow> DecodeContext \<times> (unit, DecodeError) result" where
  "claim_allocation ctx n =
     (case checked_sub (allocation_remaining ctx) n of
        None \<Rightarrow> (ctx, Err (LimitExceeded AllocationBytes))
      | Some rest \<Rightarrow> (ctx\<lparr>allocation_remaining := rest\<rparr>, Ok ()))"

definition copy_bytes :: "DecodeContext \<Rightarrow> bytes \<Rightarrow> DecodeContext \<times> (bytes, DecodeError) result" where
  "copy_bytes ctx source =
     sbind (ctx, ok_or DecodeError.LengthOverflow (try_from_usize (length source))) (\<lambda>ctx len.
     sbind (claim_allocation ctx len) (\<lambda>ctx _.
       (ctx, Ok source)))"

section \<open>Envelopes\<close>

definition Envelope_new :: "u32 \<Rightarrow> u32 \<Rightarrow> u64 \<Rightarrow> u64 \<Rightarrow> Envelope" where
  "Envelope_new kind flags generation sequence =
     \<lparr>env_kind = kind, env_flags = flags, env_generation = generation,
      env_sequence = sequence, env_payload_len = 0\<rparr>"

definition total_len :: "Envelope \<Rightarrow> (usize, EncodeError) result" where
  "total_len env =
     ok_or EncodeError.LengthOverflow (checked_add_usize ENVELOPE_LEN (unat (env_payload_len env)))"

definition with_payload_len :: "Envelope \<Rightarrow> usize \<Rightarrow> (Envelope, EncodeError) result" where
  "with_payload_len env n =
     rbind (ok_or EncodeError.LengthOverflow (try_from_usize n)) (\<lambda>len.
       Ok (env\<lparr>env_payload_len := len\<rparr>))"

definition encode_envelope :: "'m Protocol \<Rightarrow> Envelope \<Rightarrow> bytes \<Rightarrow> (bytes, 'e) result" where
  "encode_envelope P env b =
     rbind (put_u32 b 0 MESSAGE_MAGIC) (\<lambda>b.
     rbind (put_u16 b 4 VERSION_MAJOR) (\<lambda>b.
     rbind (put_u16 b 6 VERSION_MINOR) (\<lambda>b.
     rbind (put_u32 b 8 (env_kind env)) (\<lambda>b.
     rbind (put_u32 b 12 (env_flags env)) (\<lambda>b.
     rbind (put_u32 b 16 (env_payload_len env)) (\<lambda>b.
     rbind (put_u32 b 20 (word_of_nat ENVELOPE_LEN)) (\<lambda>b.
     rbind (put_u64 b 24 (env_generation env)) (\<lambda>b.
     rbind (put_u64 b 32 (env_sequence env)) (\<lambda>b.
       copy_from_slice b 40 72 (SCHEMA_ID P))))))))))"

definition decode_envelope :: "'m Protocol \<Rightarrow> bytes \<Rightarrow> (Envelope, DecodeError) result" where
  "decode_envelope P b =
     rbind (get_u32 b 0) (\<lambda>magic.
     if magic \<noteq> MESSAGE_MAGIC then Err (BadMagic magic) else
     rbind (get_u16 b 4) (\<lambda>major.
     rbind (get_u16 b 6) (\<lambda>minor.
     if major \<noteq> VERSION_MAJOR \<or> minor \<noteq> VERSION_MINOR then Err (BadVersion major minor) else
     rbind (get_u32 b 20) (\<lambda>header_len.
     if header_len \<noteq> word_of_nat ENVELOPE_LEN
     then Err (NonCanonicalLength (unat header_len) ENVELOPE_LEN) else
     rbind (slice b 40 72) (\<lambda>schema.
     if schema \<noteq> SCHEMA_ID P then Err SchemaMismatch else
     rbind (get_u64 b 24) (\<lambda>generation.
     if generation = 0 then Err DecodeError.ZeroGeneration else
     rbind (get_u64 b 32) (\<lambda>sequence.
     if sequence = 0 then Err DecodeError.ZeroSequence else
     rbind (get_u32 b 8) (\<lambda>kind.
     rbind (get_u32 b 12) (\<lambda>flags.
     rbind (get_u32 b 16) (\<lambda>payload_len.
       Ok \<lparr>env_kind = kind, env_flags = flags, env_generation = generation,
           env_sequence = sequence, env_payload_len = payload_len\<rparr>))))))))))"

section \<open>Messages\<close>

definition encode_message ::
    "'m Protocol \<Rightarrow> Envelope \<Rightarrow> 'm \<Rightarrow> bytes \<Rightarrow> bytes \<times> (usize, EncodeError) result" where
  "encode_message P env msg destination =
     (if env_generation env = 0 then (destination, Err EncodeError.ZeroGeneration)
      else if env_sequence env = 0 then (destination, Err EncodeError.ZeroSequence)
      else if length destination < ENVELOPE_LEN
      then (destination, Err (DestinationTooSmall ENVELOPE_LEN (length destination)))
      else
        let (tail, r) = encode_payload P msg (drop ENVELOPE_LEN destination);
            destination = take ENVELOPE_LEN destination @ tail
        in
          sbind (destination, r) (\<lambda>destination payload_len.
          sbind (destination, with_payload_len env payload_len) (\<lambda>destination env.
          sbind (destination, total_len env) (\<lambda>destination total.
            if total > length destination
            then (destination, Err (DestinationTooSmall total (length destination)))
            else
              sbind (destination, encode_envelope P env (take ENVELOPE_LEN destination))
                (\<lambda>destination header.
                   (header @ drop ENVELOPE_LEN destination, Ok total))))))"

definition decode_message ::
    "'m Protocol \<Rightarrow> bytes \<Rightarrow> Limits \<Rightarrow> ('m DecodedMessage, DecodeError) result" where
  "decode_message P source limits =
     (if length source < ENVELOPE_LEN then Err (Truncated ENVELOPE_LEN (length source))
      else if length source > unat (max_message_bytes limits)
      then Err (LimitExceeded MessageBytes)
      else
        rbind (slice source 0 ENVELOPE_LEN) (\<lambda>header.
        rbind (decode_envelope P header) (\<lambda>env.
        let payload_len = unat (env_payload_len env) in
        if payload_len > unat (max_payload_bytes limits) then Err (LimitExceeded PayloadBytes)
        else
          rbind (ok_or DecodeError.LengthOverflow (checked_add_usize ENVELOPE_LEN payload_len))
            (\<lambda>total_len.
          if total_len \<noteq> length source
          then Err (NonCanonicalLength total_len (length source))
          else
            rbind (slice source ENVELOPE_LEN (length source)) (\<lambda>payload.
            rbind (snd (decode_payload P payload (DecodeContext_new limits))) (\<lambda>message.
              Ok \<lparr>msg_envelope = env, msg_message = message\<rparr>))))))"

section \<open>Relative ranges\<close>

datatype RelativeRange = RelativeRange usize usize

definition RelativeRange_new :: "u32 \<Rightarrow> u32 \<Rightarrow> usize \<Rightarrow> (RelativeRange, DecodeError) result" where
  "RelativeRange_new offset len containing_len =
     (let start = unat offset in
      rbind (ok_or DecodeError.LengthOverflow (checked_add_usize start (unat len))) (\<lambda>end.
      if end > containing_len
      then Err (RelativeRangeOutOfBounds offset len containing_len)
      else Ok (RelativeRange start end)))"

section \<open>The counter protocol of the example\<close>

definition CounterProtocol :: "u32 Protocol" where
  "CounterProtocol =
     \<lparr>SCHEMA_ID = replicate 32 0x43,
      encode_payload = (\<lambda>message destination.
        if length destination < 4
        then (destination, Err (DestinationTooSmall 4 (length destination)))
        else sbind (destination, copy_from_slice destination 0 4 (to_le_bytes 4 message))
               (\<lambda>_ destination. (destination, Ok 4))),
      decode_payload = (\<lambda>source context.
        (context,
         if length source \<noteq> 4 then Err (DecodeError.Protocol 1) else Ok (from_le_bytes source)))\<rparr>"

section \<open>Envelope bytes\<close>

text \<open>The canonical header, field by field, as the encoder writes it.\<close>

definition envelope_fields :: "'m Protocol \<Rightarrow> Envelope \<Rightarrow> bytes list" where
  "envelope_fields P env =
     [to_le_bytes 4 MESSAGE_MAGIC, to_le_bytes 2 VERSION_MAJOR, to_le_bytes 2 VERSION_MINOR,
      to_le_bytes 4 (env_kind env), to_le_bytes 4 (env_flags env),
      to_le_bytes 4 (env_payload_len env), to_le_bytes 4 (word_of_nat ENVELOPE_LEN :: u32),
      to_le_bytes 8 (env_generation env), to_le_bytes 8 (env_sequence env), SCHEMA_ID P]"

definition envelope_bytes :: "'m Protocol \<Rightarrow> Envelope \<Rightarrow> bytes" where
  "envelope_bytes P env = concat (envelope_fields P env)"

abbreviation envelope_widths :: "nat list" where
  "envelope_widths \<equiv> [4, 2, 2, 4, 4, 4, 4, 8, 8, 32]"

lemma length_envelope_bytes [simp]:
  "length (SCHEMA_ID P) = 32 \<Longrightarrow> length (envelope_bytes P env) = 72"
  by (simp add: envelope_bytes_def envelope_fields_def)

lemma pieces_envelope_bytes:
  assumes "length (SCHEMA_ID P) = 32"
  shows "pieces (envelope_bytes P env) 0 envelope_widths = envelope_fields P env"
  using pieces_concat [of 0 "[]" "envelope_fields P env" "[]"] assms
  by (simp add: envelope_bytes_def envelope_fields_def)

lemma encode_envelope_canonical:
  assumes "length b = 72" "length (SCHEMA_ID P) = 32"
  shows "(encode_envelope P env b :: (bytes, 'e) result) = Ok (envelope_bytes P env)"
proof -
  have "(encode_envelope P env (overlay [] b) :: (bytes, 'e) result) = Ok (envelope_bytes P env)"
    using assms
    by (simp add: encode_envelope_def envelope_bytes_def envelope_fields_def record_write overlay_full)
  then show ?thesis by (simp add: overlay_start)
qed

lemma decode_envelope_bytes:
  assumes "length (SCHEMA_ID P) = 32" "env_generation env \<noteq> 0" "env_sequence env \<noteq> 0"
  shows "decode_envelope P (envelope_bytes P env) = Ok env"
  using pieces_envelope_bytes [OF assms(1), of env] assms
  by (simp add: decode_envelope_def envelope_fields_def wire)

lemma decode_envelope_sound:
  assumes "length b = 72" "decode_envelope P b = Ok env"
  shows "b = envelope_bytes P env \<and> length (SCHEMA_ID P) = 32 \<and>
    env_generation env \<noteq> 0 \<and> env_sequence env \<noteq> 0"
proof -
  have f: "pieces b 0 envelope_widths = envelope_fields P env"
    "env_generation env \<noteq> 0" "env_sequence env \<noteq> 0"
    using assms
    by (auto simp: decode_envelope_def envelope_fields_def outcome u16_field.get_eq_Ok
        u32_field.get_eq_Ok u64_field.get_eq_Ok slice_def split: if_splits)
  then have "read_at b 40 32 = SCHEMA_ID P"
    by (simp add: envelope_fields_def)
  then have "length (SCHEMA_ID P) = 32"
    using assms(1) length_read_at [of 40 32 b] by simp
  with pieces_determine [OF _ f(1)] f(2,3) assms(1) show ?thesis
    by (simp add: envelope_bytes_def)
qed

lemma decode_envelope_no_panic: "length b = 72 \<Longrightarrow> decode_envelope P b \<noteq> Panic"
  by (simp add: decode_envelope_def outcome slice_def)

section \<open>The contract of a protocol\<close>

text \<open>
  What the codec relies on of a user's protocol: the schema identity has its 32 bytes, writing the
  payload keeps the length of the slice, neither direction panics, and a payload decodes to the
  message it encodes whenever the budget admits the message.
\<close>

locale protocol_codec =
  fixes P :: "'m Protocol"
    and admits :: "Limits \<Rightarrow> 'm \<Rightarrow> bool"
  assumes schema_length: "length (SCHEMA_ID P) = 32"
    and encode_keeps_length: "length (fst (encode_payload P m d)) = length d"
    and encode_no_panic: "snd (encode_payload P m d) \<noteq> Panic"
    and decode_no_panic: "snd (decode_payload P s ctx) \<noteq> Panic"
    and payload_roundtrip:
      "encode_payload P m d = (d', Ok n) \<Longrightarrow> n \<le> length d \<Longrightarrow> admits limits m \<Longrightarrow>
         snd (decode_payload P (take n d') (DecodeContext_new limits)) = Ok m"
begin

lemma encode_message_Ok:
  assumes "encode_message P env m dest = (dest', Ok tot)"
  obtains n tail where "encode_payload P m (drop 72 dest) = (tail, Ok n)"
    "tot = 72 + n" "tot \<le> length dest" "n < 2 ^ 32"
    "dest' = envelope_bytes P (env\<lparr>env_payload_len := word_of_nat n\<rparr>) @ tail"
    "env_generation env \<noteq> 0" "env_sequence env \<noteq> 0" "length dest \<ge> 72"
proof -
  obtain tail r where p: "encode_payload P m (drop 72 dest) = (tail, r)"
    by (cases "encode_payload P m (drop 72 dest)")
  have l: "length tail = length dest - 72"
    using encode_keeps_length [of m "drop 72 dest"] p by simp
  have d: "length dest \<ge> 72" "env_generation env \<noteq> 0" "env_sequence env \<noteq> 0"
    using assms by (auto simp: encode_message_def ENVELOPE_LEN_def split: if_splits)
  obtain n where r: "r = Ok n"
    using assms p d by (auto simp: encode_message_def ENVELOPE_LEN_def outcome)
  have e: "(encode_envelope P e (take 72 dest) :: (bytes, EncodeError) result) =
      Ok (envelope_bytes P e)" for e
    using d by (simp add: encode_envelope_canonical schema_length)
  show thesis
    using assms p r d l that [of tail n]
    by (auto simp: encode_message_def ENVELOPE_LEN_def outcome with_payload_len_def total_len_def
        e split: if_splits)
qed

lemma encode_message_total:
  "snd (encode_message P env m dest) \<noteq> Panic \<and>
   length (fst (encode_message P env m dest)) = length dest"
proof -
  obtain tail r where p: "encode_payload P m (drop 72 dest) = (tail, r)"
    by (cases "encode_payload P m (drop 72 dest)")
  have l: "length tail = length dest - 72" and r: "r \<noteq> Panic"
    using encode_keeps_length [of m "drop 72 dest"] encode_no_panic [of m "drop 72 dest"] p
    by simp_all
  have e: "length dest \<ge> 72 \<Longrightarrow> (encode_envelope P e (take 72 dest) :: (bytes, EncodeError) result) =
      Ok (envelope_bytes P e)" for e
    by (simp add: encode_envelope_canonical schema_length)
  show ?thesis
    using p l r e
    by (cases r)
      (auto simp: encode_message_def ENVELOPE_LEN_def with_payload_len_def total_len_def
        try_from_usize_def checked_add_usize_def schema_length)
qed

lemma decode_message_no_panic: "decode_message P source limits \<noteq> Panic"
  by (simp add: decode_message_def outcome slice_def decode_envelope_no_panic decode_no_panic
      ENVELOPE_LEN_def Let_def)

end

lemma decode_message_Ok_iff:
  "decode_message P source limits = Ok d \<longleftrightarrow>
     (\<exists>payload. source = envelope_bytes P (msg_envelope d) @ payload \<and>
        length (SCHEMA_ID P) = 32 \<and>
        env_generation (msg_envelope d) \<noteq> 0 \<and> env_sequence (msg_envelope d) \<noteq> 0 \<and>
        length payload = unat (env_payload_len (msg_envelope d)) \<and>
        length source \<le> unat (max_message_bytes limits) \<and>
        length payload \<le> unat (max_payload_bytes limits) \<and>
        snd (decode_payload P payload (DecodeContext_new limits)) = Ok (msg_message d))"
  (is "?L \<longleftrightarrow> ?R")
proof
  assume L: ?L
  then have len: "length source \<ge> 72"
    by (auto simp: decode_message_def ENVELOPE_LEN_def split: if_splits)
  obtain env where env: "decode_envelope P (read_at source 0 72) = Ok env"
    using L len by (auto simp: decode_message_def ENVELOPE_LEN_def outcome wire split: if_splits)
  have s: "source = read_at source 0 72 @ drop 72 source"
    by (simp add: read_at_def)
  from decode_envelope_sound [OF _ env] len
  have e: "read_at source 0 72 = envelope_bytes P env" "length (SCHEMA_ID P) = 32"
    "env_generation env \<noteq> 0" "env_sequence env \<noteq> 0" by simp_all
  have "read_at source 72 (length source - 72) = drop 72 source"
    by (simp add: read_at_def)
  then show ?R
    using L len env s e
    by (auto simp: decode_message_def ENVELOPE_LEN_def outcome wire Let_def split: if_splits
        intro!: exI [of _ "drop 72 source"])
next
  assume ?R
  then obtain payload where R: "source = envelope_bytes P (msg_envelope d) @ payload"
    "length (SCHEMA_ID P) = 32"
    "env_generation (msg_envelope d) \<noteq> 0" "env_sequence (msg_envelope d) \<noteq> 0"
    "length payload = unat (env_payload_len (msg_envelope d))"
    "length source \<le> unat (max_message_bytes limits)"
    "length payload \<le> unat (max_payload_bytes limits)"
    "snd (decode_payload P payload (DecodeContext_new limits)) = Ok (msg_message d)"
    by blast
  have h: "read_at source 0 72 = envelope_bytes P (msg_envelope d)"
    "read_at source 72 (length payload) = payload" "length source = 72 + length payload"
    using R(1,2) by (simp_all add: read_at_def)
  have "72 + length payload \<le> usize_max"
    using R(5) unat_lt_pow [of "env_payload_len (msg_envelope d)"] by (simp add: usize_max_def)
  then show ?L
    using R h decode_envelope_bytes [of P "msg_envelope d"]
    by (simp add: decode_message_def ENVELOPE_LEN_def wire Let_def checked_add_usize_def)
qed

interpretation counter: protocol_codec CounterProtocol "\<lambda>_ _. True"
  by unfold_locales
    (auto simp: CounterProtocol_def copy_from_slice_def write_at_def from_to_le_bytes
      split: if_splits)

section \<open>The budget under any sequence of claims\<close>

text \<open>
  A protocol decoder may claim in any order and may carry on after a refusal.  The reference budget
  counts in natural numbers and grants a claim exactly when the rest covers it.
\<close>

datatype Claim = ClaimRecords u32 | ClaimAllocation u32 | CopyBytes bytes

fun run_claim :: "DecodeContext \<Rightarrow> Claim \<Rightarrow> DecodeContext \<times> bool" where
  "run_claim ctx (ClaimRecords n) = map_prod id is_ok (claim_records ctx n)"
| "run_claim ctx (ClaimAllocation n) = map_prod id is_ok (claim_allocation ctx n)"
| "run_claim ctx (CopyBytes s) = map_prod id is_ok (copy_bytes ctx s)"

primrec run_claims :: "DecodeContext \<Rightarrow> Claim list \<Rightarrow> DecodeContext \<times> bool list" where
  "run_claims ctx [] = (ctx, [])"
| "run_claims ctx (c # cs) =
     (let (ctx, ok) = run_claim ctx c; (ctx, oks) = run_claims ctx cs in (ctx, ok # oks))"

primrec claim_cost :: "Claim \<Rightarrow> nat \<times> nat" where
  "claim_cost (ClaimRecords n) = (unat n, 0)"
| "claim_cost (ClaimAllocation n) = (0, unat n)"
| "claim_cost (CopyBytes s) = (0, length s)"

primrec grants :: "nat \<times> nat \<Rightarrow> Claim list \<Rightarrow> bool list" where
  "grants rest [] = []"
| "grants rest (c # cs) =
     (if fst (claim_cost c) \<le> fst rest \<and> snd (claim_cost c) \<le> snd rest
      then True # grants (fst rest - fst (claim_cost c), snd rest - snd (claim_cost c)) cs
      else False # grants rest cs)"

definition granted_cost :: "Claim list \<Rightarrow> bool list \<Rightarrow> nat \<times> nat" where
  "granted_cost cs oks =
     (let granted = map (claim_cost \<circ> fst) (List.filter snd (zip cs oks))
      in (sum_list (map fst granted), sum_list (map snd granted)))"

definition budget_abs :: "DecodeContext \<Rightarrow> nat \<times> nat" where
  "budget_abs ctx = (unat (records_remaining ctx), unat (allocation_remaining ctx))"

lemma run_claim_refines:
  "run_claim ctx c = (ctx', ok) \<Longrightarrow>
     ctx_limits ctx' = ctx_limits ctx \<and>
     (ok \<longleftrightarrow> fst (claim_cost c) \<le> fst (budget_abs ctx) \<and> snd (claim_cost c) \<le> snd (budget_abs ctx)) \<and>
     (if ok then fst (budget_abs ctx') + fst (claim_cost c) = fst (budget_abs ctx) \<and>
        snd (budget_abs ctx') + snd (claim_cost c) = snd (budget_abs ctx)
      else ctx' = ctx)"
proof (induction ctx c rule: run_claim.induct)
  case (3 ctx s)
  then show ?case
    using unat_lt_pow [of "allocation_remaining ctx"]
    by (auto simp: copy_bytes_def claim_allocation_def budget_abs_def checked_sub_def unat_sub
        word_le_nat_alt try_from_usize_def split: if_splits)
qed (auto simp: claim_records_def claim_allocation_def budget_abs_def checked_sub_def unat_sub
    word_le_nat_alt split: if_splits)

lemma run_claims_refines:
  "run_claims ctx cs = (ctx', oks) \<Longrightarrow>
     oks = grants (budget_abs ctx) cs \<and> ctx_limits ctx' = ctx_limits ctx \<and>
     fst (granted_cost cs oks) + fst (budget_abs ctx') = fst (budget_abs ctx) \<and>
     snd (granted_cost cs oks) + snd (budget_abs ctx') = snd (budget_abs ctx)"
proof (induction cs arbitrary: ctx oks)
  case Nil
  then show ?case by (simp add: granted_cost_def)
next
  case (Cons c cs)
  obtain ctx1 ok where c: "run_claim ctx c = (ctx1, ok)" by force
  obtain oks1 where cs: "run_claims ctx1 cs = (ctx', oks1)" "oks = ok # oks1"
    using Cons.prems c by (auto split: prod.splits)
  have eq: "ok \<Longrightarrow> (fst (budget_abs ctx) - fst (claim_cost c), snd (budget_abs ctx) - snd (claim_cost c))
      = budget_abs ctx1"
    using run_claim_refines [OF c] by (auto simp: prod_eq_iff)
  show ?case
    using Cons.IH [OF cs(1)] run_claim_refines [OF c] cs(2) eq
    by (cases ok) (auto simp: granted_cost_def Let_def)
qed

section \<open>Properties\<close>

text \<open>C15: a frame that \<^verbatim>\<open>encode_message\<close> reports as written decodes, under limits that admit it, to
  the same envelope with the exact payload length and to the same message.\<close>

theorem message_roundtrip:
  assumes "protocol_codec P admits"
    and "encode_message P env m dest = (dest', Ok n)"
    and "admits limits m"
    and "n \<le> unat (max_message_bytes limits)" "n \<le> 72 + unat (max_payload_bytes limits)"
  shows "decode_message P (take n dest') limits =
    Ok \<lparr>msg_envelope = env\<lparr>env_payload_len := word_of_nat (n - 72)\<rparr>, msg_message = m\<rparr>"
proof -
  obtain k tail where e: "encode_payload P m (drop 72 dest) = (tail, Ok k)" "n = 72 + k"
    "n \<le> length dest" "k < 2 ^ 32"
    "dest' = envelope_bytes P (env\<lparr>env_payload_len := word_of_nat k\<rparr>) @ tail"
    "env_generation env \<noteq> 0" "env_sequence env \<noteq> 0" "length dest \<ge> 72"
    by (rule protocol_codec.encode_message_Ok [OF assms(1,2)])
  have s: "length (SCHEMA_ID P) = 32"
    by (rule protocol_codec.schema_length [OF assms(1)])
  have "length tail = length dest - 72"
    using protocol_codec.encode_keeps_length [OF assms(1), of m "drop 72 dest"] e(1) by simp
  moreover have "snd (decode_payload P (take k tail) (DecodeContext_new limits)) = Ok m"
    using protocol_codec.payload_roundtrip [OF assms(1) e(1) _ assms(3)] e(2,3,8) by simp
  ultimately show ?thesis
    using e assms(4,5) s by (simp add: decode_message_Ok_iff)
qed

theorem message_roundtrip_witness:
  "\<exists>frame.
     encode_message CounterProtocol (Envelope_new 7 0 1 2) 5 (replicate 80 0) = (frame, Ok 76) \<and>
     decode_message CounterProtocol (take 76 frame)
       \<lparr>max_message_bytes = 128, max_payload_bytes = 8, max_records = 0, max_allocation_bytes = 0\<rparr> =
     Ok \<lparr>msg_envelope = (Envelope_new 7 0 1 2)\<lparr>env_payload_len := word_of_nat (76 - 72)\<rparr>,
         msg_message = 5\<rparr>"
proof -
  have "snd (encode_message CounterProtocol (Envelope_new 7 0 1 2) 5 (replicate 80 0)) = Ok 76"
    by (simp add: encode_message_def CounterProtocol_def Envelope_new_def ENVELOPE_LEN_def
        with_payload_len_def total_len_def try_from_usize_def checked_add_usize_def usize_max_def
        encode_envelope_def wire)
  then obtain frame where
    f: "encode_message CounterProtocol (Envelope_new 7 0 1 2) 5 (replicate 80 0) = (frame, Ok 76)"
    by (metis prod.collapse)
  let ?limits = "\<lparr>max_message_bytes = 128, max_payload_bytes = 8, max_records = 0,
    max_allocation_bytes = 0\<rparr> :: Limits"
  have "76 \<le> unat (max_message_bytes ?limits)" "76 \<le> 72 + unat (max_payload_bytes ?limits)"
    by simp_all
  from message_roundtrip [OF counter.protocol_codec_axioms f TrueI this] f show ?thesis by blast
qed

text \<open>C16: \<^verbatim>\<open>decode_message\<close> accepts exactly the canonical frames: the one header that the encoder
  writes for the decoded envelope, followed by exactly the announced payload, inside the message and
  payload limits, whose payload the protocol decodes with a fresh budget.  There is no second
  encoding of an accepted message and no trailing byte.\<close>

theorem decode_accepts_exactly_canonical:
  "decode_message P source limits = Ok d \<longleftrightarrow>
     (\<exists>payload. source = envelope_bytes P (msg_envelope d) @ payload \<and>
        length (SCHEMA_ID P) = 32 \<and>
        env_generation (msg_envelope d) \<noteq> 0 \<and> env_sequence (msg_envelope d) \<noteq> 0 \<and>
        length payload = unat (env_payload_len (msg_envelope d)) \<and>
        length source \<le> unat (max_message_bytes limits) \<and>
        length payload \<le> unat (max_payload_bytes limits) \<and>
        snd (decode_payload P payload (DecodeContext_new limits)) = Ok (msg_message d))"
  by (rule decode_message_Ok_iff)

text \<open>neither direction of the codec panics, whatever bytes the peer sends and whatever
  destination the caller passes, and encoding keeps the length of the destination.\<close>

theorem codec_never_panics:
  assumes "protocol_codec P admits"
  shows "decode_message P source limits \<noteq> Panic \<and>
    snd (encode_message P env m dest) \<noteq> Panic \<and>
    length (fst (encode_message P env m dest)) = length dest"
  using protocol_codec.decode_message_no_panic [OF assms]
    protocol_codec.encode_message_total [OF assms] by blast

theorem codec_never_panics_witness:
  "decode_message CounterProtocol [1, 2, 3]
     \<lparr>max_message_bytes = 128, max_payload_bytes = 8, max_records = 0, max_allocation_bytes = 0\<rparr>
     \<noteq> Panic \<and>
   snd (encode_message CounterProtocol (Envelope_new 0 0 1 1) 9 (replicate 74 0)) \<noteq> Panic \<and>
   length (fst (encode_message CounterProtocol (Envelope_new 0 0 1 1) 9 (replicate 74 0))) =
     length (replicate 74 (0 :: u8))"
  by (rule codec_never_panics [OF counter.protocol_codec_axioms])

text \<open>over any sequence of record, allocation and copy claims, refused claims included, a claim
  is granted exactly when the rest of the budget covers it, what was granted and what is left add up
  to the limits of the message, and the limits themselves never change.\<close>

theorem budget_conserved:
  "let (ctx, oks) = run_claims (DecodeContext_new limits) cs in
     oks = grants (unat (max_records limits), unat (max_allocation_bytes limits)) cs \<and>
     ctx_limits ctx = limits \<and>
     fst (granted_cost cs oks) + unat (records_remaining ctx) = unat (max_records limits) \<and>
     snd (granted_cost cs oks) + unat (allocation_remaining ctx) = unat (max_allocation_bytes limits)"
proof -
  obtain ctx oks where r: "run_claims (DecodeContext_new limits) cs = (ctx, oks)" by force
  from run_claims_refines [OF r] show ?thesis
    unfolding r by (elim conjE) (simp add: budget_abs_def DecodeContext_new_def)
qed

end
