(* ===== verification/Slot.thy ===== *)
theory Slot
  imports Ipc_Prelude
begin

text \<open>
  Slots and acknowledgement cells, \<^verbatim>\<open>native-ipc-core/src/slot.rs\<close>: the publication metadata of a
  fixed-capacity ring slot, the writer and reader capabilities over it, and the acknowledgement
  route back.  The identities a binding carries (\<^verbatim>\<open>RoleId\<close>, \<^verbatim>\<open>AcknowledgementRoute\<close>, from
  \<^verbatim>\<open>layout.rs\<close>) stand here because both modules use them.

  The metadata lies in shared memory, so an operation takes the contents of the record it acts on
  and a storing operation returns the contents it leaves.  The loads of one reader operation may see
  different contents: \<open>mem i\<close> is the record at the \<open>i\<close>-th load.  The system of one writer and one
  reader interleaves their single loads and stores; accesses are sequentially consistent.
\<close>

section \<open>Identities\<close>

datatype RoleId = RoleId (role_get: u32)

definition RoleId_new :: "u32 \<Rightarrow> RoleId option" where
  "RoleId_new v = (if v = 0 then None else Some (RoleId v))"

record AcknowledgementRoute =
  rt_owner :: RoleId
  rt_target :: RoleId
  rt_slot_index :: u32
  rt_cell_index :: u32

section \<open>Shared records\<close>

definition SLOT_HEADER_SIZE :: u64 where "SLOT_HEADER_SIZE = 64"
definition ACKNOWLEDGEMENT_CELL_SIZE :: u64 where "ACKNOWLEDGEMENT_CELL_SIZE = 64"

record SlotMetadata =
  meta_generation :: u64
  meta_payload_len :: u32
  meta_reserved_word :: u32
  meta_published_sequence :: u64
  meta_reserved :: bytes

definition SlotMetadata_new :: "u64 \<Rightarrow> SlotMetadata" where
  "SlotMetadata_new generation =
     \<lparr>meta_generation = generation, meta_payload_len = 0, meta_reserved_word = 0,
      meta_published_sequence = 0, meta_reserved = replicate 40 0\<rparr>"

record AcknowledgementCell =
  cell_sequence :: u64
  cell_reserved :: bytes

definition AcknowledgementCell_new :: AcknowledgementCell where
  "AcknowledgementCell_new = \<lparr>cell_sequence = 0, cell_reserved = replicate 56 0\<rparr>"

definition AcknowledgementCell_initialize :: "AcknowledgementCell \<Rightarrow> AcknowledgementCell" where
  "AcknowledgementCell_initialize cell =
     cell\<lparr>cell_sequence := 0, cell_reserved := replicate 56 0\<rparr>"

section \<open>Bindings and errors\<close>

record SlotBinding =
  sb_role :: RoleId
  sb_generation :: u64
  sb_payload_capacity :: u32
  sb_slot_index :: u32
  sb_slot_count :: u32
  sb_acknowledgement_owner :: "RoleId option"
  sb_acknowledgement_cell_index :: "u32 option"

definition WriterSlotBinding_validated ::
    "RoleId \<Rightarrow> u64 \<Rightarrow> u32 \<Rightarrow> u32 \<Rightarrow> u32 \<Rightarrow> RoleId \<Rightarrow> u32 \<Rightarrow> SlotBinding" where
  "WriterSlotBinding_validated role generation payload_capacity slot_index slot_count
     acknowledgement_owner acknowledgement_cell_index =
     \<lparr>sb_role = role, sb_generation = generation, sb_payload_capacity = payload_capacity,
      sb_slot_index = slot_index, sb_slot_count = slot_count,
      sb_acknowledgement_owner = Some acknowledgement_owner,
      sb_acknowledgement_cell_index = Some acknowledgement_cell_index\<rparr>"

definition ReaderSlotBinding_validated ::
    "RoleId \<Rightarrow> u64 \<Rightarrow> u32 \<Rightarrow> u32 \<Rightarrow> u32 \<Rightarrow> SlotBinding" where
  "ReaderSlotBinding_validated role generation payload_capacity slot_index slot_count =
     \<lparr>sb_role = role, sb_generation = generation, sb_payload_capacity = payload_capacity,
      sb_slot_index = slot_index, sb_slot_count = slot_count,
      sb_acknowledgement_owner = None, sb_acknowledgement_cell_index = None\<rparr>"

record AcknowledgementBinding =
  ab_owner :: RoleId
  ab_target :: RoleId
  ab_slot_index :: u32
  ab_cell_index :: u32
  ab_generation :: u64

definition AcknowledgementBinding_validated ::
    "AcknowledgementRoute \<Rightarrow> u64 \<Rightarrow> AcknowledgementBinding" where
  "AcknowledgementBinding_validated route generation =
     \<lparr>ab_owner = rt_owner route, ab_target = rt_target route, ab_slot_index = rt_slot_index route,
      ab_cell_index = rt_cell_index route, ab_generation = generation\<rparr>"

record PublishReservation =
  res_sequence :: u64
  res_capacity :: u32

record SlotObservation =
  so_role :: RoleId
  so_slot_index :: u32
  so_generation :: u64
  so_sequence :: u64
  so_payload_len :: u32

record AcknowledgementObservation =
  ao_owner :: RoleId
  ao_target :: RoleId
  ao_generation :: u64
  ao_slot_index :: u32
  ao_cell_index :: u32
  ao_sequence :: u64

datatype SlotError =
    ZeroGeneration
  | UnpublishedSequence
  | StaleGeneration u64 u64
  | SequenceWrap
  | WrongSlot u32 u32
  | UnexpectedFirstSequence u64 u64
  | UnexpectedNextSequence u64 u64
  | MissingAcknowledgement u64
  | WrongAcknowledgementTarget
  | WrongAcknowledgementOwner
  | WrongAcknowledgementSlot
  | WrongAcknowledgementCell
  | StaleAcknowledgementGeneration
  | LaggingAcknowledgement u64 u64
  | FutureAcknowledgement u64 u64
  | StaleSequence u64 u64
  | PayloadTooLarge u32 u32
  | ChangedPayloadLength u32 u32
  | WrongObservationRole

datatype AcknowledgementError =
    WrongTarget
  | StaleGeneration
  | WrongSlot
  | UnpublishedSequence
  | NonMonotonic u64 u64

section \<open>Operations\<close>

definition SlotMetadata_initialize ::
    "SlotMetadata \<Rightarrow> u64 \<Rightarrow> SlotMetadata \<times> (unit, SlotError) result" where
  "SlotMetadata_initialize m generation =
     (if generation = 0 then (m, Err SlotError.ZeroGeneration)
      else
        (m\<lparr>meta_generation := generation, meta_payload_len := 0, meta_reserved_word := 0,
           meta_published_sequence := 0, meta_reserved := replicate 40 0\<rparr>, Ok ()))"

definition validate_bound_generation :: "SlotMetadata \<Rightarrow> u64 \<Rightarrow> (unit, SlotError) result" where
  "validate_bound_generation header expected =
     (if expected = 0 then Err SlotError.ZeroGeneration
      else
        let actual = meta_generation header in
        if actual = expected then Ok () else Err (SlotError.StaleGeneration expected actual))"

text \<open>The remainder by a slot count of zero panics.\<close>

definition validate_sequence_slot :: "SlotBinding \<Rightarrow> u64 \<Rightarrow> (unit, SlotError) result" where
  "validate_sequence_slot binding sequence =
     (if sequence = 0 then Err SlotError.UnpublishedSequence
      else if sb_slot_count binding = 0 then Panic
      else
        let expected = (ucast ((sequence - 1) mod ucast (sb_slot_count binding)) :: u32) in
        if sb_slot_index binding = expected then Ok ()
        else Err (SlotError.WrongSlot expected (sb_slot_index binding)))"

definition WriterSlot_bind :: "SlotMetadata \<Rightarrow> SlotBinding \<Rightarrow> (SlotBinding, SlotError) result" where
  "WriterSlot_bind header binding =
     rbind (validate_bound_generation header (sb_generation binding)) (\<lambda>_. Ok binding)"

definition ReaderSlot_bind :: "SlotMetadata \<Rightarrow> SlotBinding \<Rightarrow> (SlotBinding, SlotError) result" where
  "ReaderSlot_bind header binding =
     rbind (validate_bound_generation header (sb_generation binding)) (\<lambda>_. Ok binding)"

definition check_acknowledgement ::
    "SlotBinding \<Rightarrow> u64 \<Rightarrow> AcknowledgementObservation \<Rightarrow> (unit, SlotError) result" where
  "check_acknowledgement binding current ack =
     (if ao_target ack \<noteq> sb_role binding then Err WrongAcknowledgementTarget
      else
        rbind (expect (sb_acknowledgement_owner binding)) (\<lambda>owner.
        if ao_owner ack \<noteq> owner then Err WrongAcknowledgementOwner
        else if ao_slot_index ack \<noteq> sb_slot_index binding then Err WrongAcknowledgementSlot
        else
          rbind (expect (sb_acknowledgement_cell_index binding)) (\<lambda>cell_index.
          if ao_cell_index ack \<noteq> cell_index then Err WrongAcknowledgementCell
          else if ao_generation ack \<noteq> sb_generation binding then Err StaleAcknowledgementGeneration
          else if ao_sequence ack < current then Err (LaggingAcknowledgement current (ao_sequence ack))
          else if ao_sequence ack > current then Err (FutureAcknowledgement current (ao_sequence ack))
          else Ok ())))"

definition prepare_publish ::
    "SlotBinding \<Rightarrow> SlotMetadata \<Rightarrow> u64 \<Rightarrow> AcknowledgementObservation option \<Rightarrow>
     (PublishReservation, SlotError) result" where
  "prepare_publish binding header sequence acknowledgement =
     rbind (validate_bound_generation header (sb_generation binding)) (\<lambda>_.
     rbind (validate_sequence_slot binding sequence) (\<lambda>_.
     let current = meta_published_sequence header in
     rbind
       (if current = 0 then
          let expected = ucast (sb_slot_index binding) + 1 in
          if sequence \<noteq> expected then Err (UnexpectedFirstSequence expected sequence) else Ok ()
        else
          rbind (ok_or SequenceWrap (checked_add current (ucast (sb_slot_count binding)))) (\<lambda>expected.
          if sequence \<noteq> expected then Err (UnexpectedNextSequence expected sequence)
          else
            rbind (ok_or (MissingAcknowledgement current) acknowledgement) (\<lambda>ack.
              check_acknowledgement binding current ack)))
       (\<lambda>_. Ok \<lparr>res_sequence = sequence, res_capacity = sb_payload_capacity binding\<rparr>)))"

text \<open>\<^verbatim>\<open>publish\<close> stores the length and then the sequence; the two stores are separate accesses.\<close>

definition store_payload_len :: "SlotMetadata \<Rightarrow> u32 \<Rightarrow> SlotMetadata" where
  "store_payload_len header n = header\<lparr>meta_payload_len := n\<rparr>"

definition store_published_sequence :: "SlotMetadata \<Rightarrow> u64 \<Rightarrow> SlotMetadata" where
  "store_published_sequence header sequence = header\<lparr>meta_published_sequence := sequence\<rparr>"

definition publish ::
    "PublishReservation \<Rightarrow> SlotMetadata \<Rightarrow> u32 \<Rightarrow> SlotMetadata \<times> (unit, SlotError) result" where
  "publish res header payload_len =
     (if payload_len > res_capacity res
      then (header, Err (PayloadTooLarge payload_len (res_capacity res)))
      else
        let header = store_payload_len header payload_len;
            header = store_published_sequence header (res_sequence res)
        in (header, Ok ()))"

definition ReaderSlot_observe ::
    "SlotBinding \<Rightarrow> (nat \<Rightarrow> SlotMetadata) \<Rightarrow> u64 \<Rightarrow> (SlotObservation, SlotError) result" where
  "ReaderSlot_observe binding mem expected_sequence =
     rbind (validate_sequence_slot binding expected_sequence) (\<lambda>_.
     let sequence = meta_published_sequence (mem 0) in
     if sequence \<noteq> expected_sequence then Err (StaleSequence expected_sequence sequence)
     else
       rbind (validate_bound_generation (mem 1) (sb_generation binding)) (\<lambda>_.
       let payload_len = meta_payload_len (mem 2) in
       if payload_len > sb_payload_capacity binding
       then Err (PayloadTooLarge payload_len (sb_payload_capacity binding))
       else
         Ok \<lparr>so_role = sb_role binding, so_slot_index = sb_slot_index binding,
             so_generation = sb_generation binding, so_sequence = sequence,
             so_payload_len = payload_len\<rparr>))"

definition ReaderSlot_recheck ::
    "SlotBinding \<Rightarrow> (nat \<Rightarrow> SlotMetadata) \<Rightarrow> SlotObservation \<Rightarrow> (unit, SlotError) result" where
  "ReaderSlot_recheck binding mem observation =
     (if so_role observation \<noteq> sb_role binding then Err WrongObservationRole
      else if so_generation observation \<noteq> sb_generation binding
      then Err (SlotError.StaleGeneration (sb_generation binding) (so_generation observation))
      else
        let sequence = meta_published_sequence (mem 0) in
        if sequence \<noteq> so_sequence observation
        then Err (StaleSequence (so_sequence observation) sequence)
        else
          rbind (validate_bound_generation (mem 1) (so_generation observation)) (\<lambda>_.
          let payload_len = meta_payload_len (mem 2) in
          if payload_len \<noteq> so_payload_len observation
          then Err (ChangedPayloadLength (so_payload_len observation) payload_len)
          else Ok ()))"

definition acknowledge ::
    "AcknowledgementBinding \<Rightarrow> AcknowledgementCell \<Rightarrow> SlotObservation \<Rightarrow>
     AcknowledgementCell \<times> (unit, AcknowledgementError) result" where
  "acknowledge binding cell observation =
     (if so_role observation \<noteq> ab_target binding then (cell, Err WrongTarget)
      else if so_generation observation \<noteq> ab_generation binding
      then (cell, Err AcknowledgementError.StaleGeneration)
      else if so_slot_index observation \<noteq> ab_slot_index binding
      then (cell, Err AcknowledgementError.WrongSlot)
      else if so_sequence observation = 0 then (cell, Err AcknowledgementError.UnpublishedSequence)
      else
        let current = cell_sequence cell in
        if so_sequence observation < current
        then (cell, Err (NonMonotonic current (so_sequence observation)))
        else if so_sequence observation = current then (cell, Ok ())
        else (cell\<lparr>cell_sequence := so_sequence observation\<rparr>, Ok ()))"

definition AcknowledgementReader_observe ::
    "AcknowledgementBinding \<Rightarrow> AcknowledgementCell \<Rightarrow> AcknowledgementObservation" where
  "AcknowledgementReader_observe binding cell =
     \<lparr>ao_owner = ab_owner binding, ao_target = ab_target binding,
      ao_generation = ab_generation binding, ao_slot_index = ab_slot_index binding,
      ao_cell_index = ab_cell_index binding, ao_sequence = cell_sequence cell\<rparr>"

section \<open>What the operations accept\<close>

named_theorems slot "which calls of the slot operations succeed"

lemma validate_bound_generation_Ok [slot]:
  "validate_bound_generation h g = Ok u \<longleftrightarrow> g \<noteq> 0 \<and> meta_generation h = g"
  by (auto simp: validate_bound_generation_def Let_def)

lemma validate_bound_generation_Panic [slot]: "validate_bound_generation h g \<noteq> Panic"
  by (auto simp: validate_bound_generation_def Let_def)

text \<open>A nonzero sequence belongs to the slot that its zero-based position selects in the ring.\<close>

definition sequence_of_slot :: "SlotBinding \<Rightarrow> u64 \<Rightarrow> bool" where
  "sequence_of_slot b sequence \<longleftrightarrow>
     sequence \<noteq> 0 \<and> sb_slot_count b \<noteq> 0 \<and>
     unat (sb_slot_index b) = (unat sequence - 1) mod unat (sb_slot_count b)"

lemma ring_position:
  assumes "(sequence :: u64) \<noteq> 0" "(n :: u32) \<noteq> 0"
  shows "unat (ucast ((sequence - 1) mod ucast n) :: u32) = (unat sequence - 1) mod unat n"
proof -
  have u: "unat (sequence - 1) = unat sequence - 1"
    using assms(1) by (simp add: unat_minus_one)
  have "unat ((sequence - 1) mod ucast n) = (unat sequence - 1) mod unat n"
    by (simp add: unat_mod u unat_u64_from_u32 del: unsigned_ucast_eq)
  moreover have "(unat sequence - 1) mod unat n < 2 ^ 32"
  proof -
    have "(unat sequence - 1) mod unat n < unat n"
      using assms(2) by (simp add: unat_gt_0)
    then show ?thesis using unat_lt_pow [of n] by simp
  qed
  ultimately show ?thesis
    by (simp add: unsigned_ucast_eq take_bit_nat_eq_self)
qed

lemma validate_sequence_slot_Ok [slot]:
  "validate_sequence_slot b sequence = Ok u \<longleftrightarrow> sequence_of_slot b sequence"
proof (cases "sequence = 0 \<or> sb_slot_count b = 0")
  case True
  then show ?thesis by (auto simp: validate_sequence_slot_def sequence_of_slot_def)
next
  case False
  then show ?thesis
    using ring_position [of sequence "sb_slot_count b"]
    by (auto simp: validate_sequence_slot_def sequence_of_slot_def Let_def
        word_unat_eq_iff simp del: unsigned_ucast_eq)
qed

lemma validate_sequence_slot_Panic [slot]:
  "validate_sequence_slot b sequence = Panic \<longleftrightarrow> sequence \<noteq> 0 \<and> sb_slot_count b = 0"
  by (auto simp: validate_sequence_slot_def Let_def)

text \<open>An acknowledgement authorises reuse when it comes from the slot's own route and generation.\<close>

definition exact_acknowledgement :: "SlotBinding \<Rightarrow> u64 \<Rightarrow> AcknowledgementObservation \<Rightarrow> bool" where
  "exact_acknowledgement b current ack \<longleftrightarrow>
     ao_target ack = sb_role b \<and> sb_acknowledgement_owner b = Some (ao_owner ack) \<and>
     ao_slot_index ack = sb_slot_index b \<and>
     sb_acknowledgement_cell_index b = Some (ao_cell_index ack) \<and>
     ao_generation ack = sb_generation b \<and> ao_sequence ack = current"

lemma check_acknowledgement_Ok [slot]:
  "check_acknowledgement b current ack = Ok u \<longleftrightarrow> exact_acknowledgement b current ack"
  by (cases "sb_acknowledgement_owner b"; cases "sb_acknowledgement_cell_index b")
    (auto simp: check_acknowledgement_def exact_acknowledgement_def)

lemma prepare_publish_Ok [slot]:
  "prepare_publish b h sequence ack = Ok res \<longleftrightarrow>
     sb_generation b \<noteq> 0 \<and> meta_generation h = sb_generation b \<and>
     sequence_of_slot b sequence \<and>
     (if meta_published_sequence h = 0 then unat sequence = unat (sb_slot_index b) + 1
      else unat sequence = unat (meta_published_sequence h) + unat (sb_slot_count b) \<and>
        (\<exists>a. ack = Some a \<and> exact_acknowledgement b (meta_published_sequence h) a)) \<and>
     res = \<lparr>res_sequence = sequence, res_capacity = sb_payload_capacity b\<rparr>"
proof -
  have first: "(sequence = ucast v + 1) \<longleftrightarrow> unat sequence = unat v + 1" for v :: u32
    using unat_lt_pow [of v] by (simp add: word_unat_eq_iff unat_word_ariths unat_u64_from_u32)
  have later: "(checked_add c (ucast v) = Some sequence) \<longleftrightarrow> unat sequence = unat c + unat v"
    for c :: u64 and v :: u32
    using unat_lt_pow [of sequence]
    by (auto simp: checked_add_def word_unat_eq_iff unat_word_ariths unat_u64_from_u32)
  show ?thesis
    using first [of "sb_slot_index b"] later [of "meta_published_sequence h" "sb_slot_count b"]
    by (auto simp: prepare_publish_def outcome slot Let_def split: if_splits)
qed

lemma ReaderSlot_observe_Ok [slot]:
  "ReaderSlot_observe b mem e = Ok obs \<longleftrightarrow>
     sequence_of_slot b e \<and> meta_published_sequence (mem 0) = e \<and>
     sb_generation b \<noteq> 0 \<and> meta_generation (mem 1) = sb_generation b \<and>
     meta_payload_len (mem 2) \<le> sb_payload_capacity b \<and>
     obs = \<lparr>so_role = sb_role b, so_slot_index = sb_slot_index b,
       so_generation = sb_generation b, so_sequence = e, so_payload_len = meta_payload_len (mem 2)\<rparr>"
  by (auto simp: ReaderSlot_observe_def outcome slot Let_def split: if_splits)

lemma ReaderSlot_recheck_Ok [slot]:
  "ReaderSlot_recheck b mem obs = Ok u \<longleftrightarrow>
     so_role obs = sb_role b \<and> so_generation obs = sb_generation b \<and>
     meta_published_sequence (mem 0) = so_sequence obs \<and>
     sb_generation b \<noteq> 0 \<and> meta_generation (mem 1) = sb_generation b \<and>
     meta_payload_len (mem 2) = so_payload_len obs"
  by (auto simp: ReaderSlot_recheck_def outcome slot Let_def split: if_splits)

lemma acknowledge_Ok [slot]:
  "acknowledge b cell obs = (cell', Ok u) \<longleftrightarrow>
     so_role obs = ab_target b \<and> so_generation obs = ab_generation b \<and>
     so_slot_index obs = ab_slot_index b \<and> so_sequence obs \<noteq> 0 \<and>
     cell_sequence cell \<le> so_sequence obs \<and> cell' = cell\<lparr>cell_sequence := so_sequence obs\<rparr>"
  by (auto simp: acknowledge_def Let_def)

section \<open>One writer and one reader over a slot\<close>

text \<open>
  The writer observes the acknowledgement cell, reserves, writes payload bytes and publishes with
  two stores; the reader makes the three loads of \<^verbatim>\<open>observe\<close>, copies byte by byte, makes the three
  loads of \<^verbatim>\<open>recheck\<close> and acknowledges.  Every action is one access to shared memory, and the two
  sides interleave arbitrarily.  The reader asks for sequences it has not acknowledged yet.  The two
  logs record what was published and what was delivered.
\<close>

datatype WriterState =
    WIdle
  | WReserved PublishReservation
  | WLengthStored PublishReservation u32

datatype ReaderState =
    RIdle
  | RObserving u64 "SlotMetadata list"
  | RCopying SlotObservation bytes
  | RRechecking SlotObservation bytes "SlotMetadata list"
  | RDone SlotObservation bytes

record SlotSystem =
  sys_header :: SlotMetadata
  sys_cell :: AcknowledgementCell
  sys_payload :: bytes
  sys_writer :: WriterState
  sys_observations :: "AcknowledgementObservation list"
  sys_reader :: ReaderState
  sys_published :: "(u64 \<times> bytes) list"
  sys_received :: "(u64 \<times> bytes) list"

datatype SlotAction =
    WriterObserves
  | WriterReserves u64 "nat option"
  | WriterWrites nat u8
  | WriterStoresLength u32
  | WriterStoresSequence
  | WriterAbandons
  | ReaderStarts u64
  | ReaderLoads
  | ReaderCopies
  | ReaderAcknowledges
  | ReaderAbandons

definition slot_init :: "SlotBinding \<Rightarrow> SlotSystem" where
  "slot_init wb =
     \<lparr>sys_header = SlotMetadata_new (sb_generation wb), sys_cell = AcknowledgementCell_new,
      sys_payload = replicate (unat (sb_payload_capacity wb)) 0, sys_writer = WIdle,
      sys_observations = [], sys_reader = RIdle, sys_published = [], sys_received = []\<rparr>"

fun writer_action ::
    "SlotBinding \<Rightarrow> AcknowledgementBinding \<Rightarrow> SlotAction \<Rightarrow> SlotSystem \<Rightarrow> SlotSystem option" where
  "writer_action wb ab WriterObserves s =
     Some (s\<lparr>sys_observations :=
       AcknowledgementReader_observe ab (sys_cell s) # sys_observations s\<rparr>)"
| "writer_action wb ab (WriterReserves sequence choice) s =
     (case sys_writer s of
        WIdle \<Rightarrow>
          (if case choice of None \<Rightarrow> True | Some i \<Rightarrow> i < length (sys_observations s) then
             (case prepare_publish wb (sys_header s) sequence
                     (map_option ((!) (sys_observations s)) choice) of
                Ok res \<Rightarrow> Some (s\<lparr>sys_writer := WReserved res\<rparr>)
              | _ \<Rightarrow> Some s)
           else None)
      | _ \<Rightarrow> None)"
| "writer_action wb ab (WriterWrites i v) s =
     (case sys_writer s of
        WReserved res \<Rightarrow>
          (if i < length (sys_payload s) then Some (s\<lparr>sys_payload := (sys_payload s)[i := v]\<rparr>)
           else None)
      | _ \<Rightarrow> None)"
| "writer_action wb ab (WriterStoresLength n) s =
     (case sys_writer s of
        WReserved res \<Rightarrow>
          (if n > res_capacity res then Some (s\<lparr>sys_writer := WIdle\<rparr>)
           else Some (s\<lparr>sys_header := store_payload_len (sys_header s) n,
                        sys_writer := WLengthStored res n\<rparr>))
      | _ \<Rightarrow> None)"
| "writer_action wb ab WriterStoresSequence s =
     (case sys_writer s of
        WLengthStored res n \<Rightarrow>
          Some (s\<lparr>sys_header := store_published_sequence (sys_header s) (res_sequence res),
                 sys_writer := WIdle,
                 sys_published := sys_published s @ [(res_sequence res, take (unat n) (sys_payload s))]\<rparr>)
      | _ \<Rightarrow> None)"
| "writer_action wb ab WriterAbandons s =
     (case sys_writer s of WReserved res \<Rightarrow> Some (s\<lparr>sys_writer := WIdle\<rparr>) | _ \<Rightarrow> None)"
| "writer_action wb ab _ s = None"

fun reader_action ::
    "SlotBinding \<Rightarrow> AcknowledgementBinding \<Rightarrow> SlotAction \<Rightarrow> SlotSystem \<Rightarrow> SlotSystem option" where
  "reader_action rb ab (ReaderStarts e) s =
     (case sys_reader s of
        RIdle \<Rightarrow>
          (if cell_sequence (sys_cell s) < e then Some (s\<lparr>sys_reader := RObserving e []\<rparr>) else None)
      | _ \<Rightarrow> None)"
| "reader_action rb ab ReaderLoads s =
     (case sys_reader s of
        RObserving e hs \<Rightarrow>
          (let hs = hs @ [sys_header s] in
           if length hs < 3 then Some (s\<lparr>sys_reader := RObserving e hs\<rparr>)
           else
             (case ReaderSlot_observe rb ((!) hs) e of
                Ok obs \<Rightarrow> Some (s\<lparr>sys_reader := RCopying obs []\<rparr>)
              | _ \<Rightarrow> Some (s\<lparr>sys_reader := RIdle\<rparr>)))
      | RRechecking obs buf hs \<Rightarrow>
          (let hs = hs @ [sys_header s] in
           if length hs < 3 then Some (s\<lparr>sys_reader := RRechecking obs buf hs\<rparr>)
           else
             (case ReaderSlot_recheck rb ((!) hs) obs of
                Ok _ \<Rightarrow> Some (s\<lparr>sys_reader := RDone obs buf\<rparr>)
              | _ \<Rightarrow> Some (s\<lparr>sys_reader := RIdle\<rparr>)))
      | _ \<Rightarrow> None)"
| "reader_action rb ab ReaderCopies s =
     (case sys_reader s of
        RCopying obs buf \<Rightarrow>
          (if length buf < unat (so_payload_len obs)
           then Some (s\<lparr>sys_reader := RCopying obs (buf @ [sys_payload s ! length buf])\<rparr>)
           else Some (s\<lparr>sys_reader := RRechecking obs buf []\<rparr>))
      | _ \<Rightarrow> None)"
| "reader_action rb ab ReaderAcknowledges s =
     (case sys_reader s of
        RDone obs buf \<Rightarrow>
          (case acknowledge ab (sys_cell s) obs of
             (cell, Ok _) \<Rightarrow>
               Some (s\<lparr>sys_cell := cell, sys_reader := RIdle,
                      sys_received := sys_received s @ [(so_sequence obs, buf)]\<rparr>)
           | (cell, _) \<Rightarrow> Some (s\<lparr>sys_cell := cell, sys_reader := RIdle\<rparr>))
      | _ \<Rightarrow> None)"
| "reader_action rb ab ReaderAbandons s = Some (s\<lparr>sys_reader := RIdle\<rparr>)"
| "reader_action rb ab _ s = None"

definition slot_exec ::
    "SlotBinding \<Rightarrow> SlotBinding \<Rightarrow> AcknowledgementBinding \<Rightarrow> SlotAction \<Rightarrow> SlotSystem \<Rightarrow>
     SlotSystem option" where
  "slot_exec wb rb ab a s =
     (case writer_action wb ab a s of Some t \<Rightarrow> Some t | None \<Rightarrow> reader_action rb ab a s)"

inductive slot_reachable ::
    "SlotBinding \<Rightarrow> SlotBinding \<Rightarrow> AcknowledgementBinding \<Rightarrow> SlotSystem \<Rightarrow> bool"
  for wb rb ab where
  init: "slot_reachable wb rb ab (slot_init wb)"
| step: "slot_reachable wb rb ab s \<Longrightarrow> slot_exec wb rb ab a s = Some t \<Longrightarrow> slot_reachable wb rb ab t"

primrec slot_run ::
    "SlotBinding \<Rightarrow> SlotBinding \<Rightarrow> AcknowledgementBinding \<Rightarrow> SlotAction list \<Rightarrow> SlotSystem \<Rightarrow>
     SlotSystem option" where
  "slot_run wb rb ab [] s = Some s"
| "slot_run wb rb ab (a # as) s = Option.bind (slot_exec wb rb ab a s) (slot_run wb rb ab as)"

lemma slot_run_reachable:
  "slot_reachable wb rb ab s \<Longrightarrow> slot_run wb rb ab as s = Some t \<Longrightarrow> slot_reachable wb rb ab t"
  by (induction as arbitrary: s) (auto simp: bind_eq_Some_conv intro: slot_reachable.step)

subsection \<open>Invariant\<close>

text \<open>The two ends of one route: bindings that agree on the slot and on the acknowledgement cell.\<close>

definition slot_endpoints :: "SlotBinding \<Rightarrow> SlotBinding \<Rightarrow> AcknowledgementBinding \<Rightarrow> bool" where
  "slot_endpoints wb rb ab \<longleftrightarrow>
     sb_role rb = sb_role wb \<and> sb_generation rb = sb_generation wb \<and>
     sb_payload_capacity rb = sb_payload_capacity wb \<and>
     sb_slot_index rb = sb_slot_index wb \<and> sb_slot_count rb = sb_slot_count wb \<and>
     sb_acknowledgement_owner wb = Some (ab_owner ab) \<and>
     sb_acknowledgement_cell_index wb = Some (ab_cell_index ab) \<and>
     ab_target ab = sb_role wb \<and> ab_slot_index ab = sb_slot_index wb \<and>
     ab_generation ab = sb_generation wb"

definition sequence_at :: "SlotBinding \<Rightarrow> nat \<Rightarrow> nat" where
  "sequence_at b k = unat (sb_slot_index b) + 1 + k * unat (sb_slot_count b)"

abbreviation acknowledged :: "SlotSystem \<Rightarrow> u64" where
  "acknowledged s \<equiv> cell_sequence (sys_cell s)"

abbreviation current :: "SlotSystem \<Rightarrow> u64" where
  "current s \<equiv> meta_published_sequence (sys_header s)"

definition log_ok :: "SlotBinding \<Rightarrow> SlotSystem \<Rightarrow> bool" where
  "log_ok wb s \<longleftrightarrow>
     map (unat \<circ> fst) (sys_published s) = map (sequence_at wb) [0..<length (sys_published s)] \<and>
     (if sys_published s = [] then current s = 0
      else current s = fst (last (sys_published s)) \<and> fst (last (sys_published s)) \<noteq> 0)"

definition delivery_ok :: "SlotSystem \<Rightarrow> bool" where
  "delivery_ok s \<longleftrightarrow>
     (if acknowledged s = current s then sys_received s = sys_published s
      else acknowledged s < current s \<and> sys_writer s = WIdle \<and> sys_published s \<noteq> [] \<and>
        sys_received s = butlast (sys_published s)) \<and>
     (\<forall>ack \<in> set (sys_observations s). ao_sequence ack \<le> acknowledged s)"

definition reserved_ok :: "SlotBinding \<Rightarrow> SlotSystem \<Rightarrow> PublishReservation \<Rightarrow> bool" where
  "reserved_ok wb s res \<longleftrightarrow>
     acknowledged s = current s \<and> current s < res_sequence res \<and>
     unat (res_sequence res) = sequence_at wb (length (sys_published s)) \<and>
     res_capacity res = sb_payload_capacity wb"

definition writer_ok :: "SlotBinding \<Rightarrow> SlotSystem \<Rightarrow> bool" where
  "writer_ok wb s \<longleftrightarrow>
     meta_generation (sys_header s) = sb_generation wb \<and>
     length (sys_payload s) = unat (sb_payload_capacity wb) \<and>
     (case sys_writer s of
        WIdle \<Rightarrow>
          sys_published s \<noteq> [] \<and> acknowledged s \<noteq> current s \<longrightarrow>
            snd (last (sys_published s)) =
              take (unat (meta_payload_len (sys_header s))) (sys_payload s) \<and>
            meta_payload_len (sys_header s) \<le> sb_payload_capacity wb
      | WReserved res \<Rightarrow> reserved_ok wb s res
      | WLengthStored res n \<Rightarrow>
          reserved_ok wb s res \<and> n \<le> sb_payload_capacity wb \<and> meta_payload_len (sys_header s) = n)"

definition fresh :: "SlotSystem \<Rightarrow> SlotObservation \<Rightarrow> bool" where
  "fresh s obs \<longleftrightarrow>
     acknowledged s < current s \<and> so_sequence obs = current s \<and>
     so_payload_len obs = meta_payload_len (sys_header s)"

definition reader_ok :: "SlotSystem \<Rightarrow> bool" where
  "reader_ok s \<longleftrightarrow>
     (case sys_reader s of
        RIdle \<Rightarrow> True
      | RObserving e hs \<Rightarrow>
          acknowledged s < e \<and> length hs < 3 \<and>
          (hs \<noteq> [] \<and> meta_published_sequence (hs ! 0) = e \<longrightarrow> set hs \<subseteq> {sys_header s})
      | RCopying obs buf \<Rightarrow>
          fresh s obs \<and> length buf \<le> unat (so_payload_len obs) \<and>
          buf = take (length buf) (sys_payload s)
      | RRechecking obs buf hs \<Rightarrow>
          fresh s obs \<and> buf = take (unat (so_payload_len obs)) (sys_payload s)
      | RDone obs buf \<Rightarrow> fresh s obs \<and> buf = take (unat (so_payload_len obs)) (sys_payload s))"

definition slot_inv :: "SlotBinding \<Rightarrow> SlotSystem \<Rightarrow> bool" where
  "slot_inv wb s \<longleftrightarrow> log_ok wb s \<and> delivery_ok s \<and> writer_ok wb s \<and> reader_ok s"

lemmas slot_inv_defs =
  slot_inv_def log_ok_def delivery_ok_def writer_ok_def reader_ok_def reserved_ok_def fresh_def

lemma slot_inv_init: "slot_inv wb (slot_init wb)"
  by (simp add: slot_inv_defs slot_init_def SlotMetadata_new_def AcknowledgementCell_new_def)

text \<open>A reservation is for the next sequence of the slot, and everything published is delivered.\<close>

lemma sequence_of_slot_nonzero:
  "sequence_of_slot b sequence \<Longrightarrow> sequence \<noteq> 0 \<and> sb_slot_count b \<noteq> 0"
  by (simp add: sequence_of_slot_def)

lemma reserve_preserves:
  assumes inv: "slot_inv wb s" and w: "sys_writer s = WIdle"
    and ack: "\<And>a. ack = Some a \<Longrightarrow> ao_sequence a \<le> acknowledged s"
    and p: "prepare_publish wb (sys_header s) sequence ack = Ok res"
  shows "reserved_ok wb s res"
proof -
  let ?n = "length (sys_published s)"
  have le: "acknowledged s \<le> current s"
    using inv by (cases "acknowledged s = current s") (simp_all add: slot_inv_def delivery_ok_def less_imp_le)
  show ?thesis
  proof (cases "sys_published s = []")
    case True
    then have "current s = 0" using inv by (simp add: slot_inv_def log_ok_def)
    moreover from this have "acknowledged s = 0" using le by simp
    ultimately show ?thesis
      using p True sequence_of_slot_nonzero [of wb sequence]
      by (simp add: prepare_publish_Ok reserved_ok_def sequence_at_def word_gt_0)
  next
    case False
    then have c: "current s = fst (last (sys_published s))" "current s \<noteq> 0"
      using inv by (auto simp: slot_inv_def log_ok_def)
    have "map (unat \<circ> fst) (sys_published s) ! (?n - 1) = map (sequence_at wb) [0..<?n] ! (?n - 1)"
      using inv by (simp add: slot_inv_def log_ok_def)
    then have "unat (current s) = sequence_at wb (?n - 1)"
      using False c by (simp add: last_conv_nth)
    then have next_seq: "unat (current s) + unat (sb_slot_count wb) = sequence_at wb ?n"
      using False by (cases ?n) (simp_all add: sequence_at_def)
    from p c obtain a where a: "ack = Some a" "ao_sequence a = current s"
      "unat sequence = unat (current s) + unat (sb_slot_count wb)" "sb_slot_count wb \<noteq> 0"
      "res = \<lparr>res_sequence = sequence, res_capacity = sb_payload_capacity wb\<rparr>"
      using sequence_of_slot_nonzero [of wb sequence]
      by (auto simp: prepare_publish_Ok exact_acknowledgement_def)
    have "acknowledged s = current s" using ack [OF a(1)] a(2) le by simp
    moreover have "current s < sequence"
      using a(3,4) by (simp add: word_less_nat_alt unat_gt_0)
    ultimately show ?thesis using a next_seq by (simp add: reserved_ok_def)
  qed
qed

text \<open>While the writer holds a reservation the reader has nothing in hand.\<close>

definition reader_quiet :: "SlotSystem \<Rightarrow> bool" where
  "reader_quiet s \<longleftrightarrow>
     (case sys_reader s of
        RIdle \<Rightarrow> True
      | RObserving e hs \<Rightarrow>
          acknowledged s < e \<and> length hs < 3 \<and>
          \<not> (hs \<noteq> [] \<and> meta_published_sequence (hs ! 0) = e)
      | _ \<Rightarrow> False)"

lemma reserved_reader_quiet:
  assumes "reserved_ok wb s res" "reader_ok s"
  shows "reader_quiet s"
proof (cases "sys_reader s")
  case (RObserving e hs)
  have "hs ! 0 = sys_header s" if "hs \<noteq> []" "meta_published_sequence (hs ! 0) = e"
  proof -
    from that(1) have "hs ! 0 \<in> set hs" by simp
    moreover have "set hs \<subseteq> {sys_header s}"
      using that assms(2) RObserving by (simp add: reader_ok_def)
    ultimately show ?thesis by blast
  qed
  then show ?thesis
    using RObserving assms by (auto simp: reserved_ok_def reader_ok_def reader_quiet_def)
qed (use assms in \<open>auto simp: reserved_ok_def reader_ok_def reader_quiet_def fresh_def\<close>)

lemma reader_quiet_ok:
  "reader_quiet s \<Longrightarrow> sys_reader t = sys_reader s \<Longrightarrow> sys_cell t = sys_cell s \<Longrightarrow> reader_ok t"
  by (auto simp: reader_quiet_def reader_ok_def split: ReaderState.splits)

lemma reserved_of_writer:
  assumes "slot_inv wb s" "sys_writer s = WReserved res \<or> sys_writer s = WLengthStored res n"
  shows "reserved_ok wb s res" "reader_quiet s"
proof -
  show "reserved_ok wb s res"
    using assms by (auto simp: slot_inv_def writer_ok_def)
  then show "reader_quiet s"
    using assms reserved_reader_quiet by (auto simp: slot_inv_def)
qed

lemma log_ok_cong:
  "sys_published t = sys_published s \<Longrightarrow> current t = current s \<Longrightarrow> log_ok wb t = log_ok wb s"
  by (simp add: log_ok_def)

lemma writer_ok_cong:
  "sys_payload t = sys_payload s \<Longrightarrow> sys_writer t = sys_writer s \<Longrightarrow>
   sys_published t = sys_published s \<Longrightarrow> sys_cell t = sys_cell s \<Longrightarrow>
   sys_header t = sys_header s \<Longrightarrow> writer_ok wb t = writer_ok wb s"
  by (simp add: writer_ok_def reserved_ok_def split: WriterState.splits)

lemma reader_ok_cong:
  "sys_payload t = sys_payload s \<Longrightarrow> sys_reader t = sys_reader s \<Longrightarrow> sys_cell t = sys_cell s \<Longrightarrow>
   sys_header t = sys_header s \<Longrightarrow> reader_ok t = reader_ok s"
  by (simp add: reader_ok_def fresh_def split: ReaderState.splits)

lemma reserved_ok_cong:
  "sys_published t = sys_published s \<Longrightarrow> sys_cell t = sys_cell s \<Longrightarrow> current t = current s \<Longrightarrow>
   reserved_ok wb t res = reserved_ok wb s res"
  by (simp add: reserved_ok_def)

text \<open>The writer steps that keep the sequence: everything but the payload and the length is framed.\<close>

lemma writer_holds_preserves:
  assumes inv: "slot_inv wb s" and r: "reserved_ok wb s res"
    and t: "sys_cell t = sys_cell s" "sys_reader t = sys_reader s" "current t = current s"
      "sys_observations t = sys_observations s" "sys_received t = sys_received s"
      "sys_published t = sys_published s"
    and w: "writer_ok wb t"
  shows "slot_inv wb t"
proof -
  have "reader_ok t"
    using reserved_reader_quiet [OF r] inv t(1,2) by (auto simp: slot_inv_def intro: reader_quiet_ok)
  moreover have "log_ok wb t"
    using inv log_ok_cong [OF t(6,3)] by (simp add: slot_inv_def)
  moreover have "delivery_ok t"
    using inv r t by (simp add: slot_inv_def delivery_ok_def reserved_ok_def)
  ultimately show ?thesis using w by (simp add: slot_inv_def)
qed

lemma publish_preserves:
  assumes inv: "slot_inv wb s" and w: "sys_writer s = WLengthStored res n"
    and t: "t = s\<lparr>sys_header := store_published_sequence (sys_header s) (res_sequence res),
                 sys_writer := WIdle,
                 sys_published := sys_published s @ [(res_sequence res, take (unat n) (sys_payload s))]\<rparr>"
  shows "slot_inv wb t"
proof -
  have r: "reserved_ok wb s res" and q: "reader_quiet s"
    using reserved_of_writer [OF inv disjI2, OF w] by simp_all
  have "log_ok wb t"
    using inv r t
    by (auto simp: slot_inv_def log_ok_def reserved_ok_def store_published_sequence_def)
  moreover have "writer_ok wb t"
    using inv w t by (simp add: slot_inv_def writer_ok_def store_published_sequence_def)
  moreover have "delivery_ok t"
    using inv r t by (auto simp: slot_inv_def delivery_ok_def reserved_ok_def store_published_sequence_def)
  moreover have "reader_ok t"
    by (rule reader_quiet_ok [OF q]) (simp_all add: t)
  ultimately show ?thesis by (simp add: slot_inv_def)
qed

lemma writer_action_preserves:
  assumes inv: "slot_inv wb s" and t: "writer_action wb ab a s = Some t"
  shows "slot_inv wb t"
proof (cases a)
  case WriterObserves
  then have t': "t = s\<lparr>sys_observations :=
      AcknowledgementReader_observe ab (sys_cell s) # sys_observations s\<rparr>" using t by simp
  have "log_ok wb t" "writer_ok wb t" "reader_ok t"
    using inv log_ok_cong [of t s wb] writer_ok_cong [of t s wb] reader_ok_cong [of t s] t'
    by (simp_all add: slot_inv_def)
  moreover have "delivery_ok t"
    using inv t' by (simp add: slot_inv_def delivery_ok_def AcknowledgementReader_observe_def)
  ultimately show ?thesis by (simp add: slot_inv_def)
next
  case (WriterReserves sequence choice)
  let ?ack = "map_option ((!) (sys_observations s)) choice"
  have w: "sys_writer s = WIdle"
    using t WriterReserves by (auto split: WriterState.splits)
  have le: "ao_sequence x \<le> acknowledged s" if "?ack = Some x" for x
    using that t WriterReserves w inv
    by (auto simp: slot_inv_def delivery_ok_def split: if_splits option.splits)
  show ?thesis
  proof (cases "prepare_publish wb (sys_header s) sequence ?ack")
    case (Ok res)
    then have r: "reserved_ok wb s res"
      using reserve_preserves [OF inv w _ Ok] le by blast
    have t': "t = s\<lparr>sys_writer := WReserved res\<rparr>"
      using t WriterReserves w Ok by (auto split: if_splits)
    have "reserved_ok wb t res"
      using r t' reserved_ok_cong [of t s wb res] by simp
    then have "writer_ok wb t"
      using inv t' by (simp add: slot_inv_def writer_ok_def)
    then show ?thesis
      using writer_holds_preserves [OF inv r] t' by simp
  next
    case (Err x)
    then show ?thesis using t WriterReserves w inv by (auto split: if_splits)
  next
    case Panic
    then show ?thesis using t WriterReserves w inv by (auto split: if_splits)
  qed
next
  case (WriterWrites i v)
  then obtain res where w: "sys_writer s = WReserved res"
    and t': "t = s\<lparr>sys_payload := (sys_payload s)[i := v]\<rparr>"
    using t by (auto split: WriterState.splits if_splits)
  note r = reserved_of_writer(1) [OF inv disjI1, OF w]
  have "writer_ok wb t"
    using inv w t' r reserved_ok_cong [of t s wb res] by (simp add: slot_inv_def writer_ok_def)
  then show ?thesis
    using writer_holds_preserves [OF inv r] t' by simp
next
  case (WriterStoresLength n)
  then obtain res where w: "sys_writer s = WReserved res"
    using t by (auto split: WriterState.splits if_splits)
  note r = reserved_of_writer(1) [OF inv disjI1, OF w]
  show ?thesis
  proof (cases "n > res_capacity res")
    case True
    then have t': "t = s\<lparr>sys_writer := WIdle\<rparr>" using t w WriterStoresLength by simp
    then have "writer_ok wb t" using inv r by (simp add: slot_inv_def writer_ok_def reserved_ok_def)
    then show ?thesis
      using writer_holds_preserves [OF inv r] t' by simp
  next
    case False
    then have t': "t = s\<lparr>sys_header := store_payload_len (sys_header s) n,
        sys_writer := WLengthStored res n\<rparr>" using t w WriterStoresLength by simp
    then have "writer_ok wb t"
      using inv r False
      by (simp add: slot_inv_def writer_ok_def reserved_ok_def store_payload_len_def)
    then show ?thesis
      using writer_holds_preserves [OF inv r] t' by (simp add: store_payload_len_def)
  qed
next
  case WriterStoresSequence
  then show ?thesis
    using publish_preserves [OF inv] t by (auto split: WriterState.splits)
next
  case WriterAbandons
  then obtain res where w: "sys_writer s = WReserved res" and t': "t = s\<lparr>sys_writer := WIdle\<rparr>"
    using t by (auto split: WriterState.splits)
  note r = reserved_of_writer(1) [OF inv disjI1, OF w]
  have "writer_ok wb t" using inv r t' by (simp add: slot_inv_def writer_ok_def reserved_ok_def)
  then show ?thesis
    using writer_holds_preserves [OF inv r] t' by simp
qed (use t in auto)

text \<open>
  Reader actions change only the reader and the cell.  A successful observation is of the sequence
  that is current now, and nothing has been overwritten since its first load.
\<close>

lemma reader_frame:
  assumes "slot_inv wb s" "t = s\<lparr>sys_reader := r\<rparr>" "reader_ok t"
  shows "slot_inv wb t"
  using assms log_ok_cong [of t s wb] writer_ok_cong [of t s wb]
  by (simp add: slot_inv_def delivery_ok_def)

lemma observe_fresh:
  assumes inv: "slot_inv wb s" and r: "sys_reader s = RObserving e hs"
    and o3: "length (hs @ [sys_header s]) = 3"
    and ok: "ReaderSlot_observe rb ((!) (hs @ [sys_header s])) e = Ok obs"
  shows "fresh s obs"
proof -
  have hs: "hs \<noteq> []" "length hs = 2" using o3 by auto
  have e: "meta_published_sequence (hs ! 0) = e"
    using ok hs by (simp add: ReaderSlot_observe_Ok nth_append)
  have i: "acknowledged s < e" "set hs \<subseteq> {sys_header s}"
    using inv r e hs by (simp_all add: slot_inv_def reader_ok_def)
  have "hs ! 0 \<in> set hs" using hs by simp
  then have "current s = e" using i e by auto
  then show ?thesis
    using ok hs i(1) by (simp add: ReaderSlot_observe_Ok fresh_def nth_append)
qed

lemma fresh_payload:
  assumes "slot_inv wb s" "fresh s obs"
  shows "sys_published s \<noteq> []" "last (sys_published s) =
      (so_sequence obs, take (unat (so_payload_len obs)) (sys_payload s))"
    "unat (so_payload_len obs) \<le> length (sys_payload s)"
    "sys_received s = butlast (sys_published s)"
proof -
  have d: "acknowledged s \<noteq> current s" using assms(2) by (auto simp: fresh_def)
  then have dl: "sys_writer s = WIdle" "sys_published s \<noteq> []"
    "sys_received s = butlast (sys_published s)"
    using assms(1) by (simp_all add: slot_inv_def delivery_ok_def)
  have "snd (last (sys_published s)) = take (unat (so_payload_len obs)) (sys_payload s)"
    "unat (so_payload_len obs) \<le> length (sys_payload s)"
    using assms d dl by (simp_all add: slot_inv_def writer_ok_def fresh_def word_le_nat_alt)
  moreover have "fst (last (sys_published s)) = so_sequence obs"
    using assms dl by (simp add: slot_inv_def log_ok_def fresh_def)
  ultimately show "sys_published s \<noteq> []" "last (sys_published s) =
      (so_sequence obs, take (unat (so_payload_len obs)) (sys_payload s))"
    "unat (so_payload_len obs) \<le> length (sys_payload s)"
    "sys_received s = butlast (sys_published s)"
    using dl by (simp_all add: prod_eq_iff)
qed

lemma acknowledge_preserves:
  assumes inv: "slot_inv wb s" and r: "sys_reader s = RDone obs buf"
    and a: "acknowledge ab (sys_cell s) obs = (cell, Ok u)"
    and t: "t = s\<lparr>sys_cell := cell, sys_reader := RIdle,
      sys_received := sys_received s @ [(so_sequence obs, buf)]\<rparr>"
  shows "slot_inv wb t"
proof -
  have f: "fresh s obs" and b: "buf = take (unat (so_payload_len obs)) (sys_payload s)"
    using inv r by (simp_all add: slot_inv_def reader_ok_def)
  note p = fresh_payload [OF inv f]
  have w: "sys_writer s = WIdle"
    using inv f by (auto simp: slot_inv_def delivery_ok_def fresh_def)
  have c: "cell_sequence cell = current s" and le: "acknowledged s \<le> current s"
    using a f by (auto simp: acknowledge_Ok fresh_def)
  have "sys_received t = sys_published t"
    using p(1,2,4) b t by (simp add: append_butlast_last_id flip: p(2))
  then have "delivery_ok t"
    using inv t c le by (auto simp: slot_inv_def delivery_ok_def)
  moreover have "log_ok wb t" "writer_ok wb t" "reader_ok t"
    using inv t w c by (simp_all add: slot_inv_def log_ok_def writer_ok_def reader_ok_def)
  ultimately show ?thesis by (simp add: slot_inv_def)
qed

lemma copy_preserves:
  assumes inv: "slot_inv wb s" and r: "sys_reader s = RCopying obs buf"
    and l: "length buf < unat (so_payload_len obs)"
  shows "slot_inv wb (s\<lparr>sys_reader := RCopying obs (buf @ [sys_payload s ! length buf])\<rparr>)"
proof (rule reader_frame [OF inv refl])
  have f: "fresh s obs" and b: "buf = take (length buf) (sys_payload s)"
    using inv r by (simp_all add: slot_inv_def reader_ok_def)
  have "length buf < length (sys_payload s)"
    using fresh_payload(3) [OF inv f] l by simp
  then have "take (Suc (length buf)) (sys_payload s) = buf @ [sys_payload s ! length buf]"
    using b by (simp add: take_Suc_conv_app_nth)
  then show "reader_ok (s\<lparr>sys_reader := RCopying obs (buf @ [sys_payload s ! length buf])\<rparr>)"
    using f l by (simp add: reader_ok_def fresh_def)
qed

lemma load_preserves:
  assumes inv: "slot_inv wb s" and t: "reader_action rb ab ReaderLoads s = Some t"
  shows "slot_inv wb t"
proof -
  have idle: "slot_inv wb (s\<lparr>sys_reader := RIdle\<rparr>)"
    by (rule reader_frame [OF inv refl]) (simp add: reader_ok_def)
  show ?thesis
  proof (cases "sys_reader s")
    case (RObserving e hs)
    let ?hs = "hs @ [sys_header s]"
    have inv_r: "acknowledged s < e" "length hs < 3"
      "hs \<noteq> [] \<Longrightarrow> meta_published_sequence (hs ! 0) = e \<Longrightarrow> set hs \<subseteq> {sys_header s}"
      using inv RObserving by (auto simp: slot_inv_def reader_ok_def)
    show ?thesis
    proof (cases "length ?hs < 3")
      case True
      have "reader_ok (s\<lparr>sys_reader := RObserving e ?hs\<rparr>)"
        using inv_r True by (cases hs) (auto simp: reader_ok_def nth_append)
      from reader_frame [OF inv refl this] show ?thesis
        using t RObserving True by (simp add: Let_def)
    next
      case False
      then have 3: "length ?hs = 3" using inv_r(2) by simp
      have "slot_inv wb (s\<lparr>sys_reader := RCopying obs []\<rparr>)"
        if "ReaderSlot_observe rb ((!) ?hs) e = Ok obs" for obs
        using observe_fresh [OF inv RObserving 3 that]
        by (intro reader_frame [OF inv refl]) (simp add: reader_ok_def fresh_def)
      then show ?thesis
        using t RObserving False idle by (auto simp: Let_def split: result.splits)
    qed
  next
    case (RRechecking obs buf hs)
    have "slot_inv wb (s\<lparr>sys_reader := RRechecking obs buf hs'\<rparr>)"
      "slot_inv wb (s\<lparr>sys_reader := RDone obs buf\<rparr>)" for hs'
      by (rule reader_frame [OF inv refl],
          use inv RRechecking in \<open>simp add: slot_inv_def reader_ok_def fresh_def\<close>)+
    then show ?thesis
      using t RRechecking idle by (auto simp: Let_def split: result.splits if_splits)
  qed (use t in auto)
qed

lemma reader_action_preserves:
  assumes inv: "slot_inv wb s" and t: "reader_action rb ab a s = Some t"
  shows "slot_inv wb t"
proof -
  have idle: "slot_inv wb (s\<lparr>sys_reader := RIdle\<rparr>)"
    by (rule reader_frame [OF inv refl]) (simp add: reader_ok_def)
  show ?thesis
  proof (cases a)
    case (ReaderStarts e)
    have "slot_inv wb (s\<lparr>sys_reader := RObserving e []\<rparr>)" if "acknowledged s < e"
      by (rule reader_frame [OF inv refl]) (simp add: reader_ok_def that)
    then show ?thesis
      using t ReaderStarts by (auto split: ReaderState.splits if_splits)
  next
    case ReaderLoads
    then show ?thesis using load_preserves [OF inv] t by simp
  next
    case ReaderCopies
    then obtain obs buf where r: "sys_reader s = RCopying obs buf"
      using t by (auto split: ReaderState.splits)
    have "slot_inv wb (s\<lparr>sys_reader := RRechecking obs buf []\<rparr>)"
      if "\<not> length buf < unat (so_payload_len obs)"
      by (rule reader_frame [OF inv refl])
        (use inv r that in \<open>auto simp: slot_inv_def reader_ok_def fresh_def\<close>)
    then show ?thesis
      using t ReaderCopies r copy_preserves [OF inv r] by (auto split: if_splits)
  next
    case ReaderAcknowledges
    then obtain obs buf where r: "sys_reader s = RDone obs buf"
      using t by (auto split: ReaderState.splits)
    obtain cell res where c: "acknowledge ab (sys_cell s) obs = (cell, res)" by force
    have same: "res \<noteq> Ok () \<Longrightarrow> s\<lparr>sys_cell := cell, sys_reader := RIdle\<rparr> = s\<lparr>sys_reader := RIdle\<rparr>"
      using c by (auto simp: acknowledge_def Let_def split: if_splits)
    show ?thesis
    proof (cases res)
      case (Ok u)
      with c r t ReaderAcknowledges show ?thesis
        using acknowledge_preserves [OF inv r, of ab cell u] by simp
    qed (use c r t ReaderAcknowledges same idle in auto)
  next
    case ReaderAbandons
    then show ?thesis using t idle by simp
  qed (use t in auto)
qed

lemma slot_reachable_inv: "slot_reachable wb rb ab s \<Longrightarrow> slot_inv wb s"
proof (induction rule: slot_reachable.induct)
  case init
  show ?case by (rule slot_inv_init)
next
  case (step s a t)
  show ?case
  proof (cases "writer_action wb ab a s")
    case None
    with step.hyps(2) have "reader_action rb ab a s = Some t" by (simp add: slot_exec_def)
    then show ?thesis by (rule reader_action_preserves [OF step.IH])
  next
    case (Some u)
    with step.hyps(2) have "writer_action wb ab a s = Some t" by (simp add: slot_exec_def)
    then show ?thesis by (rule writer_action_preserves [OF step.IH])
  qed
qed

lemma published_sequence_at:
  assumes "slot_inv wb s" "sys_published s \<noteq> []"
  shows "unat (current s) = sequence_at wb (length (sys_published s) - 1)"
proof -
  let ?n = "length (sys_published s)"
  have "map (unat \<circ> fst) (sys_published s) ! (?n - 1) = map (sequence_at wb) [0..<?n] ! (?n - 1)"
    using assms(1) by (simp add: slot_inv_def log_ok_def)
  then show ?thesis
    using assms by (simp add: slot_inv_def log_ok_def last_conv_nth)
qed

lemma sequence_at_of_slot:
  assumes "sb_slot_index b < sb_slot_count b" "unat sequence = sequence_at b k"
  shows "sequence_of_slot b sequence"
proof -
  have "sb_slot_count b \<noteq> 0" using assms(1) by auto
  moreover have "sequence \<noteq> 0" using assms(2) by (auto simp: sequence_at_def)
  moreover have "unat (sb_slot_index b) = (unat sequence - 1) mod unat (sb_slot_count b)"
    using assms by (simp add: sequence_at_def word_less_nat_alt)
  ultimately show ?thesis by (simp add: sequence_of_slot_def)
qed

section \<open>Properties\<close>

text \<open>The bindings of a slot of capacity 2 in a ring of 3, for the witnesses.\<close>

definition example_route :: AcknowledgementRoute where
  "example_route = \<lparr>rt_owner = RoleId 2, rt_target = RoleId 1, rt_slot_index = 1, rt_cell_index = 0\<rparr>"

definition example_writer :: SlotBinding where
  "example_writer = WriterSlotBinding_validated (RoleId 1) 9 2 1 3 (RoleId 2) 0"

definition example_reader :: SlotBinding where
  "example_reader = ReaderSlotBinding_validated (RoleId 1) 9 2 1 3"

definition example_ack :: AcknowledgementBinding where
  "example_ack = AcknowledgementBinding_validated example_route 9"

lemmas example_defs =
  example_route_def example_writer_def example_reader_def example_ack_def
  WriterSlotBinding_validated_def ReaderSlotBinding_validated_def AcknowledgementBinding_validated_def

lemmas slot_eval =
  slot_init_def SlotMetadata_new_def AcknowledgementCell_new_def prepare_publish_def
  validate_bound_generation_def validate_sequence_slot_def check_acknowledgement_def
  store_payload_len_def store_published_sequence_def ReaderSlot_observe_def ReaderSlot_recheck_def
  acknowledge_def AcknowledgementReader_observe_def checked_add_def

text \<open>A run that delivers one message and reserves the slot again.\<close>

definition example_run :: "SlotAction list" where
  "example_run =
     [WriterReserves 2 None, WriterWrites 0 7, WriterStoresLength 1, ReaderStarts 2, ReaderLoads,
      WriterStoresSequence, ReaderLoads, ReaderLoads, ReaderStarts 2, ReaderLoads, ReaderLoads,
      ReaderLoads, ReaderCopies, ReaderCopies, ReaderLoads, ReaderLoads, ReaderLoads,
      ReaderAcknowledges, WriterObserves, WriterReserves 5 (Some 0)]"

lemma example_run_ends:
  "map_option (\<lambda>s. (sys_received s, sys_published s, sys_writer s))
     (slot_run example_writer example_reader example_ack example_run (slot_init example_writer)) =
   Some ([(2, [7])], [(2, [7])], WReserved \<lparr>res_sequence = 5, res_capacity = 2\<rparr>)"
proof -
  have "replicate 2 (0 :: u8) = [0, 0]" by (simp add: numeral_2_eq_2)
  then show ?thesis by (simp add: example_run_def example_defs slot_eval slot_exec_def)
qed

lemma example_reachable:
  "\<exists>s. slot_reachable example_writer example_reader example_ack s \<and>
     sys_received s = [(2, [7])] \<and> sys_published s = [(2, [7])] \<and>
     sys_writer s = WReserved \<lparr>res_sequence = 5, res_capacity = 2\<rparr>"
proof -
  obtain s where s: "slot_run example_writer example_reader example_ack example_run
      (slot_init example_writer) = Some s"
    "sys_received s = [(2, [7])]" "sys_published s = [(2, [7])]"
    "sys_writer s = WReserved \<lparr>res_sequence = 5, res_capacity = 2\<rparr>"
    using example_run_ends by auto
  then show ?thesis using slot_run_reachable [OF slot_reachable.init s(1)] by blast
qed



text \<open>C5: no overwrite before the exact acknowledgement.  While the reader holds an observation that
  it is copying, rechecking or about to acknowledge, the writer has no reservation, the observed
  sequence is still the current one, and what has been copied is a prefix of the payload published
  under it.\<close>

theorem slot_no_overwrite:
  assumes "slot_reachable wb rb ab s"
    and "sys_reader s = RCopying obs buf \<or> sys_reader s = RRechecking obs buf hs \<or>
      sys_reader s = RDone obs buf"
  shows "sys_writer s = WIdle \<and> so_sequence obs = meta_published_sequence (sys_header s) \<and>
    sys_published s \<noteq> [] \<and> fst (last (sys_published s)) = so_sequence obs \<and>
    (\<exists>rest. snd (last (sys_published s)) = buf @ rest)"
proof -
  note inv = slot_reachable_inv [OF assms(1)]
  have f: "fresh s obs" and b: "buf = take (length buf) (sys_payload s)"
    "length buf \<le> unat (so_payload_len obs)"
    using inv assms(2) by (auto simp: slot_inv_def reader_ok_def min_def)
  have "take (unat (so_payload_len obs)) (sys_payload s) =
      buf @ take (unat (so_payload_len obs) - length buf) (drop (length buf) (sys_payload s))"
    using b take_add [of "length buf" "unat (so_payload_len obs) - length buf" "sys_payload s"] by simp
  then show ?thesis
    using fresh_payload [OF inv f] f inv by (auto simp: slot_inv_def delivery_ok_def fresh_def)
qed

theorem slot_no_overwrite_witness:
  "\<exists>s obs. slot_reachable example_writer example_reader example_ack s \<and>
     sys_reader s = RCopying obs [7] \<and>
     sys_writer s = WIdle \<and> so_sequence obs = meta_published_sequence (sys_header s) \<and>
     sys_published s \<noteq> [] \<and> fst (last (sys_published s)) = so_sequence obs \<and>
     (\<exists>rest. snd (last (sys_published s)) = [7] @ rest)"
proof -
  let ?as = "[WriterReserves 2 None, WriterWrites 0 7, WriterStoresLength 1, WriterStoresSequence,
    ReaderStarts 2, ReaderLoads, ReaderLoads, ReaderLoads, ReaderCopies]"
  let ?obs = "\<lparr>so_role = RoleId 1, so_slot_index = 1, so_generation = 9, so_sequence = 2,
    so_payload_len = 1\<rparr>"
  have "map_option sys_reader
      (slot_run example_writer example_reader example_ack ?as (slot_init example_writer)) =
      Some (RCopying ?obs [7])"
    by (simp add: example_defs slot_eval slot_exec_def)
  then obtain s where s: "slot_run example_writer example_reader example_ack ?as
      (slot_init example_writer) = Some s" and r: "sys_reader s = RCopying ?obs [7]" by auto
  have p: "slot_reachable example_writer example_reader example_ack s"
    by (rule slot_run_reachable [OF slot_reachable.init s])
  from slot_no_overwrite [OF p disjI1, OF r] p r show ?thesis by blast
qed

lemma acknowledged_slot_reservable:
  assumes inv: "slot_inv wb s" and "slot_endpoints wb rb ab"
    and "sb_generation wb \<noteq> 0" "sb_slot_index wb < sb_slot_count wb"
    and idle: "acknowledged s = current s" and w: "unat w = sequence_at wb (length (sys_published s))"
  shows "prepare_publish wb (sys_header s) w (Some (AcknowledgementReader_observe ab (sys_cell s))) =
    Ok \<lparr>res_sequence = w, res_capacity = sb_payload_capacity wb\<rparr>"
proof -
  have g: "meta_generation (sys_header s) = sb_generation wb"
    using inv by (simp add: slot_inv_def writer_ok_def)
  show ?thesis
  proof (cases "sys_published s = []")
    case True
    then have "current s = 0" using inv by (simp add: slot_inv_def log_ok_def)
    then show ?thesis
      using True g w assms(3) sequence_at_of_slot [OF assms(4) w]
      by (simp add: prepare_publish_Ok sequence_at_def)
  next
    case False
    have "unat w = unat (current s) + unat (sb_slot_count wb)"
      using w published_sequence_at [OF inv False] False
      by (cases "length (sys_published s)") (simp_all add: sequence_at_def)
    moreover have "exact_acknowledgement wb (current s)
        (AcknowledgementReader_observe ab (sys_cell s))"
      using assms(2) idle
      by (simp add: exact_acknowledgement_def AcknowledgementReader_observe_def slot_endpoints_def)
    moreover have "current s \<noteq> 0"
      using inv False by (auto simp: slot_inv_def log_ok_def)
    ultimately show ?thesis
      using g assms(3) sequence_at_of_slot [OF assms(4) w] by (simp add: prepare_publish_Ok)
  qed
qed

text \<open>the slot does not get stuck.  With both ends bound to one route and the writer idle, when
  everything published is acknowledged the next sequence of the slot can be reserved with a fresh
  observation of the cell, unless it does not fit in 64 bits; otherwise the reader's observation of
  the current sequence succeeds.\<close>

theorem slot_progress:
  assumes "slot_reachable wb rb ab s" "slot_endpoints wb rb ab"
    and "sb_generation wb \<noteq> 0" "sb_slot_index wb < sb_slot_count wb" "sys_writer s = WIdle"
  shows "if cell_sequence (sys_cell s) = meta_published_sequence (sys_header s)
    then sequence_at wb (length (sys_published s)) < 2 ^ 64 \<longrightarrow>
      prepare_publish wb (sys_header s) (word_of_nat (sequence_at wb (length (sys_published s))))
        (Some (AcknowledgementReader_observe ab (sys_cell s))) =
      Ok \<lparr>res_sequence = word_of_nat (sequence_at wb (length (sys_published s))),
          res_capacity = sb_payload_capacity wb\<rparr>
    else is_ok (ReaderSlot_observe rb (\<lambda>_. sys_header s) (meta_published_sequence (sys_header s)))"
proof -
  note inv = slot_reachable_inv [OF assms(1)]
  have g: "meta_generation (sys_header s) = sb_generation wb"
    using inv by (simp add: slot_inv_def writer_ok_def)
  show ?thesis
  proof (cases "acknowledged s = current s")
    case True
    then show ?thesis
      using acknowledged_slot_reservable [OF inv assms(2-4)] by simp
  next
    case False
    then have d: "sys_published s \<noteq> []"
      "meta_payload_len (sys_header s) \<le> sb_payload_capacity wb"
      using inv assms(5) by (auto simp: slot_inv_def delivery_ok_def writer_ok_def)
    have "sequence_of_slot rb (current s)"
      using assms(2) sequence_at_of_slot [OF assms(4) published_sequence_at [OF inv d(1)]]
      by (simp add: sequence_of_slot_def slot_endpoints_def)
    then show ?thesis
      using False d(2) g assms(2,3)
      by (simp add: is_ok_iff ReaderSlot_observe_Ok slot_endpoints_def)
  qed
qed

theorem slot_progress_witness:
  "prepare_publish example_writer (SlotMetadata_new 9) 2
     (Some (AcknowledgementReader_observe example_ack AcknowledgementCell_new)) =
   Ok \<lparr>res_sequence = 2, res_capacity = 2\<rparr>"
  using slot_progress [OF slot_reachable.init, of example_writer example_reader example_ack]
  by (simp add: slot_endpoints_def example_defs slot_init_def sequence_at_def SlotMetadata_new_def
      AcknowledgementCell_new_def)

text \<open>a reservation is granted exactly for the next sequence of this slot, under the bound nonzero
  generation, and for reuse exactly with an acknowledgement of the current publication that comes
  from the slot's own route, owner, cell and generation; every other call is refused before any
  store.\<close>

theorem prepare_publish_exact:
  "prepare_publish b h sequence ack = Ok res \<longleftrightarrow>
     sb_generation b \<noteq> 0 \<and> meta_generation h = sb_generation b \<and>
     sequence \<noteq> 0 \<and> sb_slot_count b \<noteq> 0 \<and>
     unat (sb_slot_index b) = (unat sequence - 1) mod unat (sb_slot_count b) \<and>
     (if meta_published_sequence h = 0 then unat sequence = unat (sb_slot_index b) + 1
      else unat sequence = unat (meta_published_sequence h) + unat (sb_slot_count b) \<and>
        (\<exists>a. ack = Some a \<and> ao_target a = sb_role b \<and>
           sb_acknowledgement_owner b = Some (ao_owner a) \<and> ao_slot_index a = sb_slot_index b \<and>
           sb_acknowledgement_cell_index b = Some (ao_cell_index a) \<and>
           ao_generation a = sb_generation b \<and> ao_sequence a = meta_published_sequence h)) \<and>
     res = \<lparr>res_sequence = sequence, res_capacity = sb_payload_capacity b\<rparr>"
  unfolding prepare_publish_Ok sequence_of_slot_def exact_acknowledgement_def by blast

text \<open>whatever a hostile writer puts into the metadata between the loads, an accepted observation
  has the bound identity, the requested sequence of this slot and a length within the validated
  capacity, and an accepted recheck saw the observed sequence and length under the bound
  generation.\<close>

theorem hostile_observation_bounded:
  "(ReaderSlot_observe b mem e = Ok obs \<longrightarrow>
      so_role obs = sb_role b \<and> so_slot_index obs = sb_slot_index b \<and>
      so_generation obs = sb_generation b \<and> sb_generation b \<noteq> 0 \<and> so_sequence obs = e \<and> e \<noteq> 0 \<and>
      unat (sb_slot_index b) = (unat e - 1) mod unat (sb_slot_count b) \<and>
      so_payload_len obs \<le> sb_payload_capacity b) \<and>
   (ReaderSlot_recheck b mem' obs = Ok () \<longrightarrow>
      so_role obs = sb_role b \<and> so_generation obs = sb_generation b \<and>
      meta_published_sequence (mem' 0) = so_sequence obs \<and>
      meta_generation (mem' 1) = so_generation obs \<and>
      meta_payload_len (mem' 2) = so_payload_len obs)"
  by (auto simp: ReaderSlot_observe_Ok ReaderSlot_recheck_Ok sequence_of_slot_def)

theorem hostile_observation_bounded_witness:
  "let header = SlotMetadata_new 9;
       mem = (\<lambda>i :: nat. if i = 0 then header\<lparr>meta_published_sequence := 2, meta_payload_len := 99\<rparr>
         else header\<lparr>meta_payload_len := 2\<rparr>);
       obs = \<lparr>so_role = RoleId 1, so_slot_index = 1, so_generation = 9, so_sequence = 2,
         so_payload_len = 2\<rparr>
   in ReaderSlot_observe example_reader mem 2 = Ok obs \<and>
      ReaderSlot_recheck example_reader mem obs = Ok () \<and>
      so_payload_len obs \<le> sb_payload_capacity example_reader \<and>
      meta_payload_len (mem 2) = so_payload_len obs"
proof -
  let ?h = "SlotMetadata_new 9"
  let ?mem = "\<lambda>i :: nat. if i = 0 then ?h\<lparr>meta_published_sequence := 2, meta_payload_len := 99\<rparr>
    else ?h\<lparr>meta_payload_len := 2\<rparr>"
  let ?obs = "\<lparr>so_role = RoleId 1, so_slot_index = 1, so_generation = 9, so_sequence = 2,
    so_payload_len = 2\<rparr>"
  have "ReaderSlot_observe example_reader ?mem 2 = Ok ?obs"
    "ReaderSlot_recheck example_reader ?mem ?obs = Ok ()"
    by (simp_all add: slot_eval example_defs)
  with hostile_observation_bounded [of example_reader ?mem 2 ?obs ?mem] show ?thesis
    unfolding Let_def by blast
qed

end
