(* ===== verification/Layout.thy ===== *)
theory Layout
  imports Codec Slot "HOL-Library.Product_Lexorder"
begin

text \<open>
  Region layouts, \<^verbatim>\<open>native-ipc-core/src/layout.rs\<close>: the arithmetic of a region, the 128-byte header,
  the composition of regions with their acknowledgement routes, and the validation of a quiescent
  mapping.  \<open>alloc n\<close> says whether the allocator grants room for \<open>n\<close> elements
  (\<^verbatim>\<open>try_reserve_exact\<close>).  The binary search of the standard library is modelled with its loop.
\<close>

section \<open>Data\<close>

definition CACHE_LINE :: u64 where "CACHE_LINE = 64"
definition REGION_MAGIC :: bytes where
  "REGION_MAGIC = [0x4e, 0x49, 0x50, 0x43, 0x52, 0x45, 0x47, 0x00]"
definition REGION_HEADER_SIZE :: u64 where "REGION_HEADER_SIZE = 128"

type_synonym Range = "usize \<times> usize"

definition range_len :: "Range \<Rightarrow> usize" where
  "range_len r = snd r - fst r"

datatype Endpoint = Initiator | Responder

primrec endpoint_raw :: "Endpoint \<Rightarrow> u32" where
  "endpoint_raw Initiator = 1"
| "endpoint_raw Responder = 2"

definition Endpoint_from_raw :: "u32 \<Rightarrow> Endpoint option" where
  "Endpoint_from_raw raw =
     (if raw = 1 then Some Initiator else if raw = 2 then Some Responder else None)"

record RegionSpec =
  spec_role :: RoleId
  spec_writer :: Endpoint
  spec_slot_count :: u32
  spec_payload_bytes :: u32
  spec_acknowledgement_count :: u32

record AcknowledgementRouteSpec =
  rs_owner :: RoleId
  rs_target :: RoleId
  rs_slot_index :: u32
  rs_cell_index :: u32

definition AcknowledgementRoute_validated ::
    "RoleId \<Rightarrow> RoleId \<Rightarrow> u32 \<Rightarrow> u32 \<Rightarrow> AcknowledgementRoute" where
  "AcknowledgementRoute_validated owner target slot_index cell_index =
     \<lparr>rt_owner = owner, rt_target = target, rt_slot_index = slot_index, rt_cell_index = cell_index\<rparr>"

record LayoutLimits =
  maximum_mapping_size :: u64
  maximum_slot_count :: u32
  maximum_acknowledgement_count :: u32
  maximum_payload_bytes :: u32

record RegionHeader =
  hdr_total_size :: u64
  hdr_schema_id :: bytes
  hdr_generation :: u64
  hdr_role :: u32
  hdr_writer :: u32
  hdr_acknowledgement_offset :: u64
  hdr_acknowledgement_count :: u32
  hdr_acknowledgement_stride :: u32
  hdr_slots_offset :: u64
  hdr_slot_count :: u32
  hdr_slot_stride :: u32
  hdr_payload_capacity :: u32

record RegionLayout =
  rl_header :: RegionHeader

record RegionSetLayout =
  set_regions :: "RegionLayout list"
  set_routes :: "AcknowledgementRoute list"
  set_route_lookup :: "usize list"

record ValidationExpectations =
  exp_schema_id :: bytes
  exp_generation :: u64
  exp_role :: RoleId
  exp_writer :: Endpoint
  exp_maximum_mapping_size :: u64

record ValidatedRegionLayout =
  vl_header :: RegionHeader
  vl_acknowledgements :: Range
  vl_slots :: Range
  vl_mapping_size :: usize
  vl_routes :: "AcknowledgementRoute list"

datatype LayoutError =
    Overflow
  | AllocationFailed
  | ZeroGeneration
  | EmptyRegionSet
  | DuplicateRole RoleId
  | LimitExceeded
  | EmptySlots
  | MappingTooSmall u64 u64
  | BadMagic
  | BadVersion u16 u16
  | BadHeaderSize u32
  | SchemaMismatch
  | StaleGeneration u64 u64
  | UnexpectedRole RoleId u32
  | UnexpectedWriter
  | ReservedFieldSet
  | BadTotalSize
  | BadAcknowledgementLayout
  | AcknowledgementNotZero
  | BadSlotLayout
  | SlotMetadataNotInitialized
  | BadSlotStride
  | RangeOutOfBounds
  | SlotOutOfBounds u32 u32
  | AcknowledgementOutOfBounds u32 u32
  | PayloadOutOfBounds u32 u32
  | CapabilityPaddingNotZero
  | InvalidAcknowledgementRoute
  | DuplicateAcknowledgementRoute
  | IncompleteAcknowledgementRoutes
  | RouteRegionMismatch
  | TopologyMismatch

section \<open>Arithmetic\<close>

definition align_up :: "u64 \<Rightarrow> u64 \<Rightarrow> (u64, LayoutError) result" where
  "align_up v alignment =
     ok_or LayoutError.Overflow
       (map_option (\<lambda>sum. sum AND NOT (alignment - 1)) (checked_add v (alignment - 1)))"

definition checked_range :: "u64 \<Rightarrow> u64 \<Rightarrow> u64 \<Rightarrow> usize \<Rightarrow> (Range, LayoutError) result" where
  "checked_range start end total_size mapped_len =
     (if start > end \<or> end > total_size \<or> unat end > mapped_len \<or> unat end > usize_max
      then Err RangeOutOfBounds
      else Ok (unat start, unat end))"

definition validate_counts :: "RegionSpec \<Rightarrow> LayoutLimits \<Rightarrow> (unit, LayoutError) result" where
  "validate_counts spec limits =
     (if spec_slot_count spec = 0 \<or> spec_payload_bytes spec = 0 then Err EmptySlots
      else if spec_slot_count spec > maximum_slot_count limits \<or>
        spec_payload_bytes spec > maximum_payload_bytes limits \<or>
        spec_acknowledgement_count spec > maximum_acknowledgement_count limits
      then Err LayoutError.LimitExceeded
      else Ok ())"

definition RegionLayout_calculate ::
    "bytes \<Rightarrow> u64 \<Rightarrow> RegionSpec \<Rightarrow> LayoutLimits \<Rightarrow> (RegionLayout, LayoutError) result" where
  "RegionLayout_calculate schema_id generation spec limits =
     rbind (validate_counts spec limits) (\<lambda>_.
     let acknowledgement_offset = REGION_HEADER_SIZE in
     rbind (ok_or LayoutError.Overflow
       (checked_mul (ucast (spec_acknowledgement_count spec)) ACKNOWLEDGEMENT_CELL_SIZE))
       (\<lambda>acknowledgement_len.
     rbind (ok_or LayoutError.Overflow (checked_add acknowledgement_offset acknowledgement_len))
       (\<lambda>acknowledgement_end.
     rbind (align_up acknowledgement_end CACHE_LINE) (\<lambda>slots_offset.
     rbind (ok_or LayoutError.Overflow
       (checked_add SLOT_HEADER_SIZE (ucast (spec_payload_bytes spec)))) (\<lambda>slot_len.
     rbind (align_up slot_len CACHE_LINE) (\<lambda>slot_stride.
     rbind (ok_or LayoutError.Overflow (checked_mul slot_stride (ucast (spec_slot_count spec))))
       (\<lambda>slots_len.
     rbind (ok_or LayoutError.Overflow (checked_add slots_offset slots_len)) (\<lambda>total_size.
     if slot_stride > ucast (- 1 :: u32) \<or> total_size > maximum_mapping_size limits \<or>
       unat total_size > usize_max
     then Err LayoutError.LimitExceeded
     else
       Ok \<lparr>rl_header =
         \<lparr>hdr_total_size = total_size, hdr_schema_id = schema_id, hdr_generation = generation,
          hdr_role = role_get (spec_role spec), hdr_writer = endpoint_raw (spec_writer spec),
          hdr_acknowledgement_offset = acknowledgement_offset,
          hdr_acknowledgement_count = spec_acknowledgement_count spec,
          hdr_acknowledgement_stride = ucast ACKNOWLEDGEMENT_CELL_SIZE,
          hdr_slots_offset = slots_offset, hdr_slot_count = spec_slot_count spec,
          hdr_slot_stride = ucast slot_stride,
          hdr_payload_capacity = spec_payload_bytes spec\<rparr>\<rparr>))))))))"

definition RegionLayout_role :: "RegionLayout \<Rightarrow> RoleId" where
  "RegionLayout_role region = RoleId (hdr_role (rl_header region))"

definition RegionLayout_writer :: "RegionLayout \<Rightarrow> (Endpoint, LayoutError) result" where
  "RegionLayout_writer region = expect (Endpoint_from_raw (hdr_writer (rl_header region)))"

section \<open>Routes\<close>

definition validate_route ::
    "RegionLayout list \<Rightarrow> AcknowledgementRouteSpec \<Rightarrow> AcknowledgementRoute list \<Rightarrow>
     (AcknowledgementRoute list, LayoutError) result" where
  "validate_route regions spec routes =
     rbind (ok_or InvalidAcknowledgementRoute
       (List.find (\<lambda>region. RegionLayout_role region = rs_owner spec) regions)) (\<lambda>owner.
     rbind (ok_or InvalidAcknowledgementRoute
       (List.find (\<lambda>region. RegionLayout_role region = rs_target spec) regions)) (\<lambda>target.
     if RegionLayout_role owner = RegionLayout_role target then Err InvalidAcknowledgementRoute
     else
       rbind (RegionLayout_writer owner) (\<lambda>owner_writer.
       rbind (RegionLayout_writer target) (\<lambda>target_writer.
       if owner_writer = target_writer \<or>
         rs_slot_index spec \<ge> hdr_slot_count (rl_header target) \<or>
         rs_cell_index spec \<ge> hdr_acknowledgement_count (rl_header owner)
       then Err InvalidAcknowledgementRoute
       else if list_ex (\<lambda>route.
           (rt_target route = rs_target spec \<and> rt_slot_index route = rs_slot_index spec) \<or>
           (rt_owner route = rs_owner spec \<and> rt_cell_index route = rs_cell_index spec)) routes
       then Err DuplicateAcknowledgementRoute
       else
         Ok (routes @ [AcknowledgementRoute_validated (rs_owner spec) (rs_target spec)
           (rs_slot_index spec) (rs_cell_index spec)])))))"

definition validate_routes ::
    "(usize \<Rightarrow> bool) \<Rightarrow> RegionLayout list \<Rightarrow> AcknowledgementRouteSpec list \<Rightarrow>
     (AcknowledgementRoute list, LayoutError) result" where
  "validate_routes alloc regions specs =
     rbind (for_each (\<lambda>region sum. ok_or LayoutError.Overflow
       (checked_add_usize sum (unat (hdr_slot_count (rl_header region))))) regions 0)
       (\<lambda>total_slots.
     rbind (for_each (\<lambda>region sum. ok_or LayoutError.Overflow
       (checked_add_usize sum (unat (hdr_acknowledgement_count (rl_header region))))) regions 0)
       (\<lambda>total_cells.
     if length specs \<noteq> total_slots \<or> length specs \<noteq> total_cells
     then Err IncompleteAcknowledgementRoutes
     else if \<not> alloc (length specs) then Err AllocationFailed
     else for_each (validate_route regions) specs []))"

type_synonym RouteKey = "u32 \<times> u32"

definition route_key :: "AcknowledgementRoute \<Rightarrow> RouteKey" where
  "route_key route = (role_get (rt_target route), rt_slot_index route)"

definition build_route_lookup ::
    "(usize \<Rightarrow> bool) \<Rightarrow> AcknowledgementRoute list \<Rightarrow> (usize list, LayoutError) result" where
  "build_route_lookup alloc routes =
     (if \<not> alloc (length routes) then Err AllocationFailed
      else Ok (sort_key (\<lambda>index. route_key (routes ! index)) [0..<length routes]))"

section \<open>Region sets\<close>

text \<open>The regions of a set, in order; \<open>prior\<close> are the specifications already visited.\<close>

fun calculate_regions ::
    "bytes \<Rightarrow> u64 \<Rightarrow> LayoutLimits \<Rightarrow> RegionSpec list \<Rightarrow> RegionSpec list \<Rightarrow>
     (RegionLayout list, LayoutError) result" where
  "calculate_regions schema_id generation limits prior [] = Ok []"
| "calculate_regions schema_id generation limits prior (spec # specs) =
     (if list_ex (\<lambda>p. spec_role p = spec_role spec) prior
      then Err (DuplicateRole (spec_role spec))
      else
        rbind (RegionLayout_calculate schema_id generation spec limits) (\<lambda>region.
        rbind (calculate_regions schema_id generation limits (prior @ [spec]) specs) (\<lambda>regions.
          Ok (region # regions))))"

definition RegionSetLayout_calculate ::
    "(usize \<Rightarrow> bool) \<Rightarrow> bytes \<Rightarrow> u64 \<Rightarrow> RegionSpec list \<Rightarrow> AcknowledgementRouteSpec list \<Rightarrow>
     LayoutLimits \<Rightarrow> (RegionSetLayout, LayoutError) result" where
  "RegionSetLayout_calculate alloc schema_id generation specs route_specs limits =
     (if generation = 0 then Err LayoutError.ZeroGeneration
      else if specs = [] then Err EmptyRegionSet
      else if \<not> alloc (length specs) then Err AllocationFailed
      else
        rbind (calculate_regions schema_id generation limits [] specs) (\<lambda>regions.
        rbind (validate_routes alloc regions route_specs) (\<lambda>routes.
        rbind (build_route_lookup alloc routes) (\<lambda>route_lookup.
          Ok \<lparr>set_regions = regions, set_routes = routes, set_route_lookup = route_lookup\<rparr>))))"

definition RegionSetLayout_region :: "RegionSetLayout \<Rightarrow> RoleId \<Rightarrow> RegionLayout option" where
  "RegionSetLayout_region topology role =
     List.find (\<lambda>region. RegionLayout_role region = role) (set_regions topology)"

text \<open>The loop of \<^verbatim>\<open>binary_search_by\<close>: \<open>base\<close> is the last position not above the key.\<close>

function binary_search_loop ::
    "(usize \<Rightarrow> ('k::linorder, 'e) result) \<Rightarrow> 'k \<Rightarrow> usize \<Rightarrow> usize \<Rightarrow> (usize, 'e) result" where
  "binary_search_loop key_at key base len =
     (if len \<le> 1 then Ok base
      else
        let half = len div 2; mid = base + half in
        rbind (key_at mid) (\<lambda>k.
          binary_search_loop key_at key (if k > key then base else mid) (len - half)))"
  by pat_completeness auto
termination
  by (relation "measure (\<lambda>(_, _, _, len). len)") auto

declare binary_search_loop.simps [simp del]

definition binary_search_by_key ::
    "(usize \<Rightarrow> ('k::linorder, 'e) result) \<Rightarrow> usize \<Rightarrow> 'k \<Rightarrow> (usize option, 'e) result" where
  "binary_search_by_key key_at len key =
     (if len = 0 then Ok None
      else
        rbind (binary_search_loop key_at key 0 len) (\<lambda>base.
        rbind (key_at base) (\<lambda>k. Ok (if k = key then Some base else None))))"

definition route_at :: "RegionSetLayout \<Rightarrow> usize \<Rightarrow> (AcknowledgementRoute, LayoutError) result" where
  "route_at topology position =
     (if position < length (set_route_lookup topology)
      then
        let index = set_route_lookup topology ! position in
        if index < length (set_routes topology) then Ok (set_routes topology ! index) else Panic
      else Panic)"

definition acknowledgement_route ::
    "RegionSetLayout \<Rightarrow> RoleId \<Rightarrow> u32 \<Rightarrow> (AcknowledgementRoute option, LayoutError) result" where
  "acknowledgement_route topology target slot_index =
     (let key = (role_get target, slot_index) in
      rbind (binary_search_by_key (\<lambda>position. rbind (route_at topology position) (\<lambda>r. Ok (route_key r)))
          (length (set_route_lookup topology)) key) (\<lambda>found.
        case found of
          None \<Rightarrow> Ok None
        | Some position \<Rightarrow> rbind (route_at topology position) (\<lambda>route. Ok (Some route))))"

section \<open>Headers\<close>

definition encode_header :: "RegionHeader \<Rightarrow> bytes \<Rightarrow> (bytes, LayoutError) result" where
  "encode_header header b =
     rbind (copy_from_slice b 0 8 REGION_MAGIC) (\<lambda>b.
     rbind (put_u16 b 8 VERSION_MAJOR) (\<lambda>b.
     rbind (put_u16 b 10 VERSION_MINOR) (\<lambda>b.
     rbind (put_u32 b 12 (ucast REGION_HEADER_SIZE)) (\<lambda>b.
     rbind (put_u64 b 16 (hdr_total_size header)) (\<lambda>b.
     rbind (copy_from_slice b 24 56 (hdr_schema_id header)) (\<lambda>b.
     rbind (put_u64 b 56 (hdr_generation header)) (\<lambda>b.
     rbind (put_u32 b 64 (hdr_role header)) (\<lambda>b.
     rbind (put_u32 b 68 (hdr_writer header)) (\<lambda>b.
     rbind (put_u64 b 72 (hdr_acknowledgement_offset header)) (\<lambda>b.
     rbind (put_u32 b 80 (hdr_acknowledgement_count header)) (\<lambda>b.
     rbind (put_u32 b 84 (hdr_acknowledgement_stride header)) (\<lambda>b.
     rbind (put_u64 b 88 (hdr_slots_offset header)) (\<lambda>b.
     rbind (put_u32 b 96 (hdr_slot_count header)) (\<lambda>b.
     rbind (put_u32 b 100 (hdr_slot_stride header)) (\<lambda>b.
     rbind (put_u32 b 104 (hdr_payload_capacity header)) (\<lambda>b.
     rbind (put_u32 b 108 0) (\<lambda>b.
       fill b 112 128 0)))))))))))))))))"

definition decode_header :: "bytes \<Rightarrow> (RegionHeader, LayoutError) result" where
  "decode_header b =
     rbind (slice b 24 56) (\<lambda>schema_id.
     rbind (get_u64 b 16) (\<lambda>total_size.
     rbind (get_u64 b 56) (\<lambda>generation.
     rbind (get_u32 b 64) (\<lambda>role.
     rbind (get_u32 b 68) (\<lambda>writer.
     rbind (get_u64 b 72) (\<lambda>acknowledgement_offset.
     rbind (get_u32 b 80) (\<lambda>acknowledgement_count.
     rbind (get_u32 b 84) (\<lambda>acknowledgement_stride.
     rbind (get_u64 b 88) (\<lambda>slots_offset.
     rbind (get_u32 b 96) (\<lambda>slot_count.
     rbind (get_u32 b 100) (\<lambda>slot_stride.
     rbind (get_u32 b 104) (\<lambda>payload_capacity.
       Ok \<lparr>hdr_total_size = total_size, hdr_schema_id = schema_id, hdr_generation = generation,
           hdr_role = role, hdr_writer = writer,
           hdr_acknowledgement_offset = acknowledgement_offset,
           hdr_acknowledgement_count = acknowledgement_count,
           hdr_acknowledgement_stride = acknowledgement_stride,
           hdr_slots_offset = slots_offset, hdr_slot_count = slot_count,
           hdr_slot_stride = slot_stride, hdr_payload_capacity = payload_capacity\<rparr>))))))))))))"

definition validate_header_encoding :: "bytes \<Rightarrow> (unit, LayoutError) result" where
  "validate_header_encoding b =
     rbind (slice b 0 8) (\<lambda>magic.
     if magic \<noteq> REGION_MAGIC then Err LayoutError.BadMagic
     else
       rbind (get_u16 b 8) (\<lambda>major.
       rbind (get_u16 b 10) (\<lambda>minor.
       if major \<noteq> VERSION_MAJOR \<or> minor \<noteq> VERSION_MINOR then Err (LayoutError.BadVersion major minor)
       else
         rbind (get_u32 b 12) (\<lambda>header_size.
         if header_size \<noteq> ucast REGION_HEADER_SIZE then Err (BadHeaderSize header_size)
         else
           rbind (get_u32 b 108) (\<lambda>flags.
           if flags \<noteq> 0 then Err ReservedFieldSet
           else
             rbind (slice b 112 128) (\<lambda>reserved.
             if list_ex (\<lambda>byte. byte \<noteq> 0) reserved then Err ReservedFieldSet else Ok ()))))))"

definition validate_header ::
    "RegionHeader \<Rightarrow> usize \<Rightarrow> ValidationExpectations \<Rightarrow> (unit, LayoutError) result" where
  "validate_header header mapped_len expected =
     (if hdr_schema_id header \<noteq> exp_schema_id expected then Err LayoutError.SchemaMismatch
      else if hdr_generation header \<noteq> exp_generation expected
      then Err (LayoutError.StaleGeneration (exp_generation expected) (hdr_generation header))
      else if hdr_role header \<noteq> role_get (exp_role expected)
      then Err (UnexpectedRole (exp_role expected) (hdr_role header))
      else if Endpoint_from_raw (hdr_writer header) \<noteq> Some (exp_writer expected)
      then Err UnexpectedWriter
      else if mapped_len > unat (exp_maximum_mapping_size expected) \<or>
        unat (hdr_total_size header) > mapped_len \<or>
        hdr_total_size header > exp_maximum_mapping_size expected \<or>
        unat (hdr_total_size header) > usize_max
      then Err BadTotalSize
      else if hdr_acknowledgement_offset header \<noteq> REGION_HEADER_SIZE \<or>
        hdr_acknowledgement_stride header \<noteq> ucast ACKNOWLEDGEMENT_CELL_SIZE
      then Err BadAcknowledgementLayout
      else
        rbind (ok_or LayoutError.Overflow
          (checked_mul (ucast (hdr_acknowledgement_count header))
             (ucast (hdr_acknowledgement_stride header)))) (\<lambda>acknowledgement_len.
        rbind (ok_or LayoutError.Overflow
          (checked_add (hdr_acknowledgement_offset header) acknowledgement_len))
          (\<lambda>acknowledgement_end.
        rbind (align_up acknowledgement_end CACHE_LINE) (\<lambda>expected_slots_offset.
        if hdr_slots_offset header \<noteq> expected_slots_offset \<or>
          hdr_slots_offset header mod CACHE_LINE \<noteq> 0
        then Err BadSlotLayout
        else if hdr_slot_count header = 0 \<or> hdr_payload_capacity header = 0 then Err EmptySlots
        else Ok ()))))"

section \<open>Initialisation and validation of a mapping\<close>

text \<open>An error leaves the destination as it was.\<close>

definition encode_into :: "RegionLayout \<Rightarrow> bytes \<Rightarrow> (bytes, LayoutError) result" where
  "encode_into region destination =
     (let header = rl_header region in
      rbind (ok_or LayoutError.Overflow (usize_from_u64 (hdr_total_size header))) (\<lambda>total_size.
      if length destination < total_size
      then Err (MappingTooSmall (hdr_total_size header) (word_of_nat (length destination)))
      else
        rbind (fill destination 0 total_size 0) (\<lambda>destination.
        rbind (slice destination 0 (unat REGION_HEADER_SIZE)) (\<lambda>prefix.
        rbind (encode_header header prefix) (\<lambda>prefix.
        let destination = write_at destination 0 prefix in
        for_each (\<lambda>slot destination.
          rbind (mul_usize slot (unat (hdr_slot_stride header))) (\<lambda>offset.
          rbind (add_usize (unat (hdr_slots_offset header)) offset) (\<lambda>start.
            put_u64 destination start (hdr_generation header))))
          [0..<unat (hdr_slot_count header)] destination)))))"

definition validate_slot ::
    "bytes \<Rightarrow> RegionHeader \<Rightarrow> Range \<Rightarrow> usize \<Rightarrow> (unit, LayoutError) result" where
  "validate_slot b header slots slot =
     rbind (mul_usize slot (unat (hdr_slot_stride header))) (\<lambda>offset.
     rbind (add_usize (fst slots) offset) (\<lambda>start.
     rbind (get_u64 b start) (\<lambda>generation.
     if generation \<noteq> hdr_generation header then Err SlotMetadataNotInitialized
     else
       rbind (slice b (start + 8) (start + unat SLOT_HEADER_SIZE)) (\<lambda>rest.
       if list_ex (\<lambda>byte. byte \<noteq> 0) rest then Err SlotMetadataNotInitialized else Ok ()))))"

definition validate_contents ::
    "bytes \<Rightarrow> RegionHeader \<Rightarrow> RegionSetLayout \<Rightarrow> (ValidatedRegionLayout, LayoutError) result"
where
  "validate_contents b header topology =
     rbind (ok_or LayoutError.Overflow
       (checked_mul (ucast (hdr_acknowledgement_count header))
          (ucast (hdr_acknowledgement_stride header)))) (\<lambda>acknowledgement_len.
     rbind (ok_or LayoutError.Overflow
       (checked_add (hdr_acknowledgement_offset header) acknowledgement_len))
       (\<lambda>acknowledgements_end.
     rbind (checked_range (hdr_acknowledgement_offset header) acknowledgements_end
       (hdr_total_size header) (length b)) (\<lambda>acknowledgements.
     rbind (slice b (fst acknowledgements) (snd acknowledgements)) (\<lambda>cells.
     if list_ex (\<lambda>byte. byte \<noteq> 0) cells then Err AcknowledgementNotZero
     else
       rbind (slice b (unat (hdr_total_size header)) (length b)) (\<lambda>padding.
       if list_ex (\<lambda>byte. byte \<noteq> 0) padding then Err CapabilityPaddingNotZero
       else
         rbind (ok_or LayoutError.Overflow
           (checked_add SLOT_HEADER_SIZE (ucast (hdr_payload_capacity header)))) (\<lambda>slot_len.
         rbind (align_up slot_len CACHE_LINE) (\<lambda>minimum_stride.
         if ucast (hdr_slot_stride header) \<noteq> minimum_stride then Err BadSlotStride
         else
           rbind (ok_or LayoutError.Overflow
             (checked_mul (ucast (hdr_slot_stride header)) (ucast (hdr_slot_count header))))
             (\<lambda>slots_len.
           rbind (ok_or LayoutError.Overflow
             (checked_add (hdr_slots_offset header) slots_len)) (\<lambda>slots_end.
           if slots_end \<noteq> hdr_total_size header then Err BadTotalSize
           else
             rbind (checked_range (hdr_slots_offset header) slots_end
               (hdr_total_size header) (length b)) (\<lambda>slots.
             rbind (for_each (\<lambda>slot _. validate_slot b header slots slot)
               [0..<unat (hdr_slot_count header)] ()) (\<lambda>_.
               Ok \<lparr>vl_header = header, vl_acknowledgements = acknowledgements,
                   vl_slots = slots, vl_mapping_size = length b,
                   vl_routes = set_routes topology\<rparr>)))))))))))"

definition validate ::
    "bytes \<Rightarrow> ValidationExpectations \<Rightarrow> RegionSetLayout \<Rightarrow> (ValidatedRegionLayout, LayoutError) result"
where
  "validate b expected topology =
     (if exp_generation expected = 0 then Err LayoutError.ZeroGeneration
      else if length b < unat REGION_HEADER_SIZE
      then Err (MappingTooSmall REGION_HEADER_SIZE (word_of_nat (length b)))
      else
        rbind (slice b 0 (unat REGION_HEADER_SIZE)) (\<lambda>prefix.
        rbind (validate_header_encoding prefix) (\<lambda>_.
        rbind (decode_header prefix) (\<lambda>header.
        rbind (validate_header header (length b) expected) (\<lambda>_.
        if map_option rl_header (RegionSetLayout_region topology (exp_role expected)) \<noteq> Some header
        then Err TopologyMismatch
        else validate_contents b header topology)))))"

section \<open>Validated regions\<close>

definition ValidatedRegionLayout_role :: "ValidatedRegionLayout \<Rightarrow> RoleId" where
  "ValidatedRegionLayout_role v = RoleId (hdr_role (vl_header v))"

definition matches_topology :: "ValidatedRegionLayout \<Rightarrow> RegionSetLayout \<Rightarrow> bool" where
  "matches_topology v topology \<longleftrightarrow>
     map_option rl_header (RegionSetLayout_region topology (ValidatedRegionLayout_role v)) =
       Some (vl_header v) \<and>
     length (vl_routes v) = length (set_routes topology) \<and>
     list_all (\<lambda>route. List.member (set_routes topology) route) (vl_routes v)"

definition slot_range :: "ValidatedRegionLayout \<Rightarrow> u32 \<Rightarrow> (Range, LayoutError) result" where
  "slot_range v slot =
     (if slot \<ge> hdr_slot_count (vl_header v)
      then Err (SlotOutOfBounds slot (hdr_slot_count (vl_header v)))
      else
        rbind (mul_usize (unat slot) (unat (hdr_slot_stride (vl_header v)))) (\<lambda>offset.
        rbind (ok_or LayoutError.Overflow (checked_add_usize (fst (vl_slots v)) offset)) (\<lambda>start.
        rbind (ok_or LayoutError.Overflow
          (checked_add_usize start (unat (hdr_slot_stride (vl_header v))))) (\<lambda>end.
          Ok (start, end)))))"

definition slot_payload_range :: "ValidatedRegionLayout \<Rightarrow> u32 \<Rightarrow> u32 \<Rightarrow> (Range, LayoutError) result"
where
  "slot_payload_range v slot payload_len =
     (if payload_len > hdr_payload_capacity (vl_header v)
      then Err (PayloadOutOfBounds payload_len (hdr_payload_capacity (vl_header v)))
      else
        rbind (slot_range v slot) (\<lambda>range.
        rbind (ok_or LayoutError.Overflow (checked_add_usize (fst range) (unat SLOT_HEADER_SIZE)))
          (\<lambda>start.
        rbind (ok_or LayoutError.Overflow (checked_add_usize start (unat payload_len))) (\<lambda>end.
        if end > snd range then Err RangeOutOfBounds else Ok (start, end)))))"

definition acknowledgement_range :: "ValidatedRegionLayout \<Rightarrow> u32 \<Rightarrow> (Range, LayoutError) result" where
  "acknowledgement_range v index =
     (if index \<ge> hdr_acknowledgement_count (vl_header v)
      then Err (AcknowledgementOutOfBounds index (hdr_acknowledgement_count (vl_header v)))
      else
        rbind (mul_usize (unat index) (unat (hdr_acknowledgement_stride (vl_header v)))) (\<lambda>offset.
        rbind (ok_or LayoutError.Overflow (checked_add_usize (fst (vl_acknowledgements v)) offset))
          (\<lambda>start.
        rbind (ok_or LayoutError.Overflow
          (checked_add_usize start (unat (hdr_acknowledgement_stride (vl_header v))))) (\<lambda>end.
          Ok (start, end)))))"

definition writer_slot_binding ::
    "ValidatedRegionLayout \<Rightarrow> AcknowledgementRoute \<Rightarrow> (SlotBinding, LayoutError) result" where
  "writer_slot_binding v route =
     (if rt_target route \<noteq> ValidatedRegionLayout_role v then Err RouteRegionMismatch
      else
        rbind (slot_range v (rt_slot_index route)) (\<lambda>_.
          Ok (WriterSlotBinding_validated (ValidatedRegionLayout_role v)
            (hdr_generation (vl_header v)) (hdr_payload_capacity (vl_header v))
            (rt_slot_index route) (hdr_slot_count (vl_header v)) (rt_owner route)
            (rt_cell_index route))))"

definition reader_slot_binding ::
    "ValidatedRegionLayout \<Rightarrow> u32 \<Rightarrow> (SlotBinding, LayoutError) result" where
  "reader_slot_binding v slot =
     rbind (slot_range v slot) (\<lambda>_.
       Ok (ReaderSlotBinding_validated (ValidatedRegionLayout_role v)
         (hdr_generation (vl_header v)) (hdr_payload_capacity (vl_header v)) slot
         (hdr_slot_count (vl_header v))))"

definition acknowledgement_writer_binding ::
    "ValidatedRegionLayout \<Rightarrow> AcknowledgementRoute \<Rightarrow> (AcknowledgementBinding, LayoutError) result"
where
  "acknowledgement_writer_binding v route =
     (if rt_owner route \<noteq> ValidatedRegionLayout_role v then Err RouteRegionMismatch
      else
        rbind (acknowledgement_range v (rt_cell_index route)) (\<lambda>_.
          Ok (AcknowledgementBinding_validated route (hdr_generation (vl_header v)))))"

definition acknowledgement_reader_binding ::
    "ValidatedRegionLayout \<Rightarrow> AcknowledgementRoute \<Rightarrow> (AcknowledgementBinding, LayoutError) result"
where
  "acknowledgement_reader_binding v route =
     (if rt_owner route \<noteq> ValidatedRegionLayout_role v then Err RouteRegionMismatch
      else
        rbind (acknowledgement_range v (rt_cell_index route)) (\<lambda>_.
          Ok (AcknowledgementBinding_validated route (hdr_generation (vl_header v)))))"

end
