(* ===== verification/Layout_Correct.thy ===== *)
theory Layout_Correct
  imports Layout
begin

text \<open>
  The correctness of region layouts: the exact arithmetic of a region, what validation accepts,
  the ranges a validated region hands out, and the acknowledgement routes as a bijection between
  producer slots and acknowledgement cells with its lookup.
\<close>

section \<open>Checked 64-bit arithmetic in natural numbers\<close>

lemma checked_add_unat:
  "checked_add (a :: u64) b =
     (if unat a + unat b < 2 ^ 64 then Some (word_of_nat (unat a + unat b)) else None)"
  by (simp add: checked_add_def)

lemma checked_mul_unat:
  "checked_mul (a :: u64) b =
     (if unat a * unat b < 2 ^ 64 then Some (word_of_nat (unat a * unat b)) else None)"
  by (simp add: checked_mul_def)

lemma unat_u64_of_nat: "n < 2 ^ 64 \<Longrightarrow> unat (word_of_nat n :: u64) = n"
  by (rule unat_word_of_nat_id) simp

lemmas u64_arith =
  checked_add_unat checked_mul_unat unat_u64_from_u32 unat_u64_of_nat

lemmas no_push = of_nat_add of_nat_mult unsigned_ucast_eq

lemma and_not_63: "(w :: u64) AND NOT 63 = word_of_nat (unat w div 64 * 64)"
proof -
  have "w AND NOT (mask 6) = push_bit 6 (drop_bit 6 w)"
    by (rule bit_word_eqI) (auto simp: bit_simps)
  also have "\<dots> = word_of_nat (unat w div 64 * 64)"
    by (simp add: word_unat_eq_iff push_bit_eq_mult drop_bit_eq_div unat_word_ariths unat_div
        unat_of_nat)
  finally show ?thesis by (simp add: mask_eq_exp_minus_1)
qed

lemma align_up_nat:
  assumes "n < 2 ^ 64"
  shows "align_up (word_of_nat n) 64 =
     (if n + 63 < 2 ^ 64 then Ok (word_of_nat ((n + 63) div 64 * 64)) else Err LayoutError.Overflow)"
proof (cases "n + 63 < 2 ^ 64")
  case True
  then have "checked_add (word_of_nat n :: u64) 63 = Some (word_of_nat (n + 63))"
    using assms by (simp add: u64_arith del: no_push)
  moreover have "unat (word_of_nat (n + 63) :: u64) = n + 63"
    using True by (intro unat_word_of_nat_id) simp
  ultimately show ?thesis
    using True and_not_63 [of "word_of_nat (n + 63)"]
    by (simp add: align_up_def del: of_nat_add)
next
  case False
  then show ?thesis
    using assms by (simp add: align_up_def u64_arith)
qed

section \<open>The arithmetic of a region\<close>

definition stride_nat :: "RegionSpec \<Rightarrow> nat" where
  "stride_nat spec = 64 + 64 * ((unat (spec_payload_bytes spec) + 63) div 64)"

definition slots_offset_nat :: "RegionSpec \<Rightarrow> nat" where
  "slots_offset_nat spec = 128 + 64 * unat (spec_acknowledgement_count spec)"

definition total_nat :: "RegionSpec \<Rightarrow> nat" where
  "total_nat spec = slots_offset_nat spec + stride_nat spec * unat (spec_slot_count spec)"

definition region_header_of :: "bytes \<Rightarrow> u64 \<Rightarrow> RegionSpec \<Rightarrow> RegionHeader" where
  "region_header_of schema_id generation spec =
     \<lparr>hdr_total_size = word_of_nat (total_nat spec), hdr_schema_id = schema_id,
      hdr_generation = generation, hdr_role = role_get (spec_role spec),
      hdr_writer = endpoint_raw (spec_writer spec), hdr_acknowledgement_offset = 128,
      hdr_acknowledgement_count = spec_acknowledgement_count spec,
      hdr_acknowledgement_stride = 64, hdr_slots_offset = word_of_nat (slots_offset_nat spec),
      hdr_slot_count = spec_slot_count spec, hdr_slot_stride = word_of_nat (stride_nat spec),
      hdr_payload_capacity = spec_payload_bytes spec\<rparr>"

definition spec_fits :: "RegionSpec \<Rightarrow> LayoutLimits \<Rightarrow> bool" where
  "spec_fits spec limits \<longleftrightarrow>
     spec_slot_count spec \<noteq> 0 \<and> spec_payload_bytes spec \<noteq> 0 \<and>
     spec_slot_count spec \<le> maximum_slot_count limits \<and>
     spec_payload_bytes spec \<le> maximum_payload_bytes limits \<and>
     spec_acknowledgement_count spec \<le> maximum_acknowledgement_count limits \<and>
     stride_nat spec < 2 ^ 32 \<and> total_nat spec \<le> unat (maximum_mapping_size limits)"

lemma validate_counts_Ok:
  "validate_counts spec limits = Ok u \<longleftrightarrow>
     spec_slot_count spec \<noteq> 0 \<and> spec_payload_bytes spec \<noteq> 0 \<and>
     spec_slot_count spec \<le> maximum_slot_count limits \<and>
     spec_payload_bytes spec \<le> maximum_payload_bytes limits \<and>
     spec_acknowledgement_count spec \<le> maximum_acknowledgement_count limits"
  by (auto simp: validate_counts_def)

lemma validate_counts_no_Panic: "validate_counts spec limits \<noteq> Panic"
  by (simp add: validate_counts_def)

lemma geometry_steps:
  "checked_mul (ucast (spec_acknowledgement_count spec)) ACKNOWLEDGEMENT_CELL_SIZE =
     Some (word_of_nat (64 * unat (spec_acknowledgement_count spec)))"
  "checked_add REGION_HEADER_SIZE (word_of_nat (64 * unat (spec_acknowledgement_count spec))) =
     Some (word_of_nat (slots_offset_nat spec))"
  "align_up (word_of_nat (slots_offset_nat spec)) CACHE_LINE = Ok (word_of_nat (slots_offset_nat spec))"
  "checked_add SLOT_HEADER_SIZE (ucast (spec_payload_bytes spec)) =
     Some (word_of_nat (64 + unat (spec_payload_bytes spec)))"
  "align_up (word_of_nat (64 + unat (spec_payload_bytes spec))) CACHE_LINE =
     Ok (word_of_nat (stride_nat spec))"
proof -
  let ?a = "unat (spec_acknowledgement_count spec)" and ?p = "unat (spec_payload_bytes spec)"
  have b: "?a < 2 ^ 32" "?p < 2 ^ 32"
    using unat_lt_pow [of "spec_acknowledgement_count spec"] unat_lt_pow [of "spec_payload_bytes spec"]
    by simp_all
  show "checked_mul (ucast (spec_acknowledgement_count spec)) ACKNOWLEDGEMENT_CELL_SIZE =
     Some (word_of_nat (64 * ?a))"
    using b by (simp add: u64_arith ACKNOWLEDGEMENT_CELL_SIZE_def mult.commute del: no_push)
  show "checked_add REGION_HEADER_SIZE (word_of_nat (64 * ?a)) =
     Some (word_of_nat (slots_offset_nat spec))"
    using b by (simp add: u64_arith REGION_HEADER_SIZE_def slots_offset_nat_def del: no_push)
  have "(slots_offset_nat spec + 63) div 64 * 64 = slots_offset_nat spec"
    by (simp add: slots_offset_nat_def)
  moreover have "slots_offset_nat spec + 63 < 2 ^ 64" using b by (simp add: slots_offset_nat_def)
  ultimately show "align_up (word_of_nat (slots_offset_nat spec)) CACHE_LINE =
      Ok (word_of_nat (slots_offset_nat spec))"
    using align_up_nat [of "slots_offset_nat spec"] by (simp add: CACHE_LINE_def del: no_push)
  show "checked_add SLOT_HEADER_SIZE (ucast (spec_payload_bytes spec)) =
     Some (word_of_nat (64 + ?p))"
    using b by (simp add: u64_arith SLOT_HEADER_SIZE_def del: no_push)
  have "(64 + ?p + 63) div 64 = 1 + (?p + 63) div 64"
    using div_add_self1 [of 64 "?p + 63"] by (simp add: ac_simps)
  then have "(64 + ?p + 63) div 64 * 64 = stride_nat spec"
    by (simp only: stride_nat_def add_mult_distrib mult.commute [of 64])
  then show "align_up (word_of_nat (64 + ?p)) CACHE_LINE = Ok (word_of_nat (stride_nat spec))"
    using align_up_nat [of "64 + ?p"] b by (simp add: CACHE_LINE_def del: no_push)
qed

lemma stride_nat_bound: "stride_nat spec \<le> 2 ^ 32 + 64"
  using unat_lt_pow [of "spec_payload_bytes spec"] by (simp add: stride_nat_def)

lemma slots_offset_nat_bound: "slots_offset_nat spec < 2 ^ 39"
  using unat_lt_pow [of "spec_acknowledgement_count spec"] by (simp add: slots_offset_nat_def)

lemma RegionLayout_calculate_Ok:
  "RegionLayout_calculate schema_id generation spec limits = Ok region \<longleftrightarrow>
     spec_fits spec limits \<and> region = \<lparr>rl_header = region_header_of schema_id generation spec\<rparr>"
proof (cases "is_ok (validate_counts spec limits)")
  case False
  then show ?thesis
    using validate_counts_no_Panic [of spec limits] validate_counts_Ok [of spec limits "()"]
    by (cases "validate_counts spec limits") (auto simp: RegionLayout_calculate_def spec_fits_def)
next
  case True
  let ?s = "stride_nat spec" and ?n = "unat (spec_slot_count spec)" and ?o = "slots_offset_nat spec"
  have v: "validate_counts spec limits = Ok ()" using True by (auto simp: is_ok_iff)
  have s: "?s < 2 ^ 64" "?o < 2 ^ 64" "?n < 2 ^ 64"
    using stride_nat_bound [of spec] slots_offset_nat_bound [of spec]
      unat_lt_pow [of "spec_slot_count spec"] by simp_all
  have m: "checked_mul (word_of_nat ?s :: u64) (ucast (spec_slot_count spec)) =
      (if ?s * ?n < 2 ^ 64 then Some (word_of_nat (?s * ?n)) else None)"
    using s by (simp add: u64_arith del: no_push)
  have t: "?s * ?n < 2 ^ 64 \<Longrightarrow> checked_add (word_of_nat ?o :: u64) (word_of_nat (?s * ?n)) =
      (if total_nat spec < 2 ^ 64 then Some (word_of_nat (total_nat spec)) else None)"
    using s by (simp add: u64_arith total_nat_def del: no_push)
  have big: "total_nat spec \<le> unat (maximum_mapping_size limits) \<Longrightarrow> total_nat spec < 2 ^ 64 \<and> ?s * ?n < 2 ^ 64"
    using unat_lt_pow [of "maximum_mapping_size limits"] by (simp add: total_nat_def)
  have "unat (- 1 :: u32) = 2 ^ 32 - 1" by (simp add: unsigned_minus_1_eq_mask mask_eq_exp_minus_1)
  then have top: "unat (ucast (- 1 :: u32) :: u64) = 2 ^ 32 - 1"
    by (simp add: unat_u64_from_u32 del: unsigned_ucast_eq)
  have lim: "((word_of_nat ?s :: u64) > ucast (- 1 :: u32)) \<longleftrightarrow> \<not> ?s < 2 ^ 32"
    "total_nat spec < 2 ^ 64 \<Longrightarrow> ((word_of_nat (total_nat spec) :: u64) > maximum_mapping_size limits)
       \<longleftrightarrow> \<not> total_nat spec \<le> unat (maximum_mapping_size limits)"
    using s(1) top by (auto simp: word_less_nat_alt not_le not_less simp del: unsigned_ucast_eq)
  have st: "?s < 2 ^ 32 \<Longrightarrow> (ucast (word_of_nat ?s :: u64) :: u32) = word_of_nat ?s"
    by (simp add: word_unat_eq_iff unsigned_ucast_eq take_bit_nat_eq_self)
  let ?calc = "RegionLayout_calculate schema_id generation spec limits"
  have fits: "spec_fits spec limits \<longleftrightarrow> ?s < 2 ^ 32 \<and> total_nat spec \<le> unat (maximum_mapping_size limits)"
    using v by (simp add: spec_fits_def validate_counts_Ok)
  show ?thesis
  proof (cases "?s * ?n < 2 ^ 64 \<and> total_nat spec < 2 ^ 64")
    case False
    then have "?calc = Err LayoutError.Overflow"
      by (cases "?s * ?n < 2 ^ 64")
        (simp_all add: RegionLayout_calculate_def v geometry_steps m t del: of_nat_mult of_nat_add)
    then show ?thesis using False big fits by auto
  next
    case True
    then have "?calc =
      (if \<not> ?s < 2 ^ 32 \<or> \<not> total_nat spec \<le> unat (maximum_mapping_size limits)
       then Err LayoutError.LimitExceeded
       else Ok \<lparr>rl_header = (region_header_of schema_id generation spec)
         \<lparr>hdr_slot_stride := ucast (word_of_nat ?s :: u64)\<rparr>\<rparr>)"
      by (simp add: RegionLayout_calculate_def v geometry_steps m t lim region_header_of_def
          not_less [symmetric] del: of_nat_mult of_nat_add)
        (auto simp: REGION_HEADER_SIZE_def ACKNOWLEDGEMENT_CELL_SIZE_def usize_max_def)
    then show ?thesis using fits st by (auto simp: region_header_of_def)
  qed
qed

section \<open>Header bytes\<close>

definition header_fields :: "RegionHeader \<Rightarrow> bytes list" where
  "header_fields h =
     [REGION_MAGIC, to_le_bytes 2 VERSION_MAJOR, to_le_bytes 2 VERSION_MINOR,
      to_le_bytes 4 (ucast REGION_HEADER_SIZE :: u32), to_le_bytes 8 (hdr_total_size h),
      hdr_schema_id h, to_le_bytes 8 (hdr_generation h), to_le_bytes 4 (hdr_role h),
      to_le_bytes 4 (hdr_writer h), to_le_bytes 8 (hdr_acknowledgement_offset h),
      to_le_bytes 4 (hdr_acknowledgement_count h), to_le_bytes 4 (hdr_acknowledgement_stride h),
      to_le_bytes 8 (hdr_slots_offset h), to_le_bytes 4 (hdr_slot_count h),
      to_le_bytes 4 (hdr_slot_stride h), to_le_bytes 4 (hdr_payload_capacity h),
      to_le_bytes 4 (0 :: u32), replicate 16 0]"

definition header_bytes :: "RegionHeader \<Rightarrow> bytes" where
  "header_bytes h = concat (header_fields h)"

abbreviation header_widths :: "nat list" where
  "header_widths \<equiv> [8, 2, 2, 4, 8, 32, 8, 4, 4, 8, 4, 4, 8, 4, 4, 4, 4, 16]"

lemma length_REGION_MAGIC [simp]: "length REGION_MAGIC = 8"
  by (simp add: REGION_MAGIC_def)

lemma length_header_bytes [simp]: "length (hdr_schema_id h) = 32 \<Longrightarrow> length (header_bytes h) = 128"
  by (simp add: header_bytes_def header_fields_def)

lemma pieces_header_bytes:
  assumes "length (hdr_schema_id h) = 32"
  shows "pieces (header_bytes h) 0 header_widths = header_fields h"
  using pieces_concat [of 0 "[]" "header_fields h" "[]"] assms
  by (simp add: header_bytes_def header_fields_def)

lemma encode_header_canonical:
  assumes "length b = 128" "length (hdr_schema_id h) = 32"
  shows "encode_header h b = Ok (header_bytes h)"
proof -
  have "encode_header h (overlay [] b) = Ok (header_bytes h)"
    using assms
    by (simp add: encode_header_def header_bytes_def header_fields_def record_write overlay_full)
  then show ?thesis by (simp add: overlay_start)
qed

lemma decode_header_bytes:
  assumes "length (hdr_schema_id h) = 32"
  shows "decode_header (header_bytes h) = Ok h" "validate_header_encoding (header_bytes h) = Ok ()"
  using pieces_header_bytes [OF assms] assms
  by (simp_all add: decode_header_def validate_header_encoding_def header_fields_def wire list_ex_iff)

lemma list_ex_nonzero: "\<not> list_ex (\<lambda>byte. byte \<noteq> 0) xs \<longleftrightarrow> xs = replicate (length xs) (0 :: u8)"
  by (induction xs) auto

lemma decode_header_sound:
  assumes "length b = 128" "validate_header_encoding b = Ok u" "decode_header b = Ok h"
  shows "b = header_bytes h \<and> length (hdr_schema_id h) = 32"
proof -
  have s: "hdr_schema_id h = read_at b 24 32"
    using assms(1,3) by (auto simp: decode_header_def outcome slice_def)
  have z: "read_at b 112 16 = replicate 16 0"
    using assms(1,2)
    by (auto simp: validate_header_encoding_def outcome slice_def list_ex_nonzero split: if_splits)
  have p: "pieces b 0 header_widths = header_fields h"
    using assms z s
    by (auto simp: validate_header_encoding_def decode_header_def header_fields_def outcome
        u16_field.get_eq_Ok u32_field.get_eq_Ok u64_field.get_eq_Ok slice_def split: if_splits)
  have "b = concat (header_fields h)"
    by (rule pieces_determine [OF _ p]) (simp add: assms(1))
  then show ?thesis using s assms(1) by (simp add: header_bytes_def)
qed

lemma header_no_panic:
  assumes "length b = 128"
  shows "validate_header_encoding b \<noteq> Panic" "decode_header b \<noteq> Panic" "decode_header b \<noteq> Err e"
  using assms
  by (simp_all add: validate_header_encoding_def decode_header_def outcome slice_def)

section \<open>What validation accepts\<close>

text \<open>The specification a header describes, and the geometry it must have.\<close>

definition spec_of :: "RegionHeader \<Rightarrow> RegionSpec" where
  "spec_of h =
     \<lparr>spec_role = RoleId (hdr_role h),
      spec_writer = (case Endpoint_from_raw (hdr_writer h) of Some w \<Rightarrow> w | None \<Rightarrow> Initiator),
      spec_slot_count = hdr_slot_count h, spec_payload_bytes = hdr_payload_capacity h,
      spec_acknowledgement_count = hdr_acknowledgement_count h\<rparr>"

definition region_geometry :: "RegionHeader \<Rightarrow> bool" where
  "region_geometry h \<longleftrightarrow>
     hdr_acknowledgement_offset h = 128 \<and> hdr_acknowledgement_stride h = 64 \<and>
     unat (hdr_slots_offset h) = slots_offset_nat (spec_of h) \<and>
     unat (hdr_slot_stride h) = stride_nat (spec_of h) \<and>
     unat (hdr_total_size h) = total_nat (spec_of h) \<and>
     hdr_slot_count h \<noteq> 0 \<and> hdr_payload_capacity h \<noteq> 0"

lemma spec_of_sel [simp]:
  "spec_slot_count (spec_of h) = hdr_slot_count h"
  "spec_payload_bytes (spec_of h) = hdr_payload_capacity h"
  "spec_acknowledgement_count (spec_of h) = hdr_acknowledgement_count h"
  by (simp_all add: spec_of_def)

lemma header_steps:
  "checked_mul (ucast (hdr_acknowledgement_count h)) 64 =
     Some (word_of_nat (64 * unat (hdr_acknowledgement_count h)) :: u64)"
  "checked_add 128 (word_of_nat (64 * unat (hdr_acknowledgement_count h))) =
     Some (word_of_nat (slots_offset_nat (spec_of h)) :: u64)"
  "checked_add SLOT_HEADER_SIZE (ucast (hdr_payload_capacity h)) =
     Some (word_of_nat (64 + unat (hdr_payload_capacity h)))"
  "align_up (word_of_nat (64 + unat (hdr_payload_capacity h))) CACHE_LINE =
     Ok (word_of_nat (stride_nat (spec_of h)))"
  using geometry_steps [of "spec_of h"]
  by (simp_all add: ACKNOWLEDGEMENT_CELL_SIZE_def REGION_HEADER_SIZE_def del: no_push)

lemma unat_slots_offset: "unat (word_of_nat (slots_offset_nat spec) :: u64) = slots_offset_nat spec"
  using slots_offset_nat_bound [of spec] by (simp add: unat_u64_of_nat)

lemma unat_stride: "unat (word_of_nat (stride_nat spec) :: u64) = stride_nat spec"
  using stride_nat_bound [of spec] by (simp add: unat_u64_of_nat)

lemma validate_header_Ok:
  "validate_header h n e = Ok u \<longleftrightarrow>
     hdr_schema_id h = exp_schema_id e \<and> hdr_generation h = exp_generation e \<and>
     hdr_role h = role_get (exp_role e) \<and> Endpoint_from_raw (hdr_writer h) = Some (exp_writer e) \<and>
     n \<le> unat (exp_maximum_mapping_size e) \<and> unat (hdr_total_size h) \<le> n \<and>
     hdr_acknowledgement_offset h = 128 \<and> hdr_acknowledgement_stride h = 64 \<and>
     unat (hdr_slots_offset h) = slots_offset_nat (spec_of h) \<and>
     hdr_slot_count h \<noteq> 0 \<and> hdr_payload_capacity h \<noteq> 0"
proof (cases "hdr_acknowledgement_offset h = 128 \<and> hdr_acknowledgement_stride h = 64")
  case False
  then show ?thesis
    by (auto simp: validate_header_def REGION_HEADER_SIZE_def ACKNOWLEDGEMENT_CELL_SIZE_def)
next
  case True
  have "slots_offset_nat (spec_of h) mod 64 = 0" by (simp add: slots_offset_nat_def)
  then have m: "hdr_slots_offset h = word_of_nat (slots_offset_nat (spec_of h)) \<Longrightarrow>
      hdr_slots_offset h mod CACHE_LINE = 0"
    by (simp add: word_unat_eq_iff unat_mod CACHE_LINE_def unat_slots_offset)
  have eq: "hdr_slots_offset h = word_of_nat (slots_offset_nat (spec_of h)) \<longleftrightarrow>
      unat (hdr_slots_offset h) = slots_offset_nat (spec_of h)"
    by (simp add: word_unat_eq_iff unat_slots_offset)
  have "validate_header h n e = Ok u \<longleftrightarrow>
     hdr_schema_id h = exp_schema_id e \<and> hdr_generation h = exp_generation e \<and>
     hdr_role h = role_get (exp_role e) \<and> Endpoint_from_raw (hdr_writer h) = Some (exp_writer e) \<and>
     n \<le> unat (exp_maximum_mapping_size e) \<and> unat (hdr_total_size h) \<le> n \<and>
     hdr_total_size h \<le> exp_maximum_mapping_size e \<and>
     hdr_slots_offset h = word_of_nat (slots_offset_nat (spec_of h)) \<and>
     hdr_slot_count h \<noteq> 0 \<and> hdr_payload_capacity h \<noteq> 0"
    using True m
    by (auto simp: validate_header_def header_steps geometry_steps(3) not_less not_le leD [OF unat_u64_usize]
        REGION_HEADER_SIZE_def ACKNOWLEDGEMENT_CELL_SIZE_def simp del: no_push)
  then show ?thesis using True eq by (auto simp: word_le_nat_alt)
qed

lemma validate_header_no_panic: "validate_header h n e \<noteq> Panic"
  by (simp add: validate_header_def outcome align_up_def)

text \<open>A slot is initialised: its generation is the region's, the rest of its metadata is zero.\<close>

definition slot_start :: "RegionHeader \<Rightarrow> nat \<Rightarrow> nat" where
  "slot_start h k = slots_offset_nat (spec_of h) + k * stride_nat (spec_of h)"

definition slot_initialised :: "bytes \<Rightarrow> RegionHeader \<Rightarrow> nat \<Rightarrow> bool" where
  "slot_initialised b h k \<longleftrightarrow>
     read_at b (slot_start h k) 8 = to_le_bytes 8 (hdr_generation h) \<and>
     read_at b (slot_start h k + 8) 56 = replicate 56 0"

lemma stride_nat_ge: "64 \<le> stride_nat spec"
  by (simp add: stride_nat_def)

lemma slot_start_bound:
  assumes "region_geometry h" "k < unat (hdr_slot_count h)"
  shows "slot_start h k + stride_nat (spec_of h) \<le> unat (hdr_total_size h)"
proof -
  have "slot_start h k + stride_nat (spec_of h) =
      slots_offset_nat (spec_of h) + Suc k * stride_nat (spec_of h)"
    by (simp add: slot_start_def)
  also have "\<dots> \<le> slots_offset_nat (spec_of h) + unat (hdr_slot_count h) * stride_nat (spec_of h)"
    using assms(2) by (intro add_left_mono mult_le_mono1) simp
  also have "\<dots> = unat (hdr_total_size h)"
    using assms(1) by (simp add: region_geometry_def total_nat_def mult.commute)
  finally show ?thesis .
qed

lemma validate_slot_eq:
  assumes g: "region_geometry h" and k: "k < unat (hdr_slot_count h)"
    and l: "unat (hdr_total_size h) \<le> length b"
  shows "validate_slot b h (slots_offset_nat (spec_of h), e) k =
    (if slot_initialised b h k then Ok () else Err SlotMetadataNotInitialized)"
proof -
  have s: "slot_start h k + 64 \<le> length b"
    using slot_start_bound [OF g k] stride_nat_ge [of "spec_of h"] l by simp
  have st: "unat (hdr_slot_stride h) = stride_nat (spec_of h)"
    using g by (simp add: region_geometry_def)
  have u: "slots_offset_nat (spec_of h) + k * stride_nat (spec_of h) \<le> usize_max"
    using slot_start_bound [OF g k] unat_u64_usize [of "hdr_total_size h"]
    by (simp add: slot_start_def del: unat_u64_usize)
  then have u': "k * stride_nat (spec_of h) \<le> usize_max" by simp
  have "validate_slot b h (slots_offset_nat (spec_of h), e) k =
      (if from_le_bytes (read_at b (slot_start h k) 8) \<noteq> hdr_generation h
       then Err SlotMetadataNotInitialized
       else if list_ex (\<lambda>byte. byte \<noteq> 0) (read_at b (slot_start h k + 8) 56)
       then Err SlotMetadataNotInitialized else Ok ())"
    using s u u' by (simp add: validate_slot_def st wire SLOT_HEADER_SIZE_def slot_start_def [symmetric])
  moreover have "from_le_bytes (read_at b (slot_start h k) 8) = hdr_generation h \<longleftrightarrow>
      read_at b (slot_start h k) 8 = to_le_bytes 8 (hdr_generation h)"
    using u64_field.get_eq_Ok [of b "slot_start h k" "hdr_generation h"] s
    by (simp add: u64_field.get_fits)
  moreover have "list_ex (\<lambda>byte. byte \<noteq> 0) (read_at b (slot_start h k + 8) 56) \<longleftrightarrow>
      read_at b (slot_start h k + 8) 56 \<noteq> replicate 56 0"
    using list_ex_nonzero [of "read_at b (slot_start h k + 8) 56"] s by auto
  ultimately show ?thesis by (simp only: slot_initialised_def) simp
qed

lemma for_each_slots:
  assumes "\<And>k. k < n \<Longrightarrow> f k = (if P k then Ok () else Err e)"
  shows "for_each (\<lambda>k _. f k) [0..<n] () = (if \<forall>k<n. P k then Ok () else Err e)"
  using assms
proof (induction n)
  case 0
  then show ?case by simp
next
  case (Suc n)
  then show ?case by (auto simp: for_each_append less_Suc_eq)
qed

text \<open>The exact set of mappings that validation accepts, and what it returns for them.\<close>

definition header_expected :: "RegionHeader \<Rightarrow> ValidationExpectations \<Rightarrow> bool" where
  "header_expected h e \<longleftrightarrow>
     hdr_schema_id h = exp_schema_id e \<and> hdr_generation h = exp_generation e \<and>
     exp_generation e \<noteq> 0 \<and> hdr_role h = role_get (exp_role e) \<and>
     Endpoint_from_raw (hdr_writer h) = Some (exp_writer e)"

definition quiescent_mapping :: "bytes \<Rightarrow> RegionHeader \<Rightarrow> bool" where
  "quiescent_mapping b h \<longleftrightarrow>
     length (hdr_schema_id h) = 32 \<and> unat (hdr_total_size h) \<le> length b \<and>
     read_at b 0 128 = header_bytes h \<and>
     read_at b 128 (64 * unat (hdr_acknowledgement_count h)) =
       replicate (64 * unat (hdr_acknowledgement_count h)) 0 \<and>
     (\<forall>k < unat (hdr_slot_count h). slot_initialised b h k) \<and>
     drop (unat (hdr_total_size h)) b = replicate (length b - unat (hdr_total_size h)) 0"

definition validated_of :: "bytes \<Rightarrow> RegionHeader \<Rightarrow> RegionSetLayout \<Rightarrow> ValidatedRegionLayout" where
  "validated_of b h topology =
     \<lparr>vl_header = h, vl_acknowledgements = (128, slots_offset_nat (spec_of h)),
      vl_slots = (slots_offset_nat (spec_of h), unat (hdr_total_size h)),
      vl_mapping_size = length b, vl_routes = set_routes topology\<rparr>"

lemma validate_tail:
  assumes h: "hdr_acknowledgement_offset h = 128" "hdr_acknowledgement_stride h = 64"
    "unat (hdr_slots_offset h) = slots_offset_nat (spec_of h)"
    "hdr_slot_count h \<noteq> 0" "hdr_payload_capacity h \<noteq> 0" "unat (hdr_total_size h) \<le> length b"
  shows "unat (hdr_slot_stride h) = stride_nat (spec_of h) \<and>
      checked_mul (ucast (hdr_slot_stride h)) (ucast (hdr_slot_count h)) = Some len \<and>
      checked_add (hdr_slots_offset h) len = Some (hdr_total_size h)
    \<longleftrightarrow> region_geometry h \<and> len = word_of_nat (stride_nat (spec_of h) * unat (hdr_slot_count h))"
proof -
  let ?n = "stride_nat (spec_of h) * unat (hdr_slot_count h)"
  have t: "unat (hdr_total_size h) < 2 ^ 64" using unat_lt_pow [of "hdr_total_size h"] by simp
  have "checked_add (hdr_slots_offset h) (word_of_nat ?n :: u64) = Some (hdr_total_size h) \<longleftrightarrow>
      unat (hdr_total_size h) = total_nat (spec_of h)" if "?n < 2 ^ 64"
    using that t h(3)
    by (auto simp: u64_arith total_nat_def word_unat_eq_iff simp del: no_push)
  moreover have "total_nat (spec_of h) = unat (hdr_total_size h) \<Longrightarrow> ?n < 2 ^ 64"
    using t by (simp add: total_nat_def)
  ultimately show ?thesis
    using h by (auto simp: region_geometry_def u64_arith simp del: no_push)
qed

lemma slots_checked_range:
  assumes g: "region_geometry h" "unat (hdr_total_size h) \<le> length b"
  shows "checked_range (hdr_slots_offset h) (hdr_total_size h) (hdr_total_size h) (length b) =
    Ok (slots_offset_nat (spec_of h), unat (hdr_total_size h))"
proof -
  have o: "unat (hdr_slots_offset h) = slots_offset_nat (spec_of h)"
    and le: "slots_offset_nat (spec_of h) \<le> unat (hdr_total_size h)"
    using g(1) by (simp_all add: region_geometry_def total_nat_def)
  show ?thesis
    using g(2) le by (simp add: checked_range_def word_less_nat_alt o leD [OF unat_u64_usize])
qed

lemma read_at_rest: "read_at b n (length b - n) = drop n b"
  by (simp add: read_at_def)

lemma validate_contents_eq:
  assumes h: "hdr_acknowledgement_offset h = 128" "hdr_acknowledgement_stride h = 64"
    "unat (hdr_slots_offset h) = slots_offset_nat (spec_of h)"
    "hdr_slot_count h \<noteq> 0" "hdr_payload_capacity h \<noteq> 0" "unat (hdr_total_size h) \<le> length b"
  shows "validate_contents b h topology =
    (if \<not> slots_offset_nat (spec_of h) \<le> unat (hdr_total_size h) then Err RangeOutOfBounds
     else if list_ex (\<lambda>byte. byte \<noteq> 0) (read_at b 128 (64 * unat (hdr_acknowledgement_count h)))
     then Err AcknowledgementNotZero
     else if list_ex (\<lambda>byte. byte \<noteq> 0) (drop (unat (hdr_total_size h)) b)
     then Err CapabilityPaddingNotZero
     else if unat (hdr_slot_stride h) \<noteq> stride_nat (spec_of h) then Err BadSlotStride
     else
       rbind (ok_or LayoutError.Overflow
         (checked_mul (ucast (hdr_slot_stride h)) (ucast (hdr_slot_count h)))) (\<lambda>slots_len.
       rbind (ok_or LayoutError.Overflow (checked_add (hdr_slots_offset h) slots_len)) (\<lambda>slots_end.
       if slots_end \<noteq> hdr_total_size h then Err BadTotalSize
       else if \<forall>k < unat (hdr_slot_count h). slot_initialised b h k
       then Ok (validated_of b h topology)
       else Err SlotMetadataNotInitialized)))"
proof (cases "slots_offset_nat (spec_of h) \<le> unat (hdr_total_size h)")
  case False
  then show ?thesis
    by (simp add: validate_contents_def h(1,2) header_steps checked_range_def word_less_nat_alt
        unat_slots_offset del: no_push)
next
  case True
  let ?o = "slots_offset_nat (spec_of h)"
  have r: "checked_range 128 (word_of_nat ?o) (hdr_total_size h) (length b) = Ok (128, ?o)"
    using True h(6)
    by (simp add: checked_range_def word_less_nat_alt unat_slots_offset leD [OF unat_u64_usize])
      (use True slots_offset_nat_bound [of "spec_of h"] in \<open>simp add: slots_offset_nat_def usize_max_def\<close>)
  have sl: "slice b 128 ?o = Ok (read_at b 128 (64 * unat (hdr_acknowledgement_count h)))"
    "slice b (unat (hdr_total_size h)) (length b) = Ok (drop (unat (hdr_total_size h)) b)"
    using True h(6) by (simp_all add: slice_def slots_offset_nat_def read_at_rest)
  have stride: "ucast (hdr_slot_stride h) = (word_of_nat (stride_nat (spec_of h)) :: u64) \<longleftrightarrow>
      unat (hdr_slot_stride h) = stride_nat (spec_of h)"
    by (simp add: word_unat_eq_iff unat_u64_from_u32 unat_stride del: unsigned_ucast_eq)
  let ?f = "\<lambda>slots_end. rbind
      (checked_range (hdr_slots_offset h) slots_end (hdr_total_size h) (length b))
      (\<lambda>slots. rbind (for_each (\<lambda>slot _. validate_slot b h slots slot) [0..<unat (hdr_slot_count h)] ())
        (\<lambda>_. Ok \<lparr>vl_header = h, vl_acknowledgements = (128, ?o), vl_slots = slots,
          vl_mapping_size = length b, vl_routes = set_routes topology\<rparr>))"
  have loop: "?f (hdr_total_size h) =
      (if \<forall>k < unat (hdr_slot_count h). slot_initialised b h k
       then Ok (validated_of b h topology) else Err SlotMetadataNotInitialized)"
    if g: "region_geometry h"
    using for_each_slots [OF validate_slot_eq [OF g _ h(6)]]
    by (simp add: slots_checked_range [OF g h(6)] validated_of_def)
  let ?mul = "checked_mul (ucast (hdr_slot_stride h)) (ucast (hdr_slot_count h)) :: u64 option"
  have tail: "rbind (ok_or LayoutError.Overflow ?mul) (\<lambda>slots_len.
      rbind (ok_or LayoutError.Overflow (checked_add (hdr_slots_offset h) slots_len)) (\<lambda>slots_end.
        if slots_end \<noteq> hdr_total_size h then Err BadTotalSize else f slots_end)) =
    rbind (ok_or LayoutError.Overflow ?mul) (\<lambda>slots_len.
      rbind (ok_or LayoutError.Overflow (checked_add (hdr_slots_offset h) slots_len)) (\<lambda>slots_end.
        if slots_end \<noteq> hdr_total_size h then Err BadTotalSize else g))"
    if "unat (hdr_slot_stride h) = stride_nat (spec_of h)"
      and "region_geometry h \<Longrightarrow> f (hdr_total_size h) = g" for f g
  proof (cases ?mul)
    case (Some len)
    then show ?thesis
      using that validate_tail [OF h, of len] by (cases "checked_add (hdr_slots_offset h) len") auto
  qed simp
  show ?thesis
    using True tail [of ?f, OF _ loop]
    by (simp add: validate_contents_def h(1,2) header_steps r sl stride del: no_push)
qed

lemma validate_contents_Ok:
  assumes h: "hdr_acknowledgement_offset h = 128" "hdr_acknowledgement_stride h = 64"
    "unat (hdr_slots_offset h) = slots_offset_nat (spec_of h)"
    "hdr_slot_count h \<noteq> 0" "hdr_payload_capacity h \<noteq> 0" "unat (hdr_total_size h) \<le> length b"
  shows "validate_contents b h topology = Ok v \<longleftrightarrow>
    region_geometry h \<and>
    read_at b 128 (64 * unat (hdr_acknowledgement_count h)) =
      replicate (64 * unat (hdr_acknowledgement_count h)) 0 \<and>
    (\<forall>k < unat (hdr_slot_count h). slot_initialised b h k) \<and>
    drop (unat (hdr_total_size h)) b = replicate (length b - unat (hdr_total_size h)) 0 \<and>
    v = validated_of b h topology"
proof (cases "slots_offset_nat (spec_of h) \<le> unat (hdr_total_size h)")
  case False
  then show ?thesis
    by (simp add: validate_contents_eq [OF h] region_geometry_def total_nat_def)
next
  case True
  let ?mul = "checked_mul (ucast (hdr_slot_stride h)) (ucast (hdr_slot_count h)) :: u64 option"
  have l: "length (read_at b 128 (64 * unat (hdr_acknowledgement_count h))) =
      64 * unat (hdr_acknowledgement_count h)"
    using True h(6) by (intro length_read_at) (simp add: slots_offset_nat_def)
  have z: "\<not> list_ex (\<lambda>byte. byte \<noteq> 0) (read_at b 128 (64 * unat (hdr_acknowledgement_count h))) \<longleftrightarrow>
      read_at b 128 (64 * unat (hdr_acknowledgement_count h)) =
        replicate (64 * unat (hdr_acknowledgement_count h)) 0"
    "\<not> list_ex (\<lambda>byte. byte \<noteq> 0) (drop (unat (hdr_total_size h)) b) \<longleftrightarrow>
      drop (unat (hdr_total_size h)) b = replicate (length b - unat (hdr_total_size h)) 0"
    by (simp_all only: list_ex_nonzero l length_drop)
  have g: "unat (hdr_slot_stride h) = stride_nat (spec_of h) \<and>
      (\<exists>len. ?mul = Some len \<and> checked_add (hdr_slots_offset h) len = Some (hdr_total_size h))
      \<longleftrightarrow> region_geometry h"
    using validate_tail [OF h] by blast
  have "rbind (ok_or LayoutError.Overflow ?mul) (\<lambda>slots_len.
      rbind (ok_or LayoutError.Overflow (checked_add (hdr_slots_offset h) slots_len)) (\<lambda>slots_end.
        if slots_end \<noteq> hdr_total_size h then Err BadTotalSize
        else if Q then Ok w else Err SlotMetadataNotInitialized)) = Ok v \<longleftrightarrow>
      (\<exists>len. ?mul = Some len \<and> checked_add (hdr_slots_offset h) len = Some (hdr_total_size h)) \<and>
      Q \<and> v = w" for Q w
    by (cases ?mul) (auto simp: rbind_eq_Ok ok_or_eq_Ok split: if_splits)
  then show ?thesis
    using True g z by (simp add: validate_contents_eq [OF h]) blast
qed

lemma validate_Ok_iff:
  "validate b e topology = Ok v \<longleftrightarrow>
     (\<exists>h. header_expected h e \<and> quiescent_mapping b h \<and> region_geometry h \<and>
        length b \<le> unat (exp_maximum_mapping_size e) \<and>
        map_option rl_header (RegionSetLayout_region topology (exp_role e)) = Some h \<and>
        v = validated_of b h topology)"
  (is "?L \<longleftrightarrow> ?R")
proof
  assume L: ?L
  have l: "length b \<ge> 128" "exp_generation e \<noteq> 0"
    using L by (auto simp: validate_def REGION_HEADER_SIZE_def split: if_splits)
  have p: "(slice b 0 128 :: (bytes, LayoutError) result) = Ok (read_at b 0 128)" "length (read_at b 0 128) = 128"
    using l by (simp_all add: slice_def)
  obtain h where h: "validate_header_encoding (read_at b 0 128) = Ok ()"
    "decode_header (read_at b 0 128) = Ok h" "validate_header h (length b) e = Ok ()"
    "map_option rl_header (RegionSetLayout_region topology (exp_role e)) = Some h"
    "validate_contents b h topology = Ok v"
    using L l p by (auto simp: validate_def REGION_HEADER_SIZE_def rbind_eq_Ok split: if_splits)
  note s = decode_header_sound [OF p(2) h(1,2)]
  note hv = h(3) [unfolded validate_header_Ok]
  show ?R
    using s hv h(4,5) l validate_contents_Ok [of h b topology v]
    by (intro exI [of _ h]) (simp add: header_expected_def quiescent_mapping_def)
next
  assume ?R
  then obtain h where h: "header_expected h e" "quiescent_mapping b h" "region_geometry h"
    "length b \<le> unat (exp_maximum_mapping_size e)"
    "map_option rl_header (RegionSetLayout_region topology (exp_role e)) = Some h"
    "v = validated_of b h topology" by blast
  have l: "length b \<ge> 128"
    using h(2,3) by (simp add: quiescent_mapping_def region_geometry_def total_nat_def slots_offset_nat_def)
  have "validate_header h (length b) e = Ok ()"
    using h by (simp add: validate_header_Ok header_expected_def quiescent_mapping_def region_geometry_def)
  moreover have "validate_contents b h topology = Ok v"
    using h validate_contents_Ok [of h b topology v]
    by (simp add: quiescent_mapping_def region_geometry_def)
  moreover have "(slice b 0 128 :: (bytes, LayoutError) result) = Ok (header_bytes h)"
    using h(2) l by (simp add: slice_def quiescent_mapping_def)
  ultimately show ?L
    using h(1,2,5) l decode_header_bytes [of h]
    by (simp add: validate_def REGION_HEADER_SIZE_def header_expected_def quiescent_mapping_def)
qed

lemma validate_no_panic: "validate b e topology \<noteq> Panic"
proof (cases "length b < 128 \<or> exp_generation e = 0")
  case True
  then show ?thesis by (auto simp: validate_def REGION_HEADER_SIZE_def)
next
  case False
  then have p: "(slice b 0 128 :: (bytes, LayoutError) result) = Ok (read_at b 0 128)" "length (read_at b 0 128) = 128"
    by (simp_all add: slice_def)
  have "validate_contents b h topology \<noteq> Panic" if "validate_header h (length b) e = Ok ()" for h
    using that validate_contents_eq [of h b topology]
    by (simp add: validate_header_Ok outcome)
  then show ?thesis
    using False p header_no_panic [OF p(2)] validate_header_no_panic
    by (auto simp: validate_def REGION_HEADER_SIZE_def rbind_eq_Panic)
qed

section \<open>Ranges of a validated region\<close>

definition layout_ok :: "ValidatedRegionLayout \<Rightarrow> bool" where
  "layout_ok v \<longleftrightarrow>
     region_geometry (vl_header v) \<and>
     vl_acknowledgements v = (128, slots_offset_nat (spec_of (vl_header v))) \<and>
     vl_slots v = (slots_offset_nat (spec_of (vl_header v)), unat (hdr_total_size (vl_header v))) \<and>
     unat (hdr_total_size (vl_header v)) \<le> vl_mapping_size v"

lemma validate_layout_ok: "validate b e topology = Ok v \<Longrightarrow> layout_ok v"
  by (auto simp: validate_Ok_iff layout_ok_def validated_of_def quiescent_mapping_def)

abbreviation slot_begin :: "ValidatedRegionLayout \<Rightarrow> u32 \<Rightarrow> nat" where
  "slot_begin v k \<equiv> slot_start (vl_header v) (unat k)"

lemma slot_range_eq:
  assumes "layout_ok v"
  shows "slot_range v k =
    (if k < hdr_slot_count (vl_header v)
     then Ok (slot_begin v k, slot_begin v k + stride_nat (spec_of (vl_header v)))
     else Err (SlotOutOfBounds k (hdr_slot_count (vl_header v))))"
proof (cases "k < hdr_slot_count (vl_header v)")
  case True
  let ?h = "vl_header v"
  have g: "region_geometry ?h" using assms by (simp add: layout_ok_def)
  have k: "unat k < unat (hdr_slot_count ?h)" using True by (simp add: word_less_nat_alt)
  have st: "unat (hdr_slot_stride ?h) = stride_nat (spec_of ?h)"
    using g by (simp add: region_geometry_def)
  have b: "slot_begin v k + stride_nat (spec_of ?h) \<le> usize_max"
    using slot_start_bound [OF g k] unat_u64_usize [of "hdr_total_size ?h"] by (rule le_trans)
  then have "slots_offset_nat (spec_of ?h) + unat k * stride_nat (spec_of ?h) \<le> usize_max"
    "unat k * stride_nat (spec_of ?h) \<le> usize_max"
    by (simp_all add: slot_start_def)
  then show ?thesis
    using True b assms
    by (simp add: slot_range_def layout_ok_def st wire checked_add_usize_def slot_start_def not_le)
next
  case False
  then show ?thesis by (simp add: slot_range_def not_less)
qed

lemma acknowledgement_range_eq:
  assumes "layout_ok v"
  shows "acknowledgement_range v i =
    (if i < hdr_acknowledgement_count (vl_header v) then Ok (128 + 64 * unat i, 192 + 64 * unat i)
     else Err (AcknowledgementOutOfBounds i (hdr_acknowledgement_count (vl_header v))))"
proof -
  have "unat i < 2 ^ 32" using unat_lt_pow [of i] by simp
  then have "192 + 64 * unat i \<le> usize_max" by (simp add: usize_max_def)
  then show ?thesis
    using assms
    by (simp add: acknowledgement_range_def layout_ok_def region_geometry_def wire
        checked_add_usize_def mult.commute not_le not_less)
qed

lemma slot_payload_range_eq:
  assumes "layout_ok v"
  shows "slot_payload_range v k n =
    (if n > hdr_payload_capacity (vl_header v)
     then Err (PayloadOutOfBounds n (hdr_payload_capacity (vl_header v)))
     else if k < hdr_slot_count (vl_header v)
     then Ok (slot_begin v k + 64, slot_begin v k + 64 + unat n)
     else Err (SlotOutOfBounds k (hdr_slot_count (vl_header v))))"
proof (cases "n \<le> hdr_payload_capacity (vl_header v) \<and> k < hdr_slot_count (vl_header v)")
  case True
  let ?h = "vl_header v"
  have g: "region_geometry ?h" using assms by (simp add: layout_ok_def)
  have k: "unat k < unat (hdr_slot_count ?h)" using True by (simp add: word_less_nat_alt)
  have "unat n \<le> unat (hdr_payload_capacity ?h)" using True by (simp add: word_le_nat_alt)
  also have "unat (hdr_payload_capacity ?h) \<le> 64 * ((unat (hdr_payload_capacity ?h) + 63) div 64)"
    by presburger
  finally have n: "slot_begin v k + 64 + unat n \<le> slot_begin v k + stride_nat (spec_of ?h)"
    by (simp add: stride_nat_def)
  have "slot_begin v k + stride_nat (spec_of ?h) \<le> usize_max"
    using slot_start_bound [OF g k] unat_u64_usize [of "hdr_total_size ?h"] by (rule le_trans)
  then show ?thesis
    using True n
    by (simp add: slot_payload_range_def slot_range_eq [OF assms] checked_add_usize_def
        SLOT_HEADER_SIZE_def not_less)
next
  case False
  then show ?thesis
    by (auto simp: slot_payload_range_def slot_range_eq [OF assms] not_less not_le)
qed

text \<open>The records of a region do not overlap.\<close>

definition disjoint_ranges :: "Range \<Rightarrow> Range \<Rightarrow> bool" where
  "disjoint_ranges r q \<longleftrightarrow> snd r \<le> fst q \<or> snd q \<le> fst r"

lemma slot_start_step:
  assumes "j < k"
  shows "slot_start h j + stride_nat (spec_of h) \<le> slot_start h k"
proof -
  have "Suc j * stride_nat (spec_of h) \<le> k * stride_nat (spec_of h)"
    using assms by (intro mult_le_mono1) simp
  then show ?thesis by (simp add: slot_start_def)
qed

lemma slot_ranges_disjoint:
  assumes "layout_ok v" "slot_range v j = Ok r" "slot_range v k = Ok q" "j \<noteq> k"
  shows "disjoint_ranges r q"
proof -
  have "unat j < unat k \<or> unat k < unat j"
    using assms(4) by (simp add: word_unat_eq_iff neq_iff)
  then show ?thesis
    using assms(2,3) slot_start_step [of "unat j" "unat k" "vl_header v"]
      slot_start_step [of "unat k" "unat j" "vl_header v"]
    by (auto simp: slot_range_eq [OF assms(1)] disjoint_ranges_def split: if_splits)
qed

lemma slot_range_bounds:
  assumes "layout_ok v" "slot_range v k = Ok r"
  shows "slots_offset_nat (spec_of (vl_header v)) \<le> fst r" "snd r \<le> vl_mapping_size v"
    "fst r + 64 \<le> snd r" "fst r mod 64 = 0"
proof -
  have g: "region_geometry (vl_header v)" using assms(1) by (simp add: layout_ok_def)
  have k: "k < hdr_slot_count (vl_header v)"
    and r: "r = (slot_begin v k, slot_begin v k + stride_nat (spec_of (vl_header v)))"
    using assms(2) by (auto simp: slot_range_eq [OF assms(1)] split: if_splits)
  show "slots_offset_nat (spec_of (vl_header v)) \<le> fst r" by (simp add: r slot_start_def)
  show "snd r \<le> vl_mapping_size v"
    using slot_start_bound [OF g] k assms(1) unfolding r layout_ok_def
    by (simp add: word_less_nat_alt) (metis le_trans)
  show "fst r + 64 \<le> snd r" using stride_nat_ge [of "spec_of (vl_header v)"] by (simp add: r)
  have "slot_begin v k = 64 * (2 + unat (hdr_acknowledgement_count (vl_header v)) +
      unat k * (1 + (unat (hdr_payload_capacity (vl_header v)) + 63) div 64))"
    by (simp add: slot_start_def slots_offset_nat_def stride_nat_def algebra_simps)
  then show "fst r mod 64 = 0" by (simp add: r)
qed

lemma acknowledgement_range_bounds:
  assumes "layout_ok v" "acknowledgement_range v i = Ok r"
  shows "128 \<le> fst r" "snd r = fst r + 64" "snd r \<le> slots_offset_nat (spec_of (vl_header v))"
    "snd r \<le> vl_mapping_size v" "fst r mod 64 = 0"
proof -
  have i: "i < hdr_acknowledgement_count (vl_header v)" and r: "r = (128 + 64 * unat i, 192 + 64 * unat i)"
    using assms(2) by (auto simp: acknowledgement_range_eq [OF assms(1)] split: if_splits)
  show "128 \<le> fst r" "snd r = fst r + 64" "fst r mod 64 = 0" by (simp_all add: r)
  show s: "snd r \<le> slots_offset_nat (spec_of (vl_header v))"
    using i by (simp add: r slots_offset_nat_def word_less_nat_alt)
  have "slots_offset_nat (spec_of (vl_header v)) \<le> vl_mapping_size v"
    using assms(1) by (simp add: layout_ok_def region_geometry_def total_nat_def)
  then show "snd r \<le> vl_mapping_size v" using s by simp
qed

section \<open>Initialisation\<close>

definition init_slot :: "RegionHeader \<Rightarrow> usize \<Rightarrow> bytes \<Rightarrow> (bytes, LayoutError) result" where
  "init_slot h slot d =
     rbind (mul_usize slot (unat (hdr_slot_stride h))) (\<lambda>offset.
     rbind (add_usize (unat (hdr_slots_offset h)) offset) (\<lambda>start.
       put_u64 d start (hdr_generation h)))"

lemma init_slot_ok:
  assumes g: "region_geometry h" and k: "k < unat (hdr_slot_count h)"
    and l: "unat (hdr_total_size h) \<le> length d"
  shows "init_slot h k d = Ok (write_at d (slot_start h k) (to_le_bytes 8 (hdr_generation h)))"
    "slot_start h k + 64 \<le> length d"
proof -
  show s: "slot_start h k + 64 \<le> length d"
    using slot_start_bound [OF g k] stride_nat_ge [of "spec_of h"] l by simp
  have u: "slots_offset_nat (spec_of h) + k * stride_nat (spec_of h) \<le> usize_max"
    using slot_start_bound [OF g k] unat_u64_usize [of "hdr_total_size h"]
    by (simp add: slot_start_def del: unat_u64_usize)
  then have "k * stride_nat (spec_of h) \<le> usize_max" by simp
  then show "init_slot h k d = Ok (write_at d (slot_start h k) (to_le_bytes 8 (hdr_generation h)))"
    using u s g by (simp add: init_slot_def region_geometry_def wire slot_start_def)
qed

lemma init_slots:
  assumes g: "region_geometry h" and n: "n \<le> unat (hdr_slot_count h)"
    and l: "unat (hdr_total_size h) \<le> length d"
  shows "\<exists>d'. for_each (init_slot h) [0..<n] d = Ok d' \<and> length d' = length d \<and>
    (\<forall>k < n. read_at d' (slot_start h k) 8 = to_le_bytes 8 (hdr_generation h)) \<and>
    (\<forall>j m. (\<forall>k < n. j + m \<le> slot_start h k \<or> slot_start h k + 8 \<le> j) \<longrightarrow>
       read_at d' j m = read_at d j m)"
  using n
proof (induction n)
  case 0
  then show ?case by simp
next
  case (Suc n)
  then obtain d' where d: "for_each (init_slot h) [0..<n] d = Ok d'" "length d' = length d"
    "\<forall>k < n. read_at d' (slot_start h k) 8 = to_le_bytes 8 (hdr_generation h)"
    "\<forall>j m. (\<forall>k < n. j + m \<le> slot_start h k \<or> slot_start h k + 8 \<le> j) \<longrightarrow>
       read_at d' j m = read_at d j m" by auto
  have n': "n < unat (hdr_slot_count h)" using Suc.prems by simp
  let ?d = "write_at d' (slot_start h n) (to_le_bytes 8 (hdr_generation h))"
  have i: "init_slot h n d' = Ok ?d" "slot_start h n + 64 \<le> length d'"
    using init_slot_ok [OF g n'] l d(2) by simp_all
  have older: "read_at ?d (slot_start h k) 8 = read_at d' (slot_start h k) 8" if "k < n" for k
    using slot_start_step [OF that, of h] stride_nat_ge [of "spec_of h"] i(2)
    by (intro read_write_below) simp_all
  have outside: "read_at ?d j m = read_at d' j m"
    if "j + m \<le> slot_start h n \<or> slot_start h n + 8 \<le> j" for j m
    using that i(2) by (auto intro: read_write_below read_write_above)
  show ?case
  proof (intro exI conjI allI impI)
    show "for_each (init_slot h) [0..<Suc n] d = Ok ?d" using d(1) i(1) by (simp add: for_each_append)
    show "length ?d = length d" using i(2) d(2) by simp
    show "read_at ?d (slot_start h k) 8 = to_le_bytes 8 (hdr_generation h)" if "k < Suc n" for k
      using that older d(3) i(2) by (cases "k = n") (simp_all add: read_write_same)
    show "read_at ?d j m = read_at d j m"
      if "\<forall>k < Suc n. j + m \<le> slot_start h k \<or> slot_start h k + 8 \<le> j" for j m
      using that d(4) outside by simp
  qed
qed

lemma encode_into_eq:
  assumes g: "region_geometry (rl_header r)" and s: "length (hdr_schema_id (rl_header r)) = 32"
    and l: "unat (hdr_total_size (rl_header r)) \<le> length d"
  shows "encode_into r d =
    for_each (init_slot (rl_header r)) [0..<unat (hdr_slot_count (rl_header r))]
      (write_at (write_at d 0 (replicate (unat (hdr_total_size (rl_header r))) 0)) 0
        (header_bytes (rl_header r)))"
proof -
  let ?h = "rl_header r" and ?n = "unat (hdr_total_size (rl_header r))"
  have n: "128 \<le> ?n"
    using g by (simp add: region_geometry_def total_nat_def slots_offset_nat_def)
  have f: "(fill d 0 ?n 0 :: (bytes, LayoutError) result) = Ok (write_at d 0 (replicate ?n 0))"
    using l by (simp add: wire)
  have "(slice (write_at d 0 (replicate ?n 0)) 0 128 :: (bytes, LayoutError) result) =
      Ok (read_at (write_at d 0 (replicate ?n 0)) 0 128)"
    "length (read_at (write_at d 0 (replicate ?n 0)) 0 128) = 128"
    using n l by (simp_all add: slice_def)
  then show ?thesis
    using l s f encode_header_canonical [of _ ?h]
    by (simp add: encode_into_def REGION_HEADER_SIZE_def init_slot_def [abs_def] Let_def)
qed

lemma encode_into_quiescent:
  assumes g: "region_geometry (rl_header r)" and s: "length (hdr_schema_id (rl_header r)) = 32"
    and l: "unat (hdr_total_size (rl_header r)) \<le> length d"
    and z: "drop (unat (hdr_total_size (rl_header r))) d =
      replicate (length d - unat (hdr_total_size (rl_header r))) 0"
  shows "\<exists>b. encode_into r d = Ok b \<and> length b = length d \<and> quiescent_mapping b (rl_header r)"
proof -
  let ?h = "rl_header r" and ?n = "unat (hdr_total_size (rl_header r))"
  let ?z = "write_at d 0 (replicate ?n 0)"
  let ?d = "write_at ?z 0 (header_bytes ?h)"
  let ?a = "64 * unat (hdr_acknowledgement_count ?h)"
  have n: "128 + ?a \<le> ?n"
    using g by (simp add: region_geometry_def total_nat_def slots_offset_nat_def)
  have zl: "length ?z = length d" "length ?d = length d" using l n s by simp_all
  have all_zero: "?z = replicate (length d) 0"
    using l z by (simp add: write_at_def flip: replicate_add)
  obtain b where b: "for_each (init_slot ?h) [0..<unat (hdr_slot_count ?h)] ?d = Ok b"
    "length b = length ?d"
    "\<forall>k < unat (hdr_slot_count ?h). read_at b (slot_start ?h k) 8 = to_le_bytes 8 (hdr_generation ?h)"
    "\<forall>j m. (\<forall>k < unat (hdr_slot_count ?h). j + m \<le> slot_start ?h k \<or> slot_start ?h k + 8 \<le> j) \<longrightarrow>
       read_at b j m = read_at ?d j m"
    using init_slots [OF g le_refl, of ?d] l zl by auto
  have zero: "read_at ?d j m = replicate m 0" if "128 \<le> j" "j + m \<le> length d" for j m
    using that s l n by (simp add: read_write_above all_zero) (simp add: read_at_def)
  have low: "128 + ?a \<le> slot_start ?h k" "128 \<le> slot_start ?h k" for k
    by (simp_all add: slot_start_def slots_offset_nat_def)
  have frame: "read_at b j m = read_at ?d j m"
    if "\<And>k. k < unat (hdr_slot_count ?h) \<Longrightarrow> j + m \<le> slot_start ?h k \<or> slot_start ?h k + 8 \<le> j" for j m
    using that b(4) by blast
  have "read_at b 0 128 = header_bytes ?h"
    using frame [of 0 128] low(2) s l n by (simp add: read_write_same)
  moreover have "read_at b 128 ?a = replicate ?a 0"
    using frame [of 128 ?a] low(1) zero [of 128 ?a] l n by simp
  moreover have "slot_initialised b ?h k" if k: "k < unat (hdr_slot_count ?h)" for k
  proof -
    have "slot_start ?h k + 8 + 56 \<le> slot_start ?h i \<or> slot_start ?h i + 8 \<le> slot_start ?h k + 8" for i
      using slot_start_step [of k i ?h] slot_start_step [of i k ?h] stride_nat_ge [of "spec_of ?h"]
      by (cases i k rule: linorder_cases) auto
    then have "read_at b (slot_start ?h k + 8) 56 = read_at ?d (slot_start ?h k + 8) 56"
      by (intro frame) blast
    then show ?thesis
      using zero [of "slot_start ?h k + 8" 56] low(2) [of k] init_slot_ok(2) [OF g k l] b(3) k
      by (simp add: slot_initialised_def)
  qed
  moreover have "read_at b ?n (length d - ?n) = read_at ?d ?n (length d - ?n)"
  proof (intro frame disjI2)
    fix k assume "k < unat (hdr_slot_count ?h)"
    from slot_start_bound [OF g this] stride_nat_ge [of "spec_of ?h"]
    show "slot_start ?h k + 8 \<le> ?n" by simp
  qed
  then have "drop ?n b = replicate (length d - ?n) 0"
    using zero [of ?n "length d - ?n"] n l b(2) zl(2) read_at_rest [of b ?n] by simp
  ultimately show ?thesis
    using encode_into_eq [OF g s l] b(1,2) zl(2) s l by (simp add: quiescent_mapping_def)
qed

end
