(* ===== verification/Layout_Routes.thy ===== *)
theory Layout_Routes
  imports Layout_Correct
begin

text \<open>
  Composed topologies: what \<^verbatim>\<open>RegionSetLayout::calculate\<close> returns, its acknowledgement routes as a
  bijection between producer slots and acknowledgement cells, and the binary search that looks a
  route up.
\<close>

section \<open>Binary search\<close>

lemma binary_search_loop_correct:
  assumes "sorted ks" "\<And>i. i < length ks \<Longrightarrow> key_at i = Ok (ks ! i)"
    and "0 < len" "base + len \<le> length ks" "base = 0 \<or> ks ! base \<le> key"
    and "\<And>j. base + len \<le> j \<Longrightarrow> j < length ks \<Longrightarrow> key < ks ! j"
  shows "\<exists>p. binary_search_loop key_at key base len = Ok p \<and> p < length ks \<and>
    (p = 0 \<or> ks ! p \<le> key) \<and> (\<forall>j. p < j \<and> j < length ks \<longrightarrow> key < ks ! j)"
  using assms(3-)
proof (induction len arbitrary: base rule: less_induct)
  case (less len)
  show ?case
  proof (cases "len \<le> 1")
    case True
    then have "len = 1" using less.prems(1) by simp
    then show ?thesis
      using less.prems by (intro exI [of _ base]) (auto simp: binary_search_loop.simps)
  next
    case False
    let ?half = "len div 2"
    let ?mid = "base + ?half"
    let ?base = "if ks ! ?mid > key then base else ?mid"
    have h: "0 < ?half" "?half < len" "?mid < length ks" using False less.prems by auto
    have up: "key < ks ! j" if "?base + (len - ?half) \<le> j" "j < length ks" for j
    proof (cases "ks ! ?mid > key")
      case True
      moreover have "?mid \<le> j" using that True h by simp
      ultimately show ?thesis
        using sorted_nth_mono [OF assms(1) _ that(2), of ?mid] by (simp add: less_le_trans)
    next
      case False
      then show ?thesis using that less.prems(4) [of j] h by simp
    qed
    have "?base + (len - ?half) \<le> length ks"
      using h less.prems(2) by (cases "ks ! ?mid > key"; simp; arith)
    moreover have "?base = 0 \<or> ks ! ?base \<le> key" using less.prems(3) by (simp add: not_less)
    ultimately have "\<exists>p. binary_search_loop key_at key ?base (len - ?half) = Ok p \<and> p < length ks \<and>
        (p = 0 \<or> ks ! p \<le> key) \<and> (\<forall>j. p < j \<and> j < length ks \<longrightarrow> key < ks ! j)"
      using h by (intro less.IH up) simp_all
    moreover have "binary_search_loop key_at key base len =
        binary_search_loop key_at key ?base (len - ?half)"
      using False assms(2) [OF h(3)] by (subst binary_search_loop.simps) (simp add: Let_def)
    ultimately show ?thesis by simp
  qed
qed

lemma binary_search_correct:
  assumes "sorted ks" "\<And>i. i < length ks \<Longrightarrow> key_at i = Ok (ks ! i)" "n = length ks"
  shows "if key \<in> set ks
    then \<exists>p < length ks. ks ! p = key \<and> binary_search_by_key key_at n key = Ok (Some p)
    else binary_search_by_key key_at n key = Ok None"
proof (cases "ks = []")
  case True
  then show ?thesis using assms(3) by (simp add: binary_search_by_key_def)
next
  case False
  obtain p where p: "binary_search_loop key_at key 0 (length ks) = Ok p" "p < length ks"
    "p = 0 \<or> ks ! p \<le> key" "\<forall>j. p < j \<and> j < length ks \<longrightarrow> key < ks ! j"
    using binary_search_loop_correct [OF assms(1,2), of "length ks" 0 key] False by auto
  have r: "binary_search_by_key key_at n key = Ok (if ks ! p = key then Some p else None)"
    using False assms(2) [OF p(2)] p(1) assms(3) by (simp add: binary_search_by_key_def)
  have "ks ! p = key" if "key \<in> set ks"
  proof -
    from that obtain j where j: "j < length ks" "ks ! j = key" by (auto simp: in_set_conv_nth)
    then have "j \<le> p" using p(4) by (meson not_le order_less_irrefl)
    then have "key \<le> ks ! p" using sorted_nth_mono [OF assms(1) _ p(2), of j] j by simp
    then show ?thesis using p(3) j \<open>j \<le> p\<close> by (cases "p = 0") auto
  qed
  then show ?thesis using r p(2) by auto
qed

section \<open>Composed regions\<close>

definition region_of :: "bytes \<Rightarrow> u64 \<Rightarrow> RegionSpec \<Rightarrow> RegionLayout" where
  "region_of schema_id generation spec = \<lparr>rl_header = region_header_of schema_id generation spec\<rparr>"

lemma region_of_sel [simp]:
  "RegionLayout_role (region_of sch g spec) = spec_role spec"
  "RegionLayout_writer (region_of sch g spec) = Ok (spec_writer spec)"
  "hdr_slot_count (rl_header (region_of sch g spec)) = spec_slot_count spec"
  "hdr_acknowledgement_count (rl_header (region_of sch g spec)) = spec_acknowledgement_count spec"
  by (simp_all add: region_of_def region_header_of_def RegionLayout_role_def RegionLayout_writer_def
      Endpoint_from_raw_def split: Endpoint.split) (cases "spec_writer spec"; simp)

lemma region_of_geometry:
  assumes "spec_fits spec limits"
  shows "region_geometry (region_header_of sch g spec)"
proof -
  have s: "slots_offset_nat (spec_of (region_header_of sch g spec)) = slots_offset_nat spec"
    "stride_nat (spec_of (region_header_of sch g spec)) = stride_nat spec"
    "total_nat (spec_of (region_header_of sch g spec)) = total_nat spec"
    by (simp_all add: slots_offset_nat_def stride_nat_def total_nat_def spec_of_def region_header_of_def)
  have "total_nat spec < 2 ^ 64"
    using assms unat_lt_pow [of "maximum_mapping_size limits"] by (simp add: spec_fits_def)
  moreover have "unat (word_of_nat (stride_nat spec) :: u32) = stride_nat spec"
    using assms by (intro unat_word_of_nat_id) (simp add: spec_fits_def)
  ultimately show ?thesis
    using assms s
    by (simp add: region_geometry_def spec_fits_def region_header_of_def unat_u64_of_nat
        unat_slots_offset)
qed

lemma calculate_regions_Ok:
  "calculate_regions sch g limits prior specs = Ok regions \<longleftrightarrow>
     regions = map (region_of sch g) specs \<and> (\<forall>spec \<in> set specs. spec_fits spec limits) \<and>
     distinct (map spec_role specs) \<and> spec_role ` set specs \<inter> spec_role ` set prior = {}"
proof (induction sch g limits prior specs arbitrary: regions rule: calculate_regions.induct)
  case (2 sch g limits prior spec specs)
  let ?calc = "RegionLayout_calculate sch g spec limits"
  consider (dup) "list_ex (\<lambda>p. spec_role p = spec_role spec) prior"
    | (bad) "\<not> list_ex (\<lambda>p. spec_role p = spec_role spec) prior" "\<not> spec_fits spec limits"
    | (fine) "\<not> list_ex (\<lambda>p. spec_role p = spec_role spec) prior" "spec_fits spec limits" by blast
  then show ?case
  proof cases
    case dup
    then obtain p where "p \<in> set prior" "spec_role p = spec_role spec"
      unfolding list_ex_iff by blast
    then have "spec_role spec \<in> spec_role ` set prior" by (metis image_eqI)
    then show ?thesis using dup by auto
  next
    case bad
    then have "?calc \<noteq> Ok r" for r by (simp add: RegionLayout_calculate_Ok)
    then show ?thesis using bad by (simp add: rbind_eq_Ok)
  next
    case fine
    have c: "?calc = Ok (region_of sch g spec)"
      using fine by (simp add: RegionLayout_calculate_Ok region_of_def)
    have d: "spec_role spec \<notin> spec_role ` set prior" using fine(1) by (auto simp: list_ex_iff)
    have IH: "calculate_regions sch g limits (prior @ [spec]) specs = Ok rs \<longleftrightarrow>
        rs = map (region_of sch g) specs \<and> (\<forall>spec \<in> set specs. spec_fits spec limits) \<and>
        distinct (map spec_role specs) \<and> spec_role ` set specs \<inter> spec_role ` set (prior @ [spec]) = {}"
      for rs
      by (rule 2 [OF fine(1)])
    have "calculate_regions sch g limits prior (spec # specs) = Ok regions \<longleftrightarrow>
        (\<exists>rs. calculate_regions sch g limits (prior @ [spec]) specs = Ok rs \<and>
          regions = region_of sch g spec # rs)"
      using fine(1) by (auto simp: c rbind_eq_Ok)
    then show ?thesis using fine(2) d unfolding IH by auto
  qed
qed auto

section \<open>Routes\<close>

definition route_of :: "AcknowledgementRouteSpec \<Rightarrow> AcknowledgementRoute" where
  "route_of spec =
     AcknowledgementRoute_validated (rs_owner spec) (rs_target spec) (rs_slot_index spec)
       (rs_cell_index spec)"

definition valid_route :: "RegionLayout list \<Rightarrow> AcknowledgementRoute \<Rightarrow> bool" where
  "valid_route regions route \<longleftrightarrow>
     (\<exists>owner \<in> set regions. \<exists>target \<in> set regions.
        RegionLayout_role owner = rt_owner route \<and> RegionLayout_role target = rt_target route \<and>
        RegionLayout_writer owner \<noteq> RegionLayout_writer target \<and>
        rt_slot_index route < hdr_slot_count (rl_header target) \<and>
        rt_cell_index route < hdr_acknowledgement_count (rl_header owner))"

definition slot_key :: "AcknowledgementRoute \<Rightarrow> RoleId \<times> nat" where
  "slot_key route = (rt_target route, unat (rt_slot_index route))"

definition cell_key :: "AcknowledgementRoute \<Rightarrow> RoleId \<times> nat" where
  "cell_key route = (rt_owner route, unat (rt_cell_index route))"

definition routes_ok :: "RegionLayout list \<Rightarrow> AcknowledgementRoute list \<Rightarrow> bool" where
  "routes_ok regions routes \<longleftrightarrow>
     (\<forall>route \<in> set routes. valid_route regions route) \<and>
     distinct (map slot_key routes) \<and> distinct (map cell_key routes)"

lemma find_member: "List.find P xs = Some x \<Longrightarrow> x \<in> set xs \<and> P x"
  by (auto simp: find_Some_iff)

lemma find_unique:
  "distinct (map f xs) \<Longrightarrow> x \<in> set xs \<Longrightarrow> f x = y \<Longrightarrow> List.find (\<lambda>z. f z = y) xs = Some x"
  by (induction xs) auto

lemma validate_route_Ok:
  assumes "validate_route regions spec routes = Ok routes'"
  shows "routes' = routes @ [route_of spec]" "routes_ok regions routes \<Longrightarrow> routes_ok regions routes'"
proof -
  obtain owner target where o: "owner \<in> set regions" "RegionLayout_role owner = rs_owner spec"
    "target \<in> set regions" "RegionLayout_role target = rs_target spec"
    "RegionLayout_writer owner \<noteq> RegionLayout_writer target"
    "rs_slot_index spec < hdr_slot_count (rl_header target)"
    "rs_cell_index spec < hdr_acknowledgement_count (rl_header owner)"
    and n: "\<not> list_ex (\<lambda>route.
           (rt_target route = rs_target spec \<and> rt_slot_index route = rs_slot_index spec) \<or>
           (rt_owner route = rs_owner spec \<and> rt_cell_index route = rs_cell_index spec)) routes"
    and r: "routes' = routes @ [route_of spec]"
    using assms
    by (auto simp: validate_route_def rbind_eq_Ok ok_or_eq_Ok route_of_def not_le
        dest!: find_member split: if_splits)
  show "routes' = routes @ [route_of spec]" by (rule r)
  have "slot_key (route_of spec) \<notin> slot_key ` set routes" "cell_key (route_of spec) \<notin> cell_key ` set routes"
    using n
    by (auto simp: list_ex_iff slot_key_def cell_key_def route_of_def AcknowledgementRoute_validated_def
        word_unat_eq_iff)
  moreover have "valid_route regions (route_of spec)"
    using o by (auto simp: valid_route_def route_of_def AcknowledgementRoute_validated_def)
  ultimately show "routes_ok regions routes \<Longrightarrow> routes_ok regions routes'"
    by (simp add: routes_ok_def r)
qed

lemma validate_route_loop:
  assumes "for_each (validate_route regions) specs acc = Ok routes" "routes_ok regions acc"
  shows "routes = acc @ map route_of specs \<and> routes_ok regions routes"
  using assms
proof (induction specs arbitrary: acc)
  case (Cons spec specs)
  then obtain acc' where a: "validate_route regions spec acc = Ok acc'"
    "for_each (validate_route regions) specs acc' = Ok routes" by (auto simp: rbind_eq_Ok)
  show ?case
    using Cons.IH [OF a(2)] validate_route_Ok [OF a(1)] Cons.prems(2) by auto
qed simp

lemma sum_loop:
  "for_each (\<lambda>region sum. ok_or LayoutError.Overflow (checked_add_usize sum (f region))) regions s = Ok t \<Longrightarrow>
     t = s + sum_list (map f regions)"
proof (induction regions arbitrary: s)
  case (Cons r regions)
  then show ?case
    by (auto simp: rbind_eq_Ok ok_or_eq_Ok checked_add_usize_Some dest!: Cons.IH)
qed simp

lemma validate_routes_Ok:
  assumes "validate_routes alloc regions specs = Ok routes"
  shows "routes = map route_of specs" "routes_ok regions routes"
    "length routes = sum_list (map (\<lambda>r. unat (hdr_slot_count (rl_header r))) regions)"
    "length routes = sum_list (map (\<lambda>r. unat (hdr_acknowledgement_count (rl_header r))) regions)"
proof -
  obtain s c where l: "length specs = s" "length specs = c"
    "for_each (\<lambda>region sum. ok_or LayoutError.Overflow
       (checked_add_usize sum (unat (hdr_slot_count (rl_header region))))) regions 0 = Ok s"
    "for_each (\<lambda>region sum. ok_or LayoutError.Overflow
       (checked_add_usize sum (unat (hdr_acknowledgement_count (rl_header region))))) regions 0 = Ok c"
    "for_each (validate_route regions) specs [] = Ok routes"
    using assms by (auto simp: validate_routes_def rbind_eq_Ok split: if_splits)
  have r: "routes = map route_of specs" "routes_ok regions routes"
    using validate_route_loop [OF l(5)] by (auto simp: routes_ok_def [of _ "[]"])
  show "routes = map route_of specs" "routes_ok regions routes" by (rule r)+
  show "length routes = sum_list (map (\<lambda>r. unat (hdr_slot_count (rl_header r))) regions)"
    "length routes = sum_list (map (\<lambda>r. unat (hdr_acknowledgement_count (rl_header r))) regions)"
    using sum_loop [OF l(3)] sum_loop [OF l(4)] l(1,2) r(1) by simp_all
qed

section \<open>Routes as a bijection\<close>

lemma key_cover:
  assumes "distinct (map role regions)" "distinct (map f routes)"
    and S: "S = (\<Union>r \<in> set regions. {role r} \<times> {..<cnt r :: nat})" and "f ` set routes \<subseteq> S"
    and "length routes = sum_list (map cnt regions)"
  shows "f ` set routes = S"
proof (rule card_subset_eq)
  show "finite S" by (simp add: S)
  show "f ` set routes \<subseteq> S" by (rule assms(4))
  have "distinct regions" and inj: "inj_on role (set regions)"
    using assms(1) by (simp_all add: distinct_map)
  have "card S = (\<Sum>r \<in> set regions. card ({role r} \<times> {..<cnt r}))"
    unfolding S using inj by (intro card_UN_disjoint) (auto dest: inj_onD)
  also have "\<dots> = sum_list (map cnt regions)"
    using \<open>distinct regions\<close> by (simp add: card_cartesian_product sum_list_distinct_conv_sum_set)
  also have "\<dots> = card (f ` set routes)"
    using assms(2,5) distinct_card [of "map f routes"] by simp
  finally show "card (f ` set routes) = card S" by simp
qed

definition topology_ok :: "RegionSetLayout \<Rightarrow> bool" where
  "topology_ok t \<longleftrightarrow>
     distinct (map RegionLayout_role (set_regions t)) \<and> routes_ok (set_regions t) (set_routes t) \<and>
     length (set_routes t) = sum_list (map (\<lambda>r. unat (hdr_slot_count (rl_header r))) (set_regions t)) \<and>
     length (set_routes t) =
       sum_list (map (\<lambda>r. unat (hdr_acknowledgement_count (rl_header r))) (set_regions t)) \<and>
     set_route_lookup t =
       sort_key (\<lambda>index. route_key (set_routes t ! index)) [0..<length (set_routes t)]"

lemma calculate_topology_ok:
  assumes "RegionSetLayout_calculate alloc sch g specs route_specs limits = Ok t"
  shows "topology_ok t" "set_regions t = map (region_of sch g) specs"
    "\<And>spec. spec \<in> set specs \<Longrightarrow> spec_fits spec limits" "g \<noteq> 0" "distinct (map spec_role specs)"
proof -
  obtain regions where c: "calculate_regions sch g limits [] specs = Ok regions"
    "validate_routes alloc regions route_specs = Ok (set_routes t)" "set_regions t = regions"
    "build_route_lookup alloc (set_routes t) = Ok (set_route_lookup t)" and g: "g \<noteq> 0"
    using assms by (auto simp: RegionSetLayout_calculate_def rbind_eq_Ok split: if_splits)
  have r: "regions = map (region_of sch g) specs" "distinct (map spec_role specs)"
    "\<And>spec. spec \<in> set specs \<Longrightarrow> spec_fits spec limits"
    using c(1) by (simp_all add: calculate_regions_Ok)
  have "distinct (map RegionLayout_role regions)"
    using r(2) by (simp add: r(1) comp_def)
  then show "topology_ok t"
    using validate_routes_Ok [OF c(2)] c(3,4)
    by (simp add: topology_ok_def build_route_lookup_def split: if_splits)
  show "set_regions t = map (region_of sch g) specs" "g \<noteq> 0" "distinct (map spec_role specs)"
    "\<And>spec. spec \<in> set specs \<Longrightarrow> spec_fits spec limits"
    using r c(3) g by simp_all
qed

lemma slots_covered:
  assumes "topology_ok t"
  shows "slot_key ` set (set_routes t) =
    (\<Union>r \<in> set (set_regions t). {RegionLayout_role r} \<times> {..<unat (hdr_slot_count (rl_header r))})"
proof (rule key_cover [OF _ _ refl])
  show "slot_key ` set (set_routes t) \<subseteq>
    (\<Union>r \<in> set (set_regions t). {RegionLayout_role r} \<times> {..<unat (hdr_slot_count (rl_header r))})"
  proof (intro image_subsetI)
    fix route assume "route \<in> set (set_routes t)"
    then have "valid_route (set_regions t) route"
      using assms by (simp add: topology_ok_def routes_ok_def)
    then obtain r where "r \<in> set (set_regions t)" "RegionLayout_role r = rt_target route"
      "rt_slot_index route < hdr_slot_count (rl_header r)"
      unfolding valid_route_def by blast
    then show "slot_key route \<in> (\<Union>r \<in> set (set_regions t).
        {RegionLayout_role r} \<times> {..<unat (hdr_slot_count (rl_header r))})"
      by (intro UN_I [of r]) (simp_all add: slot_key_def word_less_nat_alt)
  qed
qed (use assms in \<open>simp_all add: topology_ok_def routes_ok_def\<close>)

lemma cells_covered:
  assumes "topology_ok t"
  shows "cell_key ` set (set_routes t) =
    (\<Union>r \<in> set (set_regions t).
       {RegionLayout_role r} \<times> {..<unat (hdr_acknowledgement_count (rl_header r))})"
proof (rule key_cover [OF _ _ refl])
  show "cell_key ` set (set_routes t) \<subseteq>
    (\<Union>r \<in> set (set_regions t).
       {RegionLayout_role r} \<times> {..<unat (hdr_acknowledgement_count (rl_header r))})"
  proof (intro image_subsetI)
    fix route assume "route \<in> set (set_routes t)"
    then have "valid_route (set_regions t) route"
      using assms by (simp add: topology_ok_def routes_ok_def)
    then obtain r where "r \<in> set (set_regions t)" "RegionLayout_role r = rt_owner route"
      "rt_cell_index route < hdr_acknowledgement_count (rl_header r)"
      unfolding valid_route_def by blast
    then show "cell_key route \<in> (\<Union>r \<in> set (set_regions t).
        {RegionLayout_role r} \<times> {..<unat (hdr_acknowledgement_count (rl_header r))})"
      by (intro UN_I [of r]) (simp_all add: cell_key_def word_less_nat_alt)
  qed
qed (use assms in \<open>simp_all add: topology_ok_def routes_ok_def\<close>)

lemma distinct_map_unique:
  assumes "distinct (map f xs)" "y \<in> f ` set xs"
  shows "\<exists>!x. x \<in> set xs \<and> f x = y"
  using assms by (auto simp: distinct_map inj_on_def)

lemma unique_slot_route:
  assumes "topology_ok t" "r \<in> set (set_regions t)" "k < hdr_slot_count (rl_header r)"
  shows "\<exists>!route. route \<in> set (set_routes t) \<and> rt_target route = RegionLayout_role r \<and>
    rt_slot_index route = k"
proof -
  have "(RegionLayout_role r, unat k) \<in> slot_key ` set (set_routes t)"
    using assms unfolding slots_covered [OF assms(1)] by (auto simp: word_less_nat_alt)
  from distinct_map_unique [OF _ this] assms(1) show ?thesis
    by (simp add: topology_ok_def routes_ok_def slot_key_def word_unat_eq_iff)
qed

lemma unique_cell_route:
  assumes "topology_ok t" "r \<in> set (set_regions t)" "c < hdr_acknowledgement_count (rl_header r)"
  shows "\<exists>!route. route \<in> set (set_routes t) \<and> rt_owner route = RegionLayout_role r \<and>
    rt_cell_index route = c"
proof -
  have "(RegionLayout_role r, unat c) \<in> cell_key ` set (set_routes t)"
    using assms unfolding cells_covered [OF assms(1)] by (auto simp: word_less_nat_alt)
  from distinct_map_unique [OF _ this] assms(1) show ?thesis
    by (simp add: topology_ok_def routes_ok_def cell_key_def word_unat_eq_iff)
qed

section \<open>Lookup\<close>

lemma route_lookup_sorted:
  assumes "topology_ok t"
  shows "sorted (map (\<lambda>i. route_key (set_routes t ! i)) (set_route_lookup t))"
    "set (set_route_lookup t) = {..<length (set_routes t)}"
  using assms by (auto simp: topology_ok_def)

lemma acknowledgement_route_eq:
  assumes ok: "topology_ok t"
  shows "acknowledgement_route t target slot =
    Ok (List.find (\<lambda>r. rt_target r = target \<and> rt_slot_index r = slot) (set_routes t))"
proof -
  let ?ks = "map (\<lambda>i. route_key (set_routes t ! i)) (set_route_lookup t)"
  let ?key = "(role_get target, slot)"
  note sorted = route_lookup_sorted [OF ok]
  have idx: "set_route_lookup t ! p < length (set_routes t)" if "p < length (set_route_lookup t)" for p
    using sorted(2) nth_mem [OF that] by auto
  have at: "route_at t p = Ok (set_routes t ! (set_route_lookup t ! p))"
    if "p < length (set_route_lookup t)" for p
    using that idx by (simp add: route_at_def)
  have key: "route_key r = ?key \<longleftrightarrow> rt_target r = target \<and> rt_slot_index r = slot" for r
    by (cases "rt_target r"; cases target) (auto simp: route_key_def)
  have keys: "set ?ks = route_key ` set (set_routes t)"
  proof -
    have "set (set_routes t) = (\<lambda>i. set_routes t ! i) ` {..<length (set_routes t)}"
      by (auto simp: in_set_conv_nth)
    then show ?thesis using sorted(2) by (simp add: image_image)
  qed
  have s: "if ?key \<in> set ?ks
    then \<exists>p < length ?ks. ?ks ! p = ?key \<and>
      binary_search_by_key (\<lambda>p. rbind (route_at t p) (\<lambda>r. Ok (route_key r)))
        (length (set_route_lookup t)) ?key = Ok (Some p)
    else binary_search_by_key (\<lambda>p. rbind (route_at t p) (\<lambda>r. Ok (route_key r)))
        (length (set_route_lookup t)) ?key = Ok None"
    by (rule binary_search_correct [OF sorted(1)]) (simp_all add: at)
  show ?thesis
  proof (cases "?key \<in> set ?ks")
    case True
    then obtain p where p: "p < length (set_route_lookup t)"
      "route_key (set_routes t ! (set_route_lookup t ! p)) = ?key"
      "binary_search_by_key (\<lambda>p. rbind (route_at t p) (\<lambda>r. Ok (route_key r)))
        (length (set_route_lookup t)) ?key = Ok (Some p)"
      using s by auto
    let ?r = "set_routes t ! (set_route_lookup t ! p)"
    have "List.find (\<lambda>r. rt_target r = target \<and> rt_slot_index r = slot) (set_routes t) = Some ?r"
    proof -
      have r: "?r \<in> set (set_routes t)" "rt_target ?r = target \<and> rt_slot_index ?r = slot"
        using idx [OF p(1)] p(2) key by auto
      then obtain q where q: "List.find (\<lambda>r. rt_target r = target \<and> rt_slot_index r = slot)
          (set_routes t) = Some q"
        by (cases "List.find (\<lambda>r. rt_target r = target \<and> rt_slot_index r = slot) (set_routes t)")
          (auto simp: find_None_iff)
      have "q \<in> set (set_routes t)" "slot_key q = slot_key ?r"
        using find_member [OF q] r(2) by (simp_all add: slot_key_def)
      then have "q = ?r"
        using ok r(1) by (auto simp: topology_ok_def routes_ok_def distinct_map inj_on_def)
      then show ?thesis using q by simp
    qed
    then show ?thesis using p(1,3) at by (simp add: acknowledgement_route_def)
  next
    case False
    then have "List.find (\<lambda>r. rt_target r = target \<and> rt_slot_index r = slot) (set_routes t) = None"
      unfolding keys find_None_iff using key by (metis image_eqI)
    then show ?thesis using s False by (simp add: acknowledgement_route_def)
  qed
qed

section \<open>The example topology\<close>

text \<open>The two regions of \<^verbatim>\<open>examples/checked_layout.rs\<close>.\<close>

definition example_specs :: "RegionSpec list" where
  "example_specs =
     [\<lparr>spec_role = RoleId 1, spec_writer = Initiator, spec_slot_count = 1, spec_payload_bytes = 256,
       spec_acknowledgement_count = 1\<rparr>,
      \<lparr>spec_role = RoleId 2, spec_writer = Responder, spec_slot_count = 1, spec_payload_bytes = 256,
       spec_acknowledgement_count = 1\<rparr>]"

definition example_routes :: "AcknowledgementRouteSpec list" where
  "example_routes =
     [\<lparr>rs_owner = RoleId 2, rs_target = RoleId 1, rs_slot_index = 0, rs_cell_index = 0\<rparr>,
      \<lparr>rs_owner = RoleId 1, rs_target = RoleId 2, rs_slot_index = 0, rs_cell_index = 0\<rparr>]"

definition example_limits :: LayoutLimits where
  "example_limits =
     \<lparr>maximum_mapping_size = 65536, maximum_slot_count = 8, maximum_acknowledgement_count = 8,
      maximum_payload_bytes = 4096\<rparr>"

definition example_topology :: RegionSetLayout where
  "example_topology =
     \<lparr>set_regions = map (region_of (replicate 32 0x52) 1) example_specs,
      set_routes = map route_of example_routes, set_route_lookup = [0, 1]\<rparr>"

lemma example_calculate:
  "RegionSetLayout_calculate (\<lambda>_. True) (replicate 32 0x52) 1 example_specs example_routes
     example_limits = Ok example_topology"
proof -
  have r: "calculate_regions (replicate 32 0x52) 1 example_limits [] example_specs =
      Ok (map (region_of (replicate 32 0x52) 1) example_specs)"
    unfolding calculate_regions_Ok
    by (simp add: example_specs_def spec_fits_def stride_nat_def total_nat_def
        slots_offset_nat_def example_limits_def)
  have v: "validate_routes (\<lambda>_. True) (map (region_of (replicate 32 0x52) 1) example_specs) example_routes =
      Ok (map route_of example_routes)"
    by (simp add: validate_routes_def validate_route_def example_specs_def example_routes_def
        route_of_def checked_add_usize_def usize_max_def AcknowledgementRoute_validated_def)
  have b: "build_route_lookup (\<lambda>_. True) (map route_of example_routes) = Ok [0, 1]"
    by (simp add: build_route_lookup_def example_routes_def route_of_def
        AcknowledgementRoute_validated_def route_key_def numeral_2_eq_2)
  have "example_specs \<noteq> []" by (simp add: example_specs_def)
  then show ?thesis
    by (simp add: RegionSetLayout_calculate_def r v b example_topology_def)
qed

section \<open>Properties\<close>

text \<open>C17: \<^verbatim>\<open>RegionLayout::calculate\<close> succeeds exactly when the counts are nonzero and within the limits,
  the stride fits in 32 bits and the total, computed without overflow, is within the mapping limit;
  the header then has the exact offsets: 64-byte cells after the 128-byte header, slots after the
  cells, each slot a 64-byte metadata record and the payload rounded up to whole cache lines.\<close>

theorem region_arithmetic_exact:
  "RegionLayout_calculate schema_id generation spec limits = Ok region \<longleftrightarrow>
     spec_slot_count spec \<noteq> 0 \<and> spec_payload_bytes spec \<noteq> 0 \<and>
     spec_slot_count spec \<le> maximum_slot_count limits \<and>
     spec_payload_bytes spec \<le> maximum_payload_bytes limits \<and>
     spec_acknowledgement_count spec \<le> maximum_acknowledgement_count limits \<and>
     64 + 64 * ((unat (spec_payload_bytes spec) + 63) div 64) < 2 ^ 32 \<and>
     (128 + 64 * unat (spec_acknowledgement_count spec)) +
       (64 + 64 * ((unat (spec_payload_bytes spec) + 63) div 64)) * unat (spec_slot_count spec)
       \<le> unat (maximum_mapping_size limits) \<and>
     region = \<lparr>rl_header =
       \<lparr>hdr_total_size = word_of_nat ((128 + 64 * unat (spec_acknowledgement_count spec)) +
          (64 + 64 * ((unat (spec_payload_bytes spec) + 63) div 64)) * unat (spec_slot_count spec)),
        hdr_schema_id = schema_id, hdr_generation = generation,
        hdr_role = role_get (spec_role spec), hdr_writer = endpoint_raw (spec_writer spec),
        hdr_acknowledgement_offset = 128,
        hdr_acknowledgement_count = spec_acknowledgement_count spec,
        hdr_acknowledgement_stride = 64,
        hdr_slots_offset = word_of_nat (128 + 64 * unat (spec_acknowledgement_count spec)),
        hdr_slot_count = spec_slot_count spec,
        hdr_slot_stride = word_of_nat (64 + 64 * ((unat (spec_payload_bytes spec) + 63) div 64)),
        hdr_payload_capacity = spec_payload_bytes spec\<rparr>\<rparr>"
  unfolding RegionLayout_calculate_Ok spec_fits_def region_header_of_def total_nat_def
    slots_offset_nat_def stride_nat_def by blast

text \<open>C18: validation accepts a mapping exactly when its first 128 bytes are the canonical header of a
  region of the composed topology with the expected identity, its geometry is exact, its
  acknowledgement cells are zero, every slot carries the generation and otherwise zero metadata, and
  the padding behind it is zero; it then returns the header, the two ranges and the whole size.\<close>

theorem validate_exact:
  "validate b e topology = Ok v \<longleftrightarrow>
     (\<exists>h. header_expected h e \<and> quiescent_mapping b h \<and> region_geometry h \<and>
        length b \<le> unat (exp_maximum_mapping_size e) \<and>
        map_option rl_header (RegionSetLayout_region topology (exp_role e)) = Some h \<and>
        v = \<lparr>vl_header = h, vl_acknowledgements = (128, unat (hdr_slots_offset h)),
             vl_slots = (unat (hdr_slots_offset h), unat (hdr_total_size h)),
             vl_mapping_size = length b, vl_routes = set_routes topology\<rparr>)"
proof -
  have "validated_of b h topology =
      \<lparr>vl_header = h, vl_acknowledgements = (128, unat (hdr_slots_offset h)),
       vl_slots = (unat (hdr_slots_offset h), unat (hdr_total_size h)),
       vl_mapping_size = length b, vl_routes = set_routes topology\<rparr>" if "region_geometry h" for h
    using that by (simp add: validated_of_def region_geometry_def)
  then show ?thesis unfolding validate_Ok_iff by metis
qed

text \<open>validation of arbitrary bytes against arbitrary expectations and topology never panics.\<close>

theorem validate_never_panics: "validate b e topology \<noteq> Panic"
  by (rule validate_no_panic)

text \<open>C19: every region of a composed topology initialises any mapping of sufficient size whose excess
  is zero, and validation of the result under the matching expectations succeeds and returns the
  header of that region.\<close>

theorem encode_validate_roundtrip:
  assumes "RegionSetLayout_calculate alloc schema_id generation specs route_specs limits = Ok topology"
    and "length schema_id = 32" and "spec \<in> set specs"
    and "region = \<lparr>rl_header = region_header_of schema_id generation spec\<rparr>"
    and "total_nat spec \<le> length d" "drop (total_nat spec) d = replicate (length d - total_nat spec) 0"
    and "length d \<le> unat maximum"
  shows "region \<in> set (set_regions topology) \<and>
    (\<exists>b v. encode_into region d = Ok b \<and> length b = length d \<and>
       validate b \<lparr>exp_schema_id = schema_id, exp_generation = generation,
         exp_role = spec_role spec, exp_writer = spec_writer spec,
         exp_maximum_mapping_size = maximum\<rparr> topology = Ok v \<and>
       vl_header v = rl_header region \<and> vl_mapping_size v = length d)"
proof -
  let ?h = "region_header_of schema_id generation spec"
  note t = calculate_topology_ok [OF assms(1)]
  have fits: "spec_fits spec limits" by (rule t(3) [OF assms(3)])
  have g: "region_geometry ?h" by (rule region_of_geometry [OF fits])
  have in_set: "region_of schema_id generation spec \<in> set (set_regions topology)"
    using assms(3) by (simp add: t(2))
  have total: "unat (hdr_total_size ?h) = total_nat spec"
    using fits unat_lt_pow [of "maximum_mapping_size limits"]
    by (simp add: region_header_of_def spec_fits_def unat_u64_of_nat)
  have schema: "length (hdr_schema_id ?h) = 32" using assms(2) by (simp add: region_header_of_def)
  obtain b where b: "encode_into region d = Ok b" "length b = length d" "quiescent_mapping b ?h"
    using encode_into_quiescent [of region d] g schema assms(4-6) total by auto
  have find: "RegionSetLayout_region topology (spec_role spec) = Some (region_of schema_id generation spec)"
    unfolding RegionSetLayout_region_def
    using t(1) in_set by (intro find_unique) (auto simp: topology_ok_def)
  have "header_expected ?h \<lparr>exp_schema_id = schema_id, exp_generation = generation,
         exp_role = spec_role spec, exp_writer = spec_writer spec, exp_maximum_mapping_size = maximum\<rparr>"
    using t(4) by (cases "spec_writer spec")
      (simp_all add: header_expected_def region_header_of_def Endpoint_from_raw_def)
  then have "validate b \<lparr>exp_schema_id = schema_id, exp_generation = generation,
         exp_role = spec_role spec, exp_writer = spec_writer spec,
         exp_maximum_mapping_size = maximum\<rparr> topology = Ok (validated_of b ?h topology)"
    using b g assms(7) find unfolding validate_Ok_iff by (auto simp: region_of_def)
  then show ?thesis
    using b assms(4) in_set by (simp add: validated_of_def region_of_def)
qed

theorem encode_validate_roundtrip_witness:
  "\<exists>b v. encode_into \<lparr>rl_header = region_header_of (replicate 32 0x52) 1 (hd example_specs)\<rparr>
       (replicate 512 0) = Ok b \<and>
     validate b \<lparr>exp_schema_id = replicate 32 0x52, exp_generation = 1, exp_role = RoleId 1,
       exp_writer = Initiator, exp_maximum_mapping_size = 4096\<rparr> example_topology = Ok v"
proof -
  have t: "total_nat (hd example_specs) = 512"
    by (simp add: total_nat_def slots_offset_nat_def stride_nat_def example_specs_def)
  have m: "hd example_specs \<in> set example_specs" "spec_role (hd example_specs) = RoleId 1"
    "spec_writer (hd example_specs) = Initiator"
    by (simp_all add: example_specs_def)
  from encode_validate_roundtrip [OF example_calculate _ m(1) refl, of "replicate 512 0" 4096]
  show ?thesis unfolding t m(2,3) by auto
qed

text \<open>C20: in a validated region every accepted slot and cell index has a range inside the mapping,
  behind the header and aligned to cache lines; cells lie before all slots, ranges of distinct slots
  and of distinct cells are disjoint, and the payload range of a slot lies inside the slot behind its
  64 bytes of metadata.\<close>

theorem validated_ranges_disjoint:
  assumes "validate b e topology = Ok v"
    and "slot_range v j = Ok r" "slot_range v k = Ok q" "acknowledgement_range v c = Ok cr"
    and "acknowledgement_range v d = Ok dr" "slot_payload_range v j n = Ok p"
  shows "(j \<noteq> k \<longrightarrow> disjoint_ranges r q) \<and> (c \<noteq> d \<longrightarrow> disjoint_ranges cr dr) \<and>
    128 \<le> fst cr \<and> snd cr = fst cr + 64 \<and> snd cr \<le> fst r \<and> fst r + 64 \<le> snd r \<and>
    snd r \<le> length b \<and> fst r mod 64 = 0 \<and> fst cr mod 64 = 0 \<and>
    fst p = fst r + 64 \<and> snd p = fst p + unat n \<and> snd p \<le> snd r"
proof -
  note ok = validate_layout_ok [OF assms(1)]
  have size: "vl_mapping_size v = length b"
    using assms(1) by (auto simp: validate_Ok_iff validated_of_def)
  have cells: "c \<noteq> d \<longrightarrow> disjoint_ranges cr dr"
    using assms(4,5)
    by (auto simp: acknowledgement_range_eq [OF ok] disjoint_ranges_def word_unat_eq_iff
        split: if_splits)
  have p: "p = (slot_begin v j + 64, slot_begin v j + 64 + unat n)" "r = (slot_begin v j,
      slot_begin v j + stride_nat (spec_of (vl_header v)))" "n \<le> hdr_payload_capacity (vl_header v)"
    using assms(2,6) by (auto simp: slot_payload_range_eq [OF ok] slot_range_eq [OF ok] split: if_splits)
  have "unat n \<le> unat (hdr_payload_capacity (vl_header v))"
    using p(3) by (simp add: word_le_nat_alt)
  also have "\<dots> \<le> 64 * ((unat (hdr_payload_capacity (vl_header v)) + 63) div 64)" by simp
  finally have "snd p \<le> snd r" using p(1,2) by (simp add: stride_nat_def)
  then show ?thesis
    using slot_ranges_disjoint [OF ok assms(2,3)] slot_range_bounds [OF ok assms(2)]
      acknowledgement_range_bounds [OF ok assms(4)] cells p(1,2) size
    by auto
qed

theorem validated_ranges_disjoint_witness:
  "\<exists>b v. validate b \<lparr>exp_schema_id = replicate 32 0x52, exp_generation = 1, exp_role = RoleId 1,
       exp_writer = Initiator, exp_maximum_mapping_size = 4096\<rparr> example_topology = Ok v \<and>
     slot_range v 0 = Ok (192, 512) \<and> acknowledgement_range v 0 = Ok (128, 192) \<and>
     slot_payload_range v 0 256 = Ok (256, 512) \<and> snd (128 :: nat, 192 :: nat) \<le> fst (192 :: nat, 512 :: nat) \<and>
     512 \<le> length b"
proof -
  let ?h = "region_header_of (replicate 32 0x52) 1 (hd example_specs)"
  let ?e = "\<lparr>exp_schema_id = replicate 32 0x52, exp_generation = 1, exp_role = RoleId 1,
    exp_writer = Initiator, exp_maximum_mapping_size = 4096\<rparr>"
  have n: "total_nat (hd example_specs) = 512" "slots_offset_nat (hd example_specs) = 192"
    "stride_nat (hd example_specs) = 320"
    by (simp_all add: total_nat_def slots_offset_nat_def stride_nat_def example_specs_def)
  have fits: "spec_fits (hd example_specs) example_limits"
    by (simp add: spec_fits_def n example_limits_def) (simp add: example_specs_def)
  note g = region_of_geometry [OF fits, of "replicate 32 0x52" 1]
  have total: "unat (hdr_total_size ?h) = 512" by (simp add: region_header_of_def n)
  obtain b where b: "length b = 512" "quiescent_mapping b ?h"
    using encode_into_quiescent [of "\<lparr>rl_header = ?h\<rparr>" "replicate 512 0"] g total
    by (auto simp: region_header_of_def)
  have v: "validate b ?e example_topology = Ok (validated_of b ?h example_topology)"
    using b g unfolding validate_Ok_iff
    by (intro exI [of _ ?h])
      (simp add: header_expected_def example_topology_def RegionSetLayout_region_def example_specs_def
        region_of_def region_header_of_def Endpoint_from_raw_def RegionLayout_role_def)
  let ?v = "validated_of b ?h example_topology"
  note ok = validate_layout_ok [OF v]
  have s: "spec_of ?h = hd example_specs" "vl_header ?v = ?h" "hdr_slot_count ?h = 1"
    "hdr_acknowledgement_count ?h = 1" "hdr_payload_capacity ?h = 256"
    by (simp_all add: spec_of_def region_header_of_def example_specs_def Endpoint_from_raw_def
        validated_of_def)
  have r: "slot_range ?v 0 = Ok (192, 512)" "acknowledgement_range ?v 0 = Ok (128, 192)"
    "slot_payload_range ?v 0 256 = Ok (256, 512)"
    by (simp_all add: slot_range_eq [OF ok] acknowledgement_range_eq [OF ok]
        slot_payload_range_eq [OF ok] s slot_start_def n)
  from validated_ranges_disjoint [OF v r(1) r(1) r(2) r(2) r(3)] v r show ?thesis by auto
qed

text \<open>C21: composition gives a bijection.  Every slot of every region has exactly one route, every
  acknowledgement cell of every region has exactly one route, and each route joins a cell of one
  region to a slot of another region written by the opposite endpoint.\<close>

theorem routes_bijective:
  assumes "RegionSetLayout_calculate alloc schema_id generation specs route_specs limits = Ok topology"
  shows "(\<forall>spec \<in> set specs. \<forall>k < spec_slot_count spec.
      \<exists>!route. route \<in> set (set_routes topology) \<and> rt_target route = spec_role spec \<and>
        rt_slot_index route = k) \<and>
    (\<forall>spec \<in> set specs. \<forall>c < spec_acknowledgement_count spec.
      \<exists>!route. route \<in> set (set_routes topology) \<and> rt_owner route = spec_role spec \<and>
        rt_cell_index route = c) \<and>
    (\<forall>route \<in> set (set_routes topology). \<exists>owner \<in> set specs. \<exists>target \<in> set specs.
      spec_role owner = rt_owner route \<and> spec_role target = rt_target route \<and>
      spec_writer owner \<noteq> spec_writer target \<and> rt_slot_index route < spec_slot_count target \<and>
      rt_cell_index route < spec_acknowledgement_count owner)"
proof -
  note t = calculate_topology_ok [OF assms]
  have "\<forall>route \<in> set (set_routes topology). valid_route (set_regions topology) route"
    using t(1) by (simp add: topology_ok_def routes_ok_def)
  then have "\<forall>route \<in> set (set_routes topology). \<exists>owner \<in> set specs. \<exists>target \<in> set specs.
      spec_role owner = rt_owner route \<and> spec_role target = rt_target route \<and>
      spec_writer owner \<noteq> spec_writer target \<and> rt_slot_index route < spec_slot_count target \<and>
      rt_cell_index route < spec_acknowledgement_count owner"
    unfolding t(2) valid_route_def by simp
  moreover have "\<exists>!route. route \<in> set (set_routes topology) \<and> rt_target route = spec_role spec \<and>
      rt_slot_index route = k" if "spec \<in> set specs" "k < spec_slot_count spec" for spec k
    using unique_slot_route [OF t(1), of "region_of schema_id generation spec" k] that by (simp add: t(2))
  moreover have "\<exists>!route. route \<in> set (set_routes topology) \<and> rt_owner route = spec_role spec \<and>
      rt_cell_index route = c" if "spec \<in> set specs" "c < spec_acknowledgement_count spec" for spec c
    using unique_cell_route [OF t(1), of "region_of schema_id generation spec" c] that by (simp add: t(2))
  ultimately show ?thesis by blast
qed

theorem routes_bijective_witness:
  "\<exists>!route. route \<in> set (set_routes example_topology) \<and> rt_target route = RoleId 1 \<and>
     rt_slot_index route = 0"
proof -
  have "hd example_specs \<in> set example_specs" "0 < spec_slot_count (hd example_specs)"
    "spec_role (hd example_specs) = RoleId 1" by (simp_all add: example_specs_def)
  then show ?thesis using routes_bijective [OF example_calculate] by metis
qed

text \<open>C22: the lookup through the sorted index and the binary search is the linear search for the
  route of a slot: it never panics, and it finds a route for every slot of every region.\<close>

theorem acknowledgement_route_is_find:
  assumes "RegionSetLayout_calculate alloc schema_id generation specs route_specs limits = Ok topology"
  shows "acknowledgement_route topology target slot =
      Ok (List.find (\<lambda>r. rt_target r = target \<and> rt_slot_index r = slot) (set_routes topology)) \<and>
    (\<forall>spec \<in> set specs. \<forall>k < spec_slot_count spec. \<exists>route.
      acknowledgement_route topology (spec_role spec) k = Ok (Some route) \<and>
      rt_target route = spec_role spec \<and> rt_slot_index route = k)"
proof -
  note t = calculate_topology_ok [OF assms]
  have "\<exists>route. acknowledgement_route topology (spec_role spec) k = Ok (Some route) \<and>
      rt_target route = spec_role spec \<and> rt_slot_index route = k"
    if "spec \<in> set specs" "k < spec_slot_count spec" for spec k
  proof -
    let ?f = "List.find (\<lambda>r. rt_target r = spec_role spec \<and> rt_slot_index r = k) (set_routes topology)"
    have "\<exists>route. route \<in> set (set_routes topology) \<and> rt_target route = spec_role spec \<and>
        rt_slot_index route = k"
      using unique_slot_route [OF t(1), of "region_of schema_id generation spec" k] that
      by (auto simp: t(2))
    then obtain route where f: "?f = Some route" by (cases ?f) (auto simp: find_None_iff)
    then show ?thesis
      using find_member [OF f] by (simp add: acknowledgement_route_eq [OF t(1)])
  qed
  then show ?thesis using acknowledgement_route_eq [OF t(1)] by blast
qed

theorem acknowledgement_route_is_find_witness:
  "acknowledgement_route example_topology (RoleId 2) 0 =
     Ok (Some (AcknowledgementRoute_validated (RoleId 1) (RoleId 2) 0 0)) \<and>
   acknowledgement_route example_topology (RoleId 2) 1 = Ok None"
  using acknowledgement_route_is_find [OF example_calculate, of "RoleId 2" 0]
    acknowledgement_route_is_find [OF example_calculate, of "RoleId 2" 1]
  by (simp add: example_topology_def example_routes_def route_of_def AcknowledgementRoute_validated_def)

end
