(* ===== verification/Mapping_Bridge.thy ===== *)
theory Mapping_Bridge
  imports Layout_Routes
begin

text \<open>
  The bridge from mapped memory to slots and cells, \<^verbatim>\<open>native-ipc-core/src/mapping.rs\<close>.  A native
  mapping is its base address and its length; its contents are bytes that the operations take and,
  when they store, return.  A reader's memory may change under it: \<open>mem i\<close> is the contents at its
  \<open>i\<close>-th access.  An access outside the mapping, which would be undefined behaviour, is a panic of
  the model, so the absence of panics shows that every access stays inside.  Integers are
  little-endian, as on every supported target.
\<close>

section \<open>Records in memory\<close>

definition load_metadata :: "bytes \<Rightarrow> usize \<Rightarrow> SlotMetadata" where
  "load_metadata m off =
     \<lparr>meta_generation = from_le_bytes (read_at m off 8),
      meta_payload_len = from_le_bytes (read_at m (off + 8) 4),
      meta_reserved_word = from_le_bytes (read_at m (off + 12) 4),
      meta_published_sequence = from_le_bytes (read_at m (off + 16) 8),
      meta_reserved = read_at m (off + 24) 40\<rparr>"

definition metadata_bytes :: "SlotMetadata \<Rightarrow> bytes" where
  "metadata_bytes h =
     to_le_bytes 8 (meta_generation h) @ to_le_bytes 4 (meta_payload_len h) @
     to_le_bytes 4 (meta_reserved_word h) @ to_le_bytes 8 (meta_published_sequence h) @
     meta_reserved h"

definition store_metadata :: "bytes \<Rightarrow> usize \<Rightarrow> SlotMetadata \<Rightarrow> bytes" where
  "store_metadata m off h = write_at m off (metadata_bytes h)"

definition load_cell :: "bytes \<Rightarrow> usize \<Rightarrow> AcknowledgementCell" where
  "load_cell m off =
     \<lparr>cell_sequence = from_le_bytes (read_at m off 8), cell_reserved = read_at m (off + 8) 56\<rparr>"

definition store_cell :: "bytes \<Rightarrow> usize \<Rightarrow> AcknowledgementCell \<Rightarrow> bytes" where
  "store_cell m off c = write_at m off (to_le_bytes 8 (cell_sequence c) @ cell_reserved c)"

section \<open>Binding\<close>

datatype BindingError =
    MappingSizeMismatch usize usize
  | MisalignedRecord
  | Layout LayoutError
  | Slot SlotError
  | AllocationFailed
  | PayloadLengthOverflow
  | DestinationTooSmall usize usize
  | TopologyMismatch
  | MissingRoute RoleId u32

record NativeMapping =
  nm_base :: usize
  nm_len :: usize

record BoundRegion =
  br_mapping :: NativeMapping
  br_layout :: ValidatedRegionLayout
  br_topology :: RegionSetLayout

definition validate_mapping_size ::
    "usize \<Rightarrow> ValidatedRegionLayout \<Rightarrow> (unit, BindingError) result" where
  "validate_mapping_size actual layout =
     (if actual = vl_mapping_size layout then Ok ()
      else Err (MappingSizeMismatch (vl_mapping_size layout) actual))"

definition validate_topology ::
    "ValidatedRegionLayout \<Rightarrow> RegionSetLayout \<Rightarrow> (unit, BindingError) result" where
  "validate_topology layout topology =
     (if matches_topology layout topology then Ok () else Err BindingError.TopologyMismatch)"

text \<open>A rejected binding returns the witness with the error.\<close>

definition ReaderRegion_new ::
    "NativeMapping \<Rightarrow> ValidatedRegionLayout \<Rightarrow> RegionSetLayout \<Rightarrow>
     (BoundRegion, NativeMapping \<times> BindingError) result" where
  "ReaderRegion_new mapping layout topology =
     rbind (map_err (Pair mapping) (validate_mapping_size (nm_len mapping) layout)) (\<lambda>_.
     rbind (map_err (Pair mapping) (validate_topology layout topology)) (\<lambda>_.
       Ok \<lparr>br_mapping = mapping, br_layout = layout, br_topology = topology\<rparr>))"

definition WriterRegion_new ::
    "NativeMapping \<Rightarrow> ValidatedRegionLayout \<Rightarrow> RegionSetLayout \<Rightarrow>
     (BoundRegion, NativeMapping \<times> BindingError) result" where
  "WriterRegion_new mapping layout topology =
     rbind (map_err (Pair mapping) (validate_mapping_size (nm_len mapping) layout)) (\<lambda>_.
     rbind (map_err (Pair mapping) (validate_topology layout topology)) (\<lambda>_.
       Ok \<lparr>br_mapping = mapping, br_layout = layout, br_topology = topology\<rparr>))"

text \<open>Both record types are 64 bytes long and aligned to 64.\<close>

definition record_at :: "NativeMapping \<Rightarrow> usize \<Rightarrow> usize \<Rightarrow> (usize, BindingError) result" where
  "record_at mapping off available =
     (if available < 64 then Err (BindingError.Layout RangeOutOfBounds)
      else if off + 64 > nm_len mapping then Panic
      else if (nm_base mapping + off) mod 64 \<noteq> 0 then Err MisalignedRecord
      else Ok off)"

definition find_route ::
    "BoundRegion \<Rightarrow> RoleId \<Rightarrow> u32 \<Rightarrow> (AcknowledgementRoute, BindingError) result" where
  "find_route region target slot =
     rbind (map_err BindingError.Layout (acknowledgement_route (br_topology region) target slot))
       (ok_or (MissingRoute target slot))"

definition ReaderRegion_slot ::
    "BoundRegion \<Rightarrow> bytes \<Rightarrow> u32 \<Rightarrow> (usize \<times> SlotBinding, BindingError) result" where
  "ReaderRegion_slot region m slot =
     rbind (map_err BindingError.Layout (reader_slot_binding (br_layout region) slot)) (\<lambda>binding.
     rbind (map_err BindingError.Layout (slot_range (br_layout region) slot)) (\<lambda>range.
     rbind (record_at (br_mapping region) (fst range) (range_len range)) (\<lambda>off.
     rbind (map_err BindingError.Slot (ReaderSlot_bind (load_metadata m off) binding)) (\<lambda>binding.
       Ok (off, binding)))))"

definition WriterRegion_slot ::
    "BoundRegion \<Rightarrow> bytes \<Rightarrow> u32 \<Rightarrow> (usize \<times> SlotBinding, BindingError) result" where
  "WriterRegion_slot region m slot =
     (let target = ValidatedRegionLayout_role (br_layout region) in
      rbind (find_route region target slot) (\<lambda>route.
      rbind (map_err BindingError.Layout (writer_slot_binding (br_layout region) route)) (\<lambda>binding.
      rbind (map_err BindingError.Layout (slot_range (br_layout region) (rt_slot_index route)))
        (\<lambda>range.
      rbind (record_at (br_mapping region) (fst range) (range_len range)) (\<lambda>off.
      rbind (map_err BindingError.Slot (WriterSlot_bind (load_metadata m off) binding)) (\<lambda>binding.
        Ok (off, binding)))))))"

definition ReaderRegion_acknowledgement ::
    "BoundRegion \<Rightarrow> RoleId \<Rightarrow> u32 \<Rightarrow> (usize \<times> AcknowledgementBinding, BindingError) result" where
  "ReaderRegion_acknowledgement region target slot =
     rbind (find_route region target slot) (\<lambda>route.
     rbind (map_err BindingError.Layout (acknowledgement_reader_binding (br_layout region) route))
       (\<lambda>binding.
     rbind (map_err BindingError.Layout
       (acknowledgement_range (br_layout region) (rt_cell_index route))) (\<lambda>range.
     rbind (record_at (br_mapping region) (fst range) (range_len range)) (\<lambda>off.
       Ok (off, binding)))))"

definition WriterRegion_acknowledgement ::
    "BoundRegion \<Rightarrow> RoleId \<Rightarrow> u32 \<Rightarrow> (usize \<times> AcknowledgementBinding, BindingError) result" where
  "WriterRegion_acknowledgement region target slot =
     rbind (find_route region target slot) (\<lambda>route.
     rbind (map_err BindingError.Layout (acknowledgement_writer_binding (br_layout region) route))
       (\<lambda>binding.
     rbind (map_err BindingError.Layout
       (acknowledgement_range (br_layout region) (rt_cell_index route))) (\<lambda>range.
     rbind (record_at (br_mapping region) (fst range) (range_len range)) (\<lambda>off.
       Ok (off, binding)))))"

section \<open>Payloads\<close>

text \<open>\<^verbatim>\<open>volatile_copy\<close> loads one byte per access, from access number \<open>i\<close> on.\<close>

primrec volatile_copy ::
    "(nat \<Rightarrow> bytes) \<Rightarrow> nat \<Rightarrow> usize \<Rightarrow> usize \<Rightarrow> (bytes, BindingError) result" where
  "volatile_copy mem i source 0 = Ok []"
| "volatile_copy mem i source (Suc n) =
     rbind (index_byte (mem i) source) (\<lambda>byte.
     rbind (volatile_copy mem (Suc i) (Suc source) n) (\<lambda>rest.
       Ok (byte # rest)))"

definition observe_payload ::
    "BoundRegion \<Rightarrow> (nat \<Rightarrow> bytes) \<Rightarrow> u32 \<Rightarrow> u64 \<Rightarrow> (SlotObservation \<times> Range, BindingError) result" where
  "observe_payload region mem slot expected_sequence =
     rbind (ReaderRegion_slot region (mem 0) slot) (\<lambda>(off, binding).
     rbind (map_err BindingError.Slot
       (ReaderSlot_observe binding (\<lambda>i. load_metadata (mem (1 + i)) off) expected_sequence))
       (\<lambda>observation.
     rbind (map_err BindingError.Layout
       (slot_payload_range (br_layout region) slot (so_payload_len observation))) (\<lambda>range.
       Ok (observation, range))))"

definition recheck_payload ::
    "BoundRegion \<Rightarrow> (nat \<Rightarrow> bytes) \<Rightarrow> nat \<Rightarrow> u32 \<Rightarrow> SlotObservation \<Rightarrow> (unit, BindingError) result" where
  "recheck_payload region mem i slot observation =
     rbind (ReaderRegion_slot region (mem i) slot) (\<lambda>(off, binding).
       map_err BindingError.Slot
         (ReaderSlot_recheck binding (\<lambda>j. load_metadata (mem (i + 1 + j)) off) observation))"

definition copy_payload ::
    "(usize \<Rightarrow> bool) \<Rightarrow> BoundRegion \<Rightarrow> (nat \<Rightarrow> bytes) \<Rightarrow> u32 \<Rightarrow> u64 \<Rightarrow> (bytes, BindingError) result" where
  "copy_payload alloc region mem slot expected_sequence =
     rbind (observe_payload region mem slot expected_sequence) (\<lambda>(observation, range).
     if \<not> alloc (range_len range) then Err BindingError.AllocationFailed
     else
       rbind (volatile_copy mem 4 (fst range) (range_len range)) (\<lambda>owned.
       rbind (recheck_payload region mem (4 + range_len range) slot observation) (\<lambda>_.
         Ok owned)))"

definition copy_payload_into ::
    "BoundRegion \<Rightarrow> (nat \<Rightarrow> bytes) \<Rightarrow> u32 \<Rightarrow> u64 \<Rightarrow> bytes \<Rightarrow> bytes \<times> (usize, BindingError) result" where
  "copy_payload_into region mem slot expected_sequence destination =
     sbind (destination, observe_payload region mem slot expected_sequence)
       (\<lambda>destination (observation, range).
     if length destination < range_len range
     then (destination,
       Err (BindingError.DestinationTooSmall (range_len range) (length destination)))
     else
       sbind (destination, volatile_copy mem 4 (fst range) (range_len range)) (\<lambda>destination owned.
       let destination = write_at destination 0 owned in
       sbind (destination, recheck_payload region mem (4 + range_len range) slot observation)
         (\<lambda>destination _. (destination, Ok (range_len range)))))"

definition copy_nonoverlapping :: "bytes \<Rightarrow> usize \<Rightarrow> bytes \<Rightarrow> (bytes, BindingError) result" where
  "copy_nonoverlapping m off payload =
     (if off + length payload \<le> length m then Ok (write_at m off payload) else Panic)"

definition WriterRegion_publish ::
    "BoundRegion \<Rightarrow> bytes \<Rightarrow> u32 \<Rightarrow> u64 \<Rightarrow> AcknowledgementObservation option \<Rightarrow> bytes \<Rightarrow>
     bytes \<times> (unit, BindingError) result" where
  "WriterRegion_publish region m slot sequence acknowledgement payload =
     sbind (m, ok_or PayloadLengthOverflow (try_from_usize (length payload))) (\<lambda>m payload_len.
     sbind (m, map_err BindingError.Layout
       (slot_payload_range (br_layout region) slot payload_len)) (\<lambda>m range.
     sbind (m, WriterRegion_slot region m slot) (\<lambda>m (off, binding).
     sbind (m, map_err BindingError.Slot
       (prepare_publish binding (load_metadata m off) sequence acknowledgement)) (\<lambda>m reservation.
     sbind (m, copy_nonoverlapping m (fst range) payload) (\<lambda>_ m.
     let (header, r) = publish reservation (load_metadata m off) payload_len in
       (store_metadata m off header, map_err BindingError.Slot r))))))"

text \<open>Acknowledging through the writable mapping, and observing through the read-only one.\<close>

definition acknowledge_through ::
    "BoundRegion \<Rightarrow> bytes \<Rightarrow> RoleId \<Rightarrow> u32 \<Rightarrow> SlotObservation \<Rightarrow>
     bytes \<times> (unit, AcknowledgementError + BindingError) result" where
  "acknowledge_through region m target slot observation =
     sbind (m, map_err Inr (WriterRegion_acknowledgement region target slot)) (\<lambda>m (off, binding).
     let (cell, r) = acknowledge binding (load_cell m off) observation in
       (store_cell m off cell, map_err Inl r))"

definition observe_through ::
    "BoundRegion \<Rightarrow> bytes \<Rightarrow> RoleId \<Rightarrow> u32 \<Rightarrow> (AcknowledgementObservation, BindingError) result" where
  "observe_through region m target slot =
     rbind (ReaderRegion_acknowledgement region target slot) (\<lambda>(off, binding).
       Ok (AcknowledgementReader_observe binding (load_cell m off)))"

section \<open>Loads and stores\<close>

lemma load_metadata_read_at:
  assumes "off + 64 \<le> length m"
  shows "load_metadata m off = load_metadata (read_at m off 64) 0"
  using assms by (simp add: load_metadata_def read_at_def min_def drop_take add.commute)

lemma load_metadata_cong:
  assumes "read_at m off 64 = read_at m' off 64" "off + 64 \<le> length m" "off + 64 \<le> length m'"
  shows "load_metadata m off = load_metadata m' off"
  using assms by (simp add: load_metadata_read_at)

lemma load_cell_read_at:
  assumes "off + 64 \<le> length m"
  shows "load_cell m off = load_cell (read_at m off 64) 0"
  using assms by (simp add: load_cell_def read_at_def min_def drop_take add.commute)

lemma load_store_cell:
  assumes "off + 64 \<le> length m" "length (cell_reserved c) = 56"
  shows "load_cell (store_cell m off c) off = c"
proof -
  have "load_cell (to_le_bytes 8 (cell_sequence c) @ cell_reserved c) 0 = c"
    using assms(2) by (simp add: load_cell_def read_at_def from_to_le_bytes)
  then show ?thesis
    using assms load_cell_read_at [of off "store_cell m off c"] by (simp add: store_cell_def wire)
qed

lemma length_metadata_bytes [simp]: "length (meta_reserved h) = 40 \<Longrightarrow> length (metadata_bytes h) = 64"
  by (simp add: metadata_bytes_def)

lemma length_store_metadata [simp]:
  "length (meta_reserved h) = 40 \<Longrightarrow> off + 64 \<le> length m \<Longrightarrow> length (store_metadata m off h) = length m"
  by (simp add: store_metadata_def)

lemma length_load_reserved [simp]:
  "off + 64 \<le> length m \<Longrightarrow> length (meta_reserved (load_metadata m off)) = 40"
  by (simp add: load_metadata_def)

lemma load_metadata_record: "length b = 64 \<Longrightarrow> load_metadata b 0 =
    \<lparr>meta_generation = from_le_bytes (take 8 b), meta_payload_len = from_le_bytes (take 4 (drop 8 b)),
     meta_reserved_word = from_le_bytes (take 4 (drop 12 b)),
     meta_published_sequence = from_le_bytes (take 8 (drop 16 b)), meta_reserved = drop 24 b\<rparr>"
  by (simp add: load_metadata_def read_at_def)

lemma load_metadata_bytes:
  "length (meta_reserved h) = 40 \<Longrightarrow> load_metadata (metadata_bytes h) 0 = h"
  by (simp add: load_metadata_record) (simp add: metadata_bytes_def from_to_le_bytes)

lemma load_store_metadata:
  assumes "off + 64 \<le> length m" "length (meta_reserved h) = 40"
  shows "load_metadata (store_metadata m off h) off = h"
  using assms load_metadata_read_at [of off "store_metadata m off h"] load_metadata_bytes [of h]
  by (simp add: store_metadata_def wire)

section \<open>What binding gives\<close>

text \<open>A bound region has a validated layout over a mapping of its exact size and alignment.\<close>

definition bound_ok :: "BoundRegion \<Rightarrow> bool" where
  "bound_ok region \<longleftrightarrow>
     layout_ok (br_layout region) \<and> topology_ok (br_topology region) \<and>
     nm_len (br_mapping region) = vl_mapping_size (br_layout region) \<and>
     nm_base (br_mapping region) mod 64 = 0"

abbreviation region_header :: "BoundRegion \<Rightarrow> RegionHeader" where
  "region_header region \<equiv> vl_header (br_layout region)"

abbreviation slot_offset :: "BoundRegion \<Rightarrow> u32 \<Rightarrow> nat" where
  "slot_offset region k \<equiv> slot_begin (br_layout region) k"

lemma slot_offset_bounds:
  assumes "bound_ok region" "k < hdr_slot_count (region_header region)"
    "n \<le> hdr_payload_capacity (region_header region)"
  shows "slot_offset region k + 64 + unat n \<le> nm_len (br_mapping region)"
    "slot_offset region k mod 64 = 0" "slots_offset_nat (spec_of (region_header region)) \<le> slot_offset region k"
proof -
  let ?v = "br_layout region"
  have ok: "layout_ok ?v" using assms(1) by (simp add: bound_ok_def)
  have r: "slot_range ?v k = Ok (slot_begin ?v k, slot_begin ?v k + stride_nat (spec_of (vl_header ?v)))"
    using assms(2) by (simp add: slot_range_eq [OF ok])
  have "unat n \<le> unat (hdr_payload_capacity (vl_header ?v))"
    using assms(3) by (simp add: word_le_nat_alt)
  also have "\<dots> \<le> 64 * ((unat (hdr_payload_capacity (vl_header ?v)) + 63) div 64)" by simp
  finally have "slot_begin ?v k + 64 + unat n \<le> vl_mapping_size ?v"
    using slot_range_bounds(2) [OF ok r] by (simp add: stride_nat_def)
  then show "slot_begin ?v k + 64 + unat n \<le> nm_len (br_mapping region)"
    using assms(1) by (simp add: bound_ok_def)
  show "slot_begin ?v k mod 64 = 0" "slots_offset_nat (spec_of (vl_header ?v)) \<le> slot_begin ?v k"
    using slot_range_bounds(1,4) [OF ok r] by simp_all
qed

lemma record_at_slot:
  assumes "bound_ok region" "slot_range (br_layout region) k = Ok r"
  shows "record_at (br_mapping region) (fst r) (range_len r) = Ok (fst r)"
proof -
  have ok: "layout_ok (br_layout region)" using assms(1) by (simp add: bound_ok_def)
  show ?thesis
    using assms(1) slot_range_bounds [OF ok assms(2)]
    by (simp add: record_at_def range_len_def bound_ok_def mod_add_eq [symmetric])
qed

lemma record_at_cell:
  assumes "bound_ok region" "acknowledgement_range (br_layout region) c = Ok r"
  shows "record_at (br_mapping region) (fst r) (range_len r) = Ok (fst r)"
proof -
  have ok: "layout_ok (br_layout region)" using assms(1) by (simp add: bound_ok_def)
  show ?thesis
    using assms(1) acknowledgement_range_bounds [OF ok assms(2)]
    by (simp add: record_at_def range_len_def bound_ok_def mod_add_eq [symmetric])
qed

abbreviation reader_binding_of :: "BoundRegion \<Rightarrow> u32 \<Rightarrow> SlotBinding" where
  "reader_binding_of region k \<equiv>
     ReaderSlotBinding_validated (ValidatedRegionLayout_role (br_layout region))
       (hdr_generation (region_header region)) (hdr_payload_capacity (region_header region)) k
       (hdr_slot_count (region_header region))"

abbreviation writer_binding_of :: "BoundRegion \<Rightarrow> u32 \<Rightarrow> AcknowledgementRoute \<Rightarrow> SlotBinding" where
  "writer_binding_of region k route \<equiv>
     WriterSlotBinding_validated (ValidatedRegionLayout_role (br_layout region))
       (hdr_generation (region_header region)) (hdr_payload_capacity (region_header region)) k
       (hdr_slot_count (region_header region)) (rt_owner route) (rt_cell_index route)"

lemma ReaderRegion_slot_eq:
  assumes "bound_ok region"
  shows "ReaderRegion_slot region m k =
    (if k < hdr_slot_count (region_header region)
     then rbind (map_err BindingError.Slot (validate_bound_generation
            (load_metadata m (slot_offset region k)) (hdr_generation (region_header region))))
            (\<lambda>_. Ok (slot_offset region k, reader_binding_of region k))
     else Err (BindingError.Layout (SlotOutOfBounds k (hdr_slot_count (region_header region)))))"
proof -
  have ok: "layout_ok (br_layout region)" using assms by (simp add: bound_ok_def)
  show ?thesis
    using record_at_slot [OF assms, of k]
    by (auto simp: ReaderRegion_slot_def reader_slot_binding_def slot_range_eq [OF ok]
        ReaderSlot_bind_def ReaderSlotBinding_validated_def validate_bound_generation_def Let_def)
qed

lemma find_route_eq:
  assumes "bound_ok region"
  shows "find_route region target k =
    ok_or (MissingRoute target k) (List.find (\<lambda>r. rt_target r = target \<and> rt_slot_index r = k)
      (set_routes (br_topology region)))"
  using assms by (simp add: find_route_def acknowledgement_route_eq bound_ok_def)

lemma find_route_Ok:
  assumes "bound_ok region" "find_route region target k = Ok route"
  shows "rt_target route = target" "rt_slot_index route = k" "route \<in> set (set_routes (br_topology region))"
  using assms find_member [of _ "set_routes (br_topology region)" route]
  by (auto simp: find_route_eq outcome)

lemma WriterRegion_slot_Ok:
  assumes "bound_ok region"
  shows "WriterRegion_slot region m k = Ok (off, b) \<longleftrightarrow>
    k < hdr_slot_count (region_header region) \<and> off = slot_offset region k \<and>
    hdr_generation (region_header region) \<noteq> 0 \<and>
    meta_generation (load_metadata m off) = hdr_generation (region_header region) \<and>
    (\<exists>route. find_route region (ValidatedRegionLayout_role (br_layout region)) k = Ok route \<and>
      b = writer_binding_of region k route)"
proof -
  have ok: "layout_ok (br_layout region)" using assms by (simp add: bound_ok_def)
  note f = find_route_Ok [OF assms, of "ValidatedRegionLayout_role (br_layout region)" k]
  show ?thesis
    using record_at_slot [OF assms, of k] f(1,2)
    by (fastforce simp: WriterRegion_slot_def writer_slot_binding_def slot_range_eq [OF ok] Let_def
        WriterSlot_bind_def WriterSlotBinding_validated_def outcome slot split: if_splits)
qed

section \<open>Reading\<close>

lemma volatile_copy_ok:
  assumes "\<And>j. j < n \<Longrightarrow> source + n \<le> length (mem (i + j))"
  shows "volatile_copy mem i source n = Ok (map (\<lambda>j. mem (i + j) ! (source + j)) [0..<n])"
  using assms
proof (induction n arbitrary: i source)
  case (Suc n)
  have here: "source < length (mem i)" using Suc.prems [of 0] by simp
  have "volatile_copy mem (Suc i) (Suc source) n =
      Ok (map (\<lambda>j. mem (Suc i + j) ! (Suc source + j)) [0..<n])"
    using Suc.prems [of "Suc _"] by (intro Suc.IH) simp
  then show ?case
    using here by (simp add: wire upt_conv_Cons map_Suc_upt [symmetric] del: upt_Suc)
qed simp

lemma slot_count_nonzero: "bound_ok region \<Longrightarrow> hdr_slot_count (region_header region) \<noteq> 0"
  by (simp add: bound_ok_def layout_ok_def region_geometry_def)

lemma binding_sel [simp]:
  "sb_slot_count (ReaderSlotBinding_validated role g cap k n) = n"
  "sb_slot_index (ReaderSlotBinding_validated role g cap k n) = k"
  "sb_role (ReaderSlotBinding_validated role g cap k n) = role"
  "sb_generation (ReaderSlotBinding_validated role g cap k n) = g"
  "sb_payload_capacity (ReaderSlotBinding_validated role g cap k n) = cap"
  "sb_slot_count (WriterSlotBinding_validated role g cap k n owner cell) = n"
  "sb_slot_index (WriterSlotBinding_validated role g cap k n owner cell) = k"
  "sb_role (WriterSlotBinding_validated role g cap k n owner cell) = role"
  "sb_generation (WriterSlotBinding_validated role g cap k n owner cell) = g"
  "sb_payload_capacity (WriterSlotBinding_validated role g cap k n owner cell) = cap"
  "sb_acknowledgement_owner (WriterSlotBinding_validated role g cap k n owner cell) = Some owner"
  "sb_acknowledgement_cell_index (WriterSlotBinding_validated role g cap k n owner cell) = Some cell"
  by (simp_all add: ReaderSlotBinding_validated_def WriterSlotBinding_validated_def)

lemma same_ring [simp]:
  "sequence_of_slot (WriterSlotBinding_validated role g cap k n owner cell) =
     sequence_of_slot (ReaderSlotBinding_validated role g cap k n)"
  by (simp add: fun_eq_iff sequence_of_slot_def)

lemma observe_payload_Ok:
  assumes "bound_ok region"
  shows "observe_payload region mem k e = Ok (obs, rng) \<longleftrightarrow>
    k < hdr_slot_count (region_header region) \<and> hdr_generation (region_header region) \<noteq> 0 \<and>
    meta_generation (load_metadata (mem 0) (slot_offset region k)) = hdr_generation (region_header region) \<and>
    meta_generation (load_metadata (mem 2) (slot_offset region k)) = hdr_generation (region_header region) \<and>
    sequence_of_slot (reader_binding_of region k) e \<and>
    meta_published_sequence (load_metadata (mem 1) (slot_offset region k)) = e \<and>
    meta_payload_len (load_metadata (mem 3) (slot_offset region k))
      \<le> hdr_payload_capacity (region_header region) \<and>
    obs = \<lparr>so_role = ValidatedRegionLayout_role (br_layout region), so_slot_index = k,
      so_generation = hdr_generation (region_header region), so_sequence = e,
      so_payload_len = meta_payload_len (load_metadata (mem 3) (slot_offset region k))\<rparr> \<and>
    rng = (slot_offset region k + 64, slot_offset region k + 64 +
      unat (meta_payload_len (load_metadata (mem 3) (slot_offset region k))))"
proof -
  have ok: "layout_ok (br_layout region)" using assms by (simp add: bound_ok_def)
  show ?thesis
    by (auto simp: observe_payload_def ReaderRegion_slot_eq [OF assms] outcome slot
        Suc_1 [unfolded One_nat_def] slot_payload_range_eq [OF ok] split: if_splits)
qed

lemma observe_payload_no_panic:
  assumes "bound_ok region"
  shows "observe_payload region mem k e \<noteq> Panic"
proof -
  have ok: "layout_ok (br_layout region)" using assms by (simp add: bound_ok_def)
  have "ReaderSlot_observe (reader_binding_of region k) mem' e \<noteq> Panic" for mem'
    using slot_count_nonzero [OF assms]
    by (auto simp: ReaderSlot_observe_def outcome slot Let_def)
  then show ?thesis
    by (auto simp: observe_payload_def ReaderRegion_slot_eq [OF assms] outcome slot
        slot_payload_range_eq [OF ok] split: if_splits)
qed

lemma recheck_payload_no_panic:
  assumes "bound_ok region"
  shows "recheck_payload region mem i k obs \<noteq> Panic"
  by (auto simp: recheck_payload_def ReaderRegion_slot_eq [OF assms] ReaderSlot_recheck_def outcome
      slot Let_def split: if_splits)

text \<open>Whatever the memory does, the bytes copied lie inside the slot.\<close>

lemma volatile_copy_payload:
  assumes "bound_ok region" "\<And>i. length (mem i) = nm_len (br_mapping region)"
    "observe_payload region mem k e = Ok (obs, rng)"
  shows "volatile_copy mem 4 (fst rng) (range_len rng) =
    Ok (map (\<lambda>j. mem (4 + j) ! (fst rng + j)) [0..<range_len rng])"
    "range_len rng = unat (so_payload_len obs)"
    "so_payload_len obs \<le> hdr_payload_capacity (region_header region)"
    "snd rng \<le> nm_len (br_mapping region)" "fst rng = slot_offset region k + 64"
proof -
  note o = assms(3) [unfolded observe_payload_Ok [OF assms(1)]]
  show l: "range_len rng = unat (so_payload_len obs)"
    "so_payload_len obs \<le> hdr_payload_capacity (region_header region)"
    and f: "fst rng = slot_offset region k + 64"
    using o by (simp_all add: range_len_def)
  have b: "slot_offset region k + 64 + unat (so_payload_len obs) \<le> nm_len (br_mapping region)"
    using o by (intro slot_offset_bounds(1) [OF assms(1)]) simp_all
  then show "snd rng \<le> nm_len (br_mapping region)" using o by simp
  show "volatile_copy mem 4 (fst rng) (range_len rng) =
      Ok (map (\<lambda>j. mem (4 + j) ! (fst rng + j)) [0..<range_len rng])"
    using b by (intro volatile_copy_ok) (simp add: l f assms(2))
qed

section \<open>Publishing\<close>

lemma next_sequence:
  assumes "sequence_of_slot b sequence" "unat sequence + unat (sb_slot_count b) < 2 ^ 64"
  shows "unat (sequence + ucast (sb_slot_count b)) = unat sequence + unat (sb_slot_count b)"
    "sequence_of_slot b (sequence + ucast (sb_slot_count b))"
proof -
  show u: "unat (sequence + ucast (sb_slot_count b)) = unat sequence + unat (sb_slot_count b)"
    using assms(2) by (simp add: unat_word_ariths unat_u64_from_u32)
  have s: "0 < unat sequence" "sb_slot_count b \<noteq> 0"
    "unat (sb_slot_index b) = (unat sequence - 1) mod unat (sb_slot_count b)"
    using assms(1) by (auto simp: sequence_of_slot_def unat_gt_0)
  have "unat sequence + unat (sb_slot_count b) - 1 = unat sequence - 1 + unat (sb_slot_count b)"
    using s(1) by simp
  then have "(unat sequence + unat (sb_slot_count b) - 1) mod unat (sb_slot_count b) =
      (unat sequence - 1) mod unat (sb_slot_count b)"
    by (simp only: mod_add_self2)
  then show "sequence_of_slot b (sequence + ucast (sb_slot_count b))"
    using s u by (auto simp: sequence_of_slot_def word_unat_eq_iff)
qed

lemma publish_reserved:
  assumes "prepare_publish b h sequence ack = Ok res" "n \<le> sb_payload_capacity b"
  shows "publish res h' n = (h'\<lparr>meta_payload_len := n, meta_published_sequence := sequence\<rparr>, Ok ())"
  using assms
  by (auto simp: slot publish_def store_payload_len_def store_published_sequence_def Let_def)

lemma write_payload_metadata:
  assumes "off + 64 + length payload \<le> length m"
  shows "load_metadata (write_at m (off + 64) payload) off = load_metadata m off"
  using assms by (intro load_metadata_cong) (simp_all add: wire)

definition published_bytes :: "bytes \<Rightarrow> usize \<Rightarrow> u64 \<Rightarrow> bytes \<Rightarrow> bytes" where
  "published_bytes m off sequence payload =
     store_metadata (write_at m (off + 64) payload) off
       ((load_metadata m off)\<lparr>meta_payload_len := word_of_nat (length payload),
          meta_published_sequence := sequence\<rparr>)"

lemma WriterRegion_slot_no_panic:
  assumes "bound_ok region"
  shows "WriterRegion_slot region m k \<noteq> Panic"
proof -
  have ok: "layout_ok (br_layout region)" using assms by (simp add: bound_ok_def)
  note f = find_route_Ok [OF assms, of "ValidatedRegionLayout_role (br_layout region)" k]
  have "find_route region target k \<noteq> Panic" for target
    by (simp add: find_route_eq [OF assms] outcome)
  then show ?thesis
    using record_at_slot [OF assms, of k] f(2)
    by (fastforce simp: WriterRegion_slot_def writer_slot_binding_def slot_range_eq [OF ok] Let_def
        WriterSlot_bind_def outcome slot split: if_splits)
qed

lemma prepare_publish_no_panic:
  assumes "bound_ok region"
  shows "prepare_publish (writer_binding_of region k route) h sequence ack \<noteq> Panic"
  using slot_count_nonzero [OF assms]
  by (auto simp: prepare_publish_def check_acknowledgement_def outcome slot Let_def split: if_splits)

lemma WriterRegion_publish_ok:
  assumes ok: "bound_ok region" and len: "length m = nm_len (br_mapping region)"
    and k: "k < hdr_slot_count (region_header region)"
    and n: "length payload \<le> unat (hdr_payload_capacity (region_header region))"
    and route: "find_route region (ValidatedRegionLayout_role (br_layout region)) k = Ok route"
    and res: "prepare_publish (writer_binding_of region k route)
      (load_metadata m (slot_offset region k)) sequence ack = Ok res"
  shows "WriterRegion_publish region m k sequence ack payload =
    (published_bytes m (slot_offset region k) sequence payload, Ok ())"
proof -
  have lok: "layout_ok (br_layout region)" using ok by (simp add: bound_ok_def)
  let ?off = "slot_offset region k" and ?n = "word_of_nat (length payload) :: u32"
  have l: "length payload < 2 ^ 32"
    using n unat_lt_pow [of "hdr_payload_capacity (region_header region)"] by simp
  then have un: "unat ?n = length payload" by simp
  have le: "?n \<le> hdr_payload_capacity (region_header region)" using n un by (simp add: word_le_nat_alt)
  have fits: "?off + 64 + length payload \<le> length m"
    using slot_offset_bounds(1) [OF ok k le] un len by simp
  have pre: "try_from_usize (length payload) = Some ?n"
    "slot_payload_range (br_layout region) k ?n = Ok (?off + 64, ?off + 64 + length payload)"
    using l un le k by (simp_all add: try_from_usize_def slot_payload_range_eq [OF lok] not_less)
  have slot: "WriterRegion_slot region m k = Ok (?off, writer_binding_of region k route)"
    using k route res unfolding WriterRegion_slot_Ok [OF ok] by (auto simp: slot)
  have "publish res (load_metadata (write_at m (?off + 64) payload) ?off) ?n =
      ((load_metadata m ?off)\<lparr>meta_payload_len := ?n, meta_published_sequence := sequence\<rparr>, Ok ())"
    using publish_reserved [OF res] le write_payload_metadata [OF fits] by simp
  then show ?thesis
    using fits slot res
    by (simp add: WriterRegion_publish_def pre copy_nonoverlapping_def published_bytes_def)
qed

lemma WriterRegion_publish_cases:
  assumes ok: "bound_ok region" and len: "length m = nm_len (br_mapping region)"
    and p: "WriterRegion_publish region m k sequence ack payload = (m', r)"
  shows "r \<noteq> Panic" and "\<And>e. r = Err e \<Longrightarrow> m' = m"
    and "r = Ok () \<Longrightarrow> m' = published_bytes m (slot_offset region k) sequence payload \<and>
      k < hdr_slot_count (region_header region) \<and> length payload < 2 ^ 32 \<and>
      word_of_nat (length payload) \<le> hdr_payload_capacity (region_header region) \<and>
      slot_offset region k + 64 + length payload \<le> length m \<and>
      (\<exists>route. find_route region (ValidatedRegionLayout_role (br_layout region)) k = Ok route \<and>
        is_ok (prepare_publish (writer_binding_of region k route)
          (load_metadata m (slot_offset region k)) sequence ack))"
proof -
  have lok: "layout_ok (br_layout region)" using ok by (simp add: bound_ok_def)
  let ?off = "slot_offset region k" and ?n = "word_of_nat (length payload) :: u32"
  let ?early = "r \<noteq> Panic \<and> m' = m \<and> r \<noteq> Ok ()"
  let ?full = "r = Ok () \<and> m' = published_bytes m ?off sequence payload \<and>
      k < hdr_slot_count (region_header region) \<and> length payload < 2 ^ 32 \<and>
      ?n \<le> hdr_payload_capacity (region_header region) \<and> ?off + 64 + length payload \<le> length m \<and>
      (\<exists>route. find_route region (ValidatedRegionLayout_role (br_layout region)) k = Ok route \<and>
        is_ok (prepare_publish (writer_binding_of region k route) (load_metadata m ?off) sequence ack))"
  have "?early \<or> ?full"
  proof (cases "length payload < 2 ^ 32 \<and> ?n \<le> hdr_payload_capacity (region_header region) \<and>
      k < hdr_slot_count (region_header region)")
    case False
    then show ?thesis
      using p by (auto simp: WriterRegion_publish_def try_from_usize_def slot_payload_range_eq [OF lok]
          not_less split: if_splits)
  next
    case True
    then have un: "unat ?n = length payload" by simp
    have fits: "?off + 64 + length payload \<le> length m"
      using slot_offset_bounds(1) [OF ok, of k ?n] True un len by simp
    have pre: "try_from_usize (length payload) = Some ?n"
      "slot_payload_range (br_layout region) k ?n = Ok (?off + 64, ?off + 64 + length payload)"
      using True un by (simp_all add: try_from_usize_def slot_payload_range_eq [OF lok] not_less)
    show ?thesis
    proof (cases "WriterRegion_slot region m k")
      case (Ok ob)
      obtain off b where ob: "ob = (off, b)" by fastforce
      then obtain route where off: "off = ?off" and b: "b = writer_binding_of region k route"
        and route: "find_route region (ValidatedRegionLayout_role (br_layout region)) k = Ok route"
        using Ok WriterRegion_slot_Ok [OF ok] by auto
      show ?thesis
      proof (cases "prepare_publish b (load_metadata m ?off) sequence ack")
        case prepared: (Ok res)
        have "length payload \<le> unat (hdr_payload_capacity (region_header region))"
          using True un by (simp add: word_le_nat_alt)
        then have "(m', r) = (published_bytes m ?off sequence payload, Ok ())"
          using WriterRegion_publish_ok [OF ok len _ _ route prepared [unfolded b]] p True by simp
        then show ?thesis using True fits route prepared b by (auto simp: is_ok_iff)
      qed (use p Ok ob off b prepare_publish_no_panic [OF ok] in
        \<open>auto simp: WriterRegion_publish_def pre\<close>)
    qed (use p WriterRegion_slot_no_panic [OF ok] in \<open>auto simp: WriterRegion_publish_def pre\<close>)
  qed
  then show "r \<noteq> Panic" and "\<And>e. r = Err e \<Longrightarrow> m' = m" and "r = Ok () \<Longrightarrow> m' = published_bytes m ?off sequence payload \<and>
      k < hdr_slot_count (region_header region) \<and> length payload < 2 ^ 32 \<and>
      ?n \<le> hdr_payload_capacity (region_header region) \<and> ?off + 64 + length payload \<le> length m \<and>
      (\<exists>route. find_route region (ValidatedRegionLayout_role (br_layout region)) k = Ok route \<and>
        is_ok (prepare_publish (writer_binding_of region k route) (load_metadata m ?off) sequence ack))"
    by auto
qed

lemma published_bytes_facts:
  assumes "off + 64 + length payload \<le> length m" "m' = published_bytes m off sequence payload"
  shows "length m' = length m"
    "load_metadata m' off = (load_metadata m off)\<lparr>meta_payload_len := word_of_nat (length payload),
       meta_published_sequence := sequence\<rparr>"
    "read_at m' (off + 64) (length payload) = payload"
    "\<And>i. i < length m \<Longrightarrow> i < off \<or> off + 64 + length payload \<le> i \<Longrightarrow> m' ! i = m ! i"
proof -
  let ?h = "(load_metadata m off)\<lparr>meta_payload_len := word_of_nat (length payload),
    meta_published_sequence := sequence\<rparr>"
  have l: "length (meta_reserved ?h) = 40" "length (metadata_bytes ?h) = 64"
    using assms(1) by simp_all
  show "length m' = length m" "load_metadata m' off = ?h"
    using assms l by (simp_all add: published_bytes_def load_store_metadata)
  show "read_at m' (off + 64) (length payload) = payload"
    using assms l by (simp add: published_bytes_def store_metadata_def wire)
  show "m' ! i = m ! i" if "i < length m" "i < off \<or> off + 64 + length payload \<le> i" for i
    using assms l that by (auto simp: published_bytes_def store_metadata_def wire)
qed

lemma bound_region_ok:
  assumes "WriterRegion_new mapping v t = Ok region \<or> ReaderRegion_new mapping v t = Ok region"
    "validate b e t = Ok v" "topology_ok t" "nm_base mapping mod 64 = 0"
  shows "bound_ok region" "region = \<lparr>br_mapping = mapping, br_layout = v, br_topology = t\<rparr>"
    "nm_len mapping = length b"
proof -
  have "nm_len mapping = vl_mapping_size v \<and> region = \<lparr>br_mapping = mapping, br_layout = v, br_topology = t\<rparr>"
    using assms(1)
    by (auto simp: WriterRegion_new_def ReaderRegion_new_def validate_mapping_size_def outcome
        split: if_splits)
  moreover have "vl_mapping_size v = length b"
    using assms(2) by (auto simp: validate_Ok_iff validated_of_def)
  ultimately show "bound_ok region" "region = \<lparr>br_mapping = mapping, br_layout = v, br_topology = t\<rparr>"
    "nm_len mapping = length b"
    using validate_layout_ok [OF assms(2)] assms(3,4) by (simp_all add: bound_ok_def)
qed

lemma validated_region:
  assumes "RegionSetLayout_calculate alloc sch g specs route_specs limits = Ok t" "validate b e t = Ok v"
  shows "\<exists>r \<in> set (set_regions t). rl_header r = vl_header v" "hdr_generation (vl_header v) = g"
proof -
  obtain r where r: "RegionSetLayout_region t (exp_role e) = Some r" "rl_header r = vl_header v"
    using assms(2) by (auto simp: validate_Ok_iff validated_of_def)
  have "r \<in> set (set_regions t)"
    using find_member [OF r(1) [unfolded RegionSetLayout_region_def]] by simp
  moreover from this have "hdr_generation (rl_header r) = g"
    by (auto simp: calculate_topology_ok(2) [OF assms(1)] region_of_def region_header_of_def)
  ultimately show "\<exists>r \<in> set (set_regions t). rl_header r = vl_header v"
    "hdr_generation (vl_header v) = g" using r(2) by auto
qed

lemma routed_cell:
  assumes "RegionSetLayout_calculate alloc sch g specs route_specs limits = Ok t" "validate b e t = Ok v"
    and "route \<in> set (set_routes t)" "rt_owner route = ValidatedRegionLayout_role v"
  shows "rt_cell_index route < hdr_acknowledgement_count (vl_header v)"
proof -
  have t: "topology_ok t" by (rule calculate_topology_ok [OF assms(1)])
  obtain r where r: "r \<in> set (set_regions t)" "rl_header r = vl_header v"
    using validated_region(1) [OF assms(1,2)] by blast
  obtain owner where o: "owner \<in> set (set_regions t)" "RegionLayout_role owner = rt_owner route"
    "rt_cell_index route < hdr_acknowledgement_count (rl_header owner)"
    using t assms(3) unfolding topology_ok_def routes_ok_def valid_route_def by blast
  have "RegionLayout_role r = RegionLayout_role owner"
    using o(2) assms(4) r(2) by (simp add: RegionLayout_role_def ValidatedRegionLayout_role_def)
  then have "owner = r"
    using t o(1) r(1) by (auto simp: topology_ok_def distinct_map dest: inj_onD)
  then show ?thesis using o(3) r(2) by simp
qed

lemma observe_published:
  assumes ok: "bound_ok region" "bound_ok region'" "br_layout region' = br_layout region"
    and len: "length m = nm_len (br_mapping region)"
    and p: "WriterRegion_publish region m k sequence ack payload = (m', Ok ())"
  shows "observe_payload region' (\<lambda>_. m') k sequence =
    Ok (\<lparr>so_role = ValidatedRegionLayout_role (br_layout region), so_slot_index = k,
         so_generation = hdr_generation (region_header region), so_sequence = sequence,
         so_payload_len = word_of_nat (length payload)\<rparr>,
       (slot_offset region k + 64, slot_offset region k + 64 + length payload))"
proof -
  note c = WriterRegion_publish_cases(3) [OF ok(1) len p refl]
  obtain route res where "prepare_publish (writer_binding_of region k route)
      (load_metadata m (slot_offset region k)) sequence ack = Ok res"
    using c by (auto simp: is_ok_iff)
  then have "hdr_generation (region_header region) \<noteq> 0"
    "meta_generation (load_metadata m (slot_offset region k)) = hdr_generation (region_header region)"
    "sequence_of_slot (reader_binding_of region k) sequence"
    by (auto simp: slot)
  moreover have "load_metadata m' (slot_offset region k) = (load_metadata m (slot_offset region k))
      \<lparr>meta_payload_len := word_of_nat (length payload), meta_published_sequence := sequence\<rparr>"
    using c by (intro published_bytes_facts(2)) blast+
  moreover have "k < hdr_slot_count (region_header region)" "length payload < 2 ^ 32"
    "word_of_nat (length payload) \<le> hdr_payload_capacity (region_header region)"
    using c by blast+
  ultimately show ?thesis
    unfolding observe_payload_Ok [OF ok(2)] ok(3) by simp
qed

lemma recheck_published:
  assumes "bound_ok region" "observe_payload region (\<lambda>_. m) k e = Ok (obs, rng)"
  shows "recheck_payload region (\<lambda>_. m) i k obs = Ok ()"
  using assms(2) [unfolded observe_payload_Ok [OF assms(1)]]
  by (simp add: recheck_payload_def ReaderRegion_slot_eq [OF assms(1)] outcome slot)

text \<open>After a publication the slot takes the next sequence with the exact acknowledgement only.\<close>

lemma publish_next:
  assumes ok: "bound_ok region" and len: "length m = nm_len (br_mapping region)"
    and p: "WriterRegion_publish region m k sequence ack payload = (m', Ok ())"
    and route: "find_route region (ValidatedRegionLayout_role (br_layout region)) k = Ok route"
    and fits: "unat sequence + unat (hdr_slot_count (region_header region)) < 2 ^ 64"
      "length payload' \<le> unat (hdr_payload_capacity (region_header region))"
  defines "a \<equiv> \<lparr>ao_owner = rt_owner route, ao_target = ValidatedRegionLayout_role (br_layout region),
      ao_generation = hdr_generation (region_header region), ao_slot_index = k,
      ao_cell_index = rt_cell_index route, ao_sequence = sequence\<rparr>"
  shows "\<exists>m''. WriterRegion_publish region m' k (sequence + ucast (hdr_slot_count (region_header region)))
      (Some a) payload' = (m'', Ok ())"
    "snd (WriterRegion_publish region m' k n None payload') \<noteq> Ok ()" "sequence \<noteq> 0"
proof -
  let ?off = "slot_offset region k" and ?b = "writer_binding_of region k route"
  let ?next = "sequence + ucast (hdr_slot_count (region_header region))"
  note pub = WriterRegion_publish_cases(3) [OF ok len p refl]
  have room: "?off + 64 + length payload \<le> length m" and k: "k < hdr_slot_count (region_header region)"
    and m': "m' = published_bytes m ?off sequence payload" using pub by auto
  note f = published_bytes_facts [OF room m']
  have prep: "hdr_generation (region_header region) \<noteq> 0"
    "meta_generation (load_metadata m ?off) = hdr_generation (region_header region)"
    "sequence_of_slot (reader_binding_of region k) sequence"
    using pub by (auto simp: is_ok_iff slot)
  show nz: "sequence \<noteq> 0" using prep(3) by (simp add: sequence_of_slot_def)
  note nx = next_sequence [OF prep(3), unfolded binding_sel, OF fits(1)]
  have lm: "length m' = nm_len (br_mapping region)" using f(1) len by simp
  have "prepare_publish ?b (load_metadata m' ?off) ?next (Some a) =
      Ok \<lparr>res_sequence = ?next, res_capacity = hdr_payload_capacity (region_header region)\<rparr>"
    unfolding prepare_publish_Ok using prep(1,2) nx nz by (simp add: f(2) exact_acknowledgement_def a_def)
  from WriterRegion_publish_ok [OF ok lm k fits(2) route this]
  show "\<exists>m''. WriterRegion_publish region m' k ?next (Some a) payload' = (m'', Ok ())" by blast
  show "snd (WriterRegion_publish region m' k n None payload') \<noteq> Ok ()"
  proof
    assume "snd (WriterRegion_publish region m' k n None payload') = Ok ()"
    then obtain m'' where "WriterRegion_publish region m' k n None payload' = (m'', Ok ())"
      by (metis prod.collapse)
    from WriterRegion_publish_cases(3) [OF ok lm this refl] show False
      using nz by (auto simp: is_ok_iff slot f(2))
  qed
qed

section \<open>Acknowledgements through a mapping\<close>

lemma acknowledgement_bound:
  assumes ok: "bound_ok region" and route: "find_route region target k = Ok route"
    and owner: "rt_owner route = ValidatedRegionLayout_role (br_layout region)"
    and cell: "rt_cell_index route < hdr_acknowledgement_count (region_header region)"
  shows "WriterRegion_acknowledgement region target k =
      Ok (128 + 64 * unat (rt_cell_index route),
        AcknowledgementBinding_validated route (hdr_generation (region_header region)))"
    "ReaderRegion_acknowledgement region target k =
      Ok (128 + 64 * unat (rt_cell_index route),
        AcknowledgementBinding_validated route (hdr_generation (region_header region)))"
    "128 + 64 * unat (rt_cell_index route) + 64 \<le> nm_len (br_mapping region)"
proof -
  have lok: "layout_ok (br_layout region)" using ok by (simp add: bound_ok_def)
  have r: "acknowledgement_range (br_layout region) (rt_cell_index route) =
      Ok (128 + 64 * unat (rt_cell_index route), 192 + 64 * unat (rt_cell_index route))"
    using cell by (simp add: acknowledgement_range_eq [OF lok])
  note a = record_at_cell [OF ok r]
  show "WriterRegion_acknowledgement region target k =
      Ok (128 + 64 * unat (rt_cell_index route),
        AcknowledgementBinding_validated route (hdr_generation (region_header region)))"
    "ReaderRegion_acknowledgement region target k =
      Ok (128 + 64 * unat (rt_cell_index route),
        AcknowledgementBinding_validated route (hdr_generation (region_header region)))"
    using a route owner
    by (simp_all add: WriterRegion_acknowledgement_def ReaderRegion_acknowledgement_def r
        acknowledgement_writer_binding_def acknowledgement_reader_binding_def)
  show "128 + 64 * unat (rt_cell_index route) + 64 \<le> nm_len (br_mapping region)"
    using acknowledgement_range_bounds(4) [OF lok r] ok by (simp add: bound_ok_def)
qed

lemma length_load_cell_reserved [simp]:
  "off + 64 \<le> length m \<Longrightarrow> length (cell_reserved (load_cell m off)) = 56"
  by (simp add: load_cell_def)

lemma acknowledge_then_observe:
  assumes ok: "bound_ok aw" "bound_ok ar" "br_layout ar = br_layout aw" "br_topology ar = br_topology aw"
    and route: "find_route aw target k = Ok route"
    and owner: "rt_owner route = ValidatedRegionLayout_role (br_layout aw)"
    and cell: "rt_cell_index route < hdr_acknowledgement_count (region_header aw)"
    and len: "length c = nm_len (br_mapping aw)"
    and obs: "so_role obs = target" "so_generation obs = hdr_generation (region_header aw)"
      "so_slot_index obs = k" "so_sequence obs \<noteq> 0"
      "cell_sequence (load_cell c (128 + 64 * unat (rt_cell_index route))) \<le> so_sequence obs"
  shows "\<exists>c'. acknowledge_through aw c target k obs = (c', Ok ()) \<and> observe_through ar c' target k =
    Ok \<lparr>ao_owner = rt_owner route, ao_target = target, ao_generation = so_generation obs,
        ao_slot_index = k, ao_cell_index = rt_cell_index route, ao_sequence = so_sequence obs\<rparr>"
proof -
  let ?off = "128 + 64 * unat (rt_cell_index route)"
  note w = acknowledgement_bound [OF ok(1) route owner cell]
  have "find_route ar target k = Ok route"
    using route by (simp add: find_route_def ok(4))
  note r = acknowledgement_bound(2) [OF ok(2) this, unfolded ok(3), OF owner cell]
  note t = find_route_Ok [OF ok(1) route]
  let ?cell = "(load_cell c ?off)\<lparr>cell_sequence := so_sequence obs\<rparr>"
  have a: "acknowledge (AcknowledgementBinding_validated route (hdr_generation (region_header aw)))
      (load_cell c ?off) obs = (?cell, Ok ())"
    unfolding acknowledge_Ok using obs t by (simp add: AcknowledgementBinding_validated_def)
  have l: "load_cell (store_cell c ?off ?cell) ?off = ?cell"
    using w(3) len by (intro load_store_cell) simp_all
  show ?thesis
    using a l w(1) r t obs(1,2)
    by (simp add: acknowledge_through_def observe_through_def AcknowledgementReader_observe_def
        AcknowledgementBinding_validated_def)
qed

section \<open>An example region\<close>

text \<open>The initialised mappings of the two regions of the example topology.\<close>

definition example_header :: "RegionSpec \<Rightarrow> RegionHeader" where
  "example_header spec = region_header_of (replicate 32 0x52) 1 spec"

definition example_bytes :: "RegionSpec \<Rightarrow> bytes" where
  "example_bytes spec =
     (case encode_into \<lparr>rl_header = example_header spec\<rparr> (replicate 512 0) of Ok b \<Rightarrow> b | _ \<Rightarrow> [])"

definition example_expectations :: "RegionSpec \<Rightarrow> ValidationExpectations" where
  "example_expectations spec =
     \<lparr>exp_schema_id = replicate 32 0x52, exp_generation = 1, exp_role = spec_role spec,
      exp_writer = spec_writer spec, exp_maximum_mapping_size = 4096\<rparr>"

definition example_layout :: "RegionSpec \<Rightarrow> ValidatedRegionLayout" where
  "example_layout spec = validated_of (example_bytes spec) (example_header spec) example_topology"

definition example_region :: "RegionSpec \<Rightarrow> BoundRegion" where
  "example_region spec =
     \<lparr>br_mapping = \<lparr>nm_base = 4096, nm_len = 512\<rparr>, br_layout = example_layout spec,
      br_topology = example_topology\<rparr>"

lemma example_spec:
  assumes "spec \<in> set example_specs"
  shows "total_nat spec = 512" "slots_offset_nat spec = 192" "stride_nat spec = 320"
    "spec_of (example_header spec) = spec" "spec_fits spec example_limits"
    "hdr_slot_count (example_header spec) = 1" "hdr_payload_capacity (example_header spec) = 256"
    "hdr_acknowledgement_count (example_header spec) = 1" "hdr_generation (example_header spec) = 1"
    "RoleId (hdr_role (example_header spec)) = spec_role spec"
    "RegionSetLayout_region example_topology (spec_role spec) =
      Some (region_of (replicate 32 0x52) 1 spec)"
  using assms
  by (auto simp: total_nat_def slots_offset_nat_def stride_nat_def example_specs_def spec_of_def
      example_header_def region_header_of_def Endpoint_from_raw_def spec_fits_def example_limits_def
      example_topology_def RegionSetLayout_region_def region_of_def RegionLayout_role_def)

lemma example_validates:
  assumes "spec \<in> set example_specs"
  shows "length (example_bytes spec) = 512" "quiescent_mapping (example_bytes spec) (example_header spec)"
    "validate (example_bytes spec) (example_expectations spec) example_topology = Ok (example_layout spec)"
proof -
  note s = example_spec [OF assms]
  note g = region_of_geometry [OF s(5), of "replicate 32 0x52" 1, folded example_header_def]
  have total: "unat (hdr_total_size (example_header spec)) = 512"
    by (simp add: example_header_def region_header_of_def s)
  show b: "length (example_bytes spec) = 512" "quiescent_mapping (example_bytes spec) (example_header spec)"
    using encode_into_quiescent [of "\<lparr>rl_header = example_header spec\<rparr>" "replicate 512 0"] g total
    by (auto simp: example_bytes_def example_header_def region_header_of_def)
  have "header_expected (example_header spec) (example_expectations spec)"
    by (cases "spec_writer spec") (simp_all add: header_expected_def example_header_def
        example_expectations_def region_header_of_def Endpoint_from_raw_def)
  then show "validate (example_bytes spec) (example_expectations spec) example_topology =
      Ok (example_layout spec)"
    using b g unfolding validate_Ok_iff example_layout_def
    by (intro exI [of _ "example_header spec"])
      (simp add: s(11) example_expectations_def region_of_def example_header_def)
qed

lemma example_layout_sel [simp]:
  "vl_header (example_layout spec) = example_header spec"
  "vl_routes (example_layout spec) = set_routes example_topology"
  by (simp_all add: example_layout_def validated_of_def)

lemma example_bound:
  assumes "spec \<in> set example_specs"
  shows "WriterRegion_new \<lparr>nm_base = 4096, nm_len = 512\<rparr> (example_layout spec) example_topology =
      Ok (example_region spec)"
    "ReaderRegion_new \<lparr>nm_base = 4096, nm_len = 512\<rparr> (example_layout spec) example_topology =
      Ok (example_region spec)"
    "bound_ok (example_region spec)"
proof -
  have m: "matches_topology (example_layout spec) example_topology"
    using example_spec(10,11) [OF assms]
    by (simp add: matches_topology_def ValidatedRegionLayout_role_def region_of_def
        example_header_def list_all_iff)
  have size: "vl_mapping_size (example_layout spec) = 512"
    using example_validates(1) [OF assms] by (simp add: example_layout_def validated_of_def)
  show w: "WriterRegion_new \<lparr>nm_base = 4096, nm_len = 512\<rparr> (example_layout spec) example_topology =
      Ok (example_region spec)"
    "ReaderRegion_new \<lparr>nm_base = 4096, nm_len = 512\<rparr> (example_layout spec) example_topology =
      Ok (example_region spec)"
    by (simp_all add: WriterRegion_new_def ReaderRegion_new_def validate_mapping_size_def size
        validate_topology_def m example_region_def)
  show "bound_ok (example_region spec)"
    by (rule bound_region_ok(1) [OF disjI1 [OF w(1)] example_validates(3) [OF assms]
        calculate_topology_ok(1) [OF example_calculate]]) simp
qed

lemma from_le_bytes_zero: "from_le_bytes (replicate n 0) = 0"
  by (induction n) simp_all

lemma example_metadata:
  assumes "spec \<in> set example_specs"
  shows "load_metadata (example_bytes spec) 192 = SlotMetadata_new 1"
    "load_cell (example_bytes spec) 128 = AcknowledgementCell_new"
proof -
  note s = example_spec [OF assms] and v = example_validates [OF assms]
  have "slot_initialised (example_bytes spec) (example_header spec) 0"
    "read_at (example_bytes spec) 128 64 = replicate 64 0"
    using v(2) by (simp_all add: quiescent_mapping_def s)
  then have i: "read_at (example_bytes spec) 192 8 = to_le_bytes 8 (1 :: u64)"
    "read_at (example_bytes spec) 200 56 = replicate 56 0"
    "read_at (example_bytes spec) 128 64 = replicate 64 0"
    by (simp_all add: slot_initialised_def slot_start_def s)
  have "read_at (example_bytes spec) 192 64 = to_le_bytes 8 (1 :: u64) @ replicate 56 0"
    using i(1,2) read_at_split [of 8 64 "example_bytes spec" 192] by simp
  then show "load_metadata (example_bytes spec) 192 = SlotMetadata_new 1"
    using v(1) load_metadata_read_at [of 192 "example_bytes spec"]
    by (simp add: load_metadata_record SlotMetadata_new_def from_to_le_bytes from_le_bytes_zero)
  show "load_cell (example_bytes spec) 128 = AcknowledgementCell_new"
    using v(1) load_cell_read_at [of 128 "example_bytes spec"] i(3)
    by (simp add: load_cell_def [of "replicate 64 0"] read_at_def AcknowledgementCell_new_def
        from_le_bytes_zero)
qed

lemma example_publish:
  assumes "spec \<in> set example_specs" "length payload \<le> 256"
  shows "WriterRegion_publish (example_region spec) (example_bytes spec) 0 1 None payload =
    (published_bytes (example_bytes spec) 192 1 payload, Ok ())"
proof -
  note s = example_spec [OF assms(1)] and b = example_bound [OF assms(1)]
  let ?r = "example_region spec"
  have sel: "br_layout ?r = example_layout spec" "br_topology ?r = example_topology"
    "nm_len (br_mapping ?r) = 512"
    by (simp_all add: example_region_def)
  have off: "slot_start (example_header spec) 0 = 192" by (simp add: slot_start_def s)
  obtain route where r: "find_route ?r (ValidatedRegionLayout_role (br_layout ?r)) 0 = Ok route"
    using assms(1) by (auto simp: find_route_eq [OF b(3)] sel ValidatedRegionLayout_role_def s(10)
        example_specs_def example_topology_def example_routes_def route_of_def
        AcknowledgementRoute_validated_def)
  have "sequence_of_slot (reader_binding_of ?r 0) 1"
    unfolding sequence_of_slot_def by (simp add: sel s)
  then have "prepare_publish (writer_binding_of ?r 0 route) (load_metadata (example_bytes spec) 192) 1 None =
      Ok \<lparr>res_sequence = 1, res_capacity = 256\<rparr>"
    unfolding prepare_publish_Ok by (simp add: sel s example_metadata [OF assms(1)] SlotMetadata_new_def)
  then show ?thesis
    using WriterRegion_publish_ok [OF b(3) _ _ _ r, of "example_bytes spec" payload 1 None] assms(2)
    by (simp add: off sel s example_validates [OF assms(1)])
qed

section \<open>Properties\<close>

text \<open>C13: publishing and copying.  When the writer's publication of a payload succeeds, a reader of the
  same region that asks for that sequence copies exactly the published payload, into a fresh buffer
  when one can be allocated and into any destination that is long enough, whose remaining bytes stay
  as they were.\<close>

theorem publish_then_copy:
  assumes "RegionSetLayout_calculate alloc' schema_id generation specs route_specs limits = Ok t"
    and "validate b e t = Ok v"
    and "WriterRegion_new wm v t = Ok writer" "nm_base wm mod 64 = 0"
    and "ReaderRegion_new rm v t = Ok reader" "nm_base rm mod 64 = 0"
    and "length m = length b"
    and "WriterRegion_publish writer m slot sequence ack payload = (m', Ok ())"
  shows "copy_payload alloc reader (\<lambda>_. m') slot sequence =
      (if alloc (length payload) then Ok payload else Err BindingError.AllocationFailed) \<and>
    copy_payload_into reader (\<lambda>_. m') slot sequence destination =
      (if length payload \<le> length destination
       then (payload @ drop (length payload) destination, Ok (length payload))
       else (destination, Err (BindingError.DestinationTooSmall (length payload) (length destination))))"
proof -
  have t: "topology_ok t" by (rule calculate_topology_ok [OF assms(1)])
  note w = bound_region_ok [OF disjI1 [OF assms(3)] assms(2) t assms(4)]
  note r = bound_region_ok [OF disjI2 [OF assms(5)] assms(2) t assms(6)]
  have len: "length m = nm_len (br_mapping writer)" using assms(7) w by simp
  note c = WriterRegion_publish_cases(3) [OF w(1) len assms(8) refl]
  have same: "br_layout reader = br_layout writer" using w(2) r(2) by simp
  note o = observe_published [OF w(1) r(1) same len assms(8)]
  have m': "m' = published_bytes m (slot_offset writer slot) sequence payload"
    and fits: "slot_offset writer slot + 64 + length payload \<le> length m" using c by auto
  note f = published_bytes_facts [OF fits m']
  have "length m' = nm_len (br_mapping reader)" using f(1) assms(7) r by simp
  note copy = volatile_copy_payload(1) [OF r(1) this o]
  have "map (\<lambda>j. m' ! (slot_offset writer slot + 64 + j)) [0..<length payload] =
      read_at m' (slot_offset writer slot + 64) (length payload)"
    by (rule nth_equalityI) (use fits f(1) in \<open>simp_all add: read_at_nth\<close>)
  then have "volatile_copy (\<lambda>_. m') 4 (slot_offset writer slot + 64) (length payload) = Ok payload"
    using copy f(3) by (simp add: range_len_def)
  then show ?thesis
    using recheck_published [OF r(1) o]
    by (simp add: copy_payload_def copy_payload_into_def o range_len_def write_at_def not_less)
qed

theorem publish_then_copy_witness:
  "\<exists>m'. WriterRegion_publish (example_region (hd example_specs)) (example_bytes (hd example_specs)) 0 1
       None [7, 8, 9] = (m', Ok ()) \<and>
     copy_payload (\<lambda>_. True) (example_region (hd example_specs)) (\<lambda>_. m') 0 1 = Ok [7, 8, 9] \<and>
     copy_payload_into (example_region (hd example_specs)) (\<lambda>_. m') 0 1 [1, 2, 3, 4, 5] =
       ([7, 8, 9, 4, 5], Ok 3)"
proof -
  have m: "hd example_specs \<in> set example_specs" by (simp add: example_specs_def)
  note b = example_bound [OF m]
  have p: "WriterRegion_publish (example_region (hd example_specs)) (example_bytes (hd example_specs)) 0 1
      None [7, 8, 9] = (published_bytes (example_bytes (hd example_specs)) 192 1 [7, 8, 9], Ok ())"
    by (rule example_publish [OF m]) simp
  from publish_then_copy [OF example_calculate example_validates(3) [OF m] b(1) _ b(2) _ refl p,
      of "\<lambda>_. True" "[1, 2, 3, 4, 5]"] p
  show ?thesis by simp
qed

text \<open>a publication touches only its slot and fails atomically.  The writer never reads or writes
  outside its mapping; when publication fails the mapping is unchanged, and when it succeeds every
  byte outside the metadata record and the payload of the slot is unchanged.\<close>

theorem publish_frame:
  assumes "RegionSetLayout_calculate alloc' schema_id generation specs route_specs limits = Ok t"
    and "validate b e t = Ok v"
    and "WriterRegion_new wm v t = Ok writer" "nm_base wm mod 64 = 0"
    and "length m = length b"
    and "WriterRegion_publish writer m slot sequence ack payload = (m', r)"
  shows "r \<noteq> Panic \<and> (\<forall>error. r = Err error \<longrightarrow> m' = m) \<and>
    (r = Ok () \<longrightarrow> (\<exists>range. slot_range v slot = Ok range \<and>
      fst range + 64 + length payload \<le> snd range \<and> length m' = length m \<and>
      (\<forall>i < length m. i < fst range \<or> fst range + 64 + length payload \<le> i \<longrightarrow> m' ! i = m ! i)))"
proof -
  have t: "topology_ok t" by (rule calculate_topology_ok [OF assms(1)])
  note w = bound_region_ok [OF disjI1 [OF assms(3)] assms(2) t assms(4)]
  have len: "length m = nm_len (br_mapping writer)" using assms(5) w by simp
  have v: "br_layout writer = v" using w(2) by simp
  note c = WriterRegion_publish_cases [OF w(1) len assms(6)]
  have "\<exists>range. slot_range v slot = Ok range \<and> fst range + 64 + length payload \<le> snd range \<and>
      length m' = length m \<and>
      (\<forall>i < length m. i < fst range \<or> fst range + 64 + length payload \<le> i \<longrightarrow> m' ! i = m ! i)"
    if "r = Ok ()"
  proof -
    note ok = c(3) [OF that]
    have fits: "slot_begin v slot + 64 + length payload \<le> length m"
      and m': "m' = published_bytes m (slot_begin v slot) sequence payload" using ok v by auto
    note f = published_bytes_facts [OF fits m']
    have "unat (word_of_nat (length payload) :: u32) \<le> unat (hdr_payload_capacity (vl_header v))"
      using ok v by (simp only: word_le_nat_alt)
    also have "\<dots> \<le> 64 * ((unat (hdr_payload_capacity (vl_header v)) + 63) div 64)" by simp
    finally have "64 + length payload \<le> stride_nat (spec_of (vl_header v))"
      using ok by (simp add: stride_nat_def)
    moreover have "slot_range v slot =
        Ok (slot_begin v slot, slot_begin v slot + stride_nat (spec_of (vl_header v)))"
      using ok v slot_range_eq [OF validate_layout_ok [OF assms(2)], of slot] by simp
    ultimately show ?thesis using f(1,4) by simp
  qed
  then show ?thesis using c(1,2) by blast
qed

theorem publish_frame_witness:
  "fst (WriterRegion_publish (example_region (hd example_specs)) (example_bytes (hd example_specs)) 0 2
       None [7, 8, 9]) = example_bytes (hd example_specs)"
proof -
  have m: "hd example_specs \<in> set example_specs" by (simp add: example_specs_def)
  note b = example_bound [OF m]
  let ?p = "WriterRegion_publish (example_region (hd example_specs)) (example_bytes (hd example_specs)) 0 2
    None [7, 8, 9]"
  have sel: "br_layout (example_region (hd example_specs)) = example_layout (hd example_specs)"
    by (simp add: example_region_def)
  have "\<not> is_ok (prepare_publish (writer_binding_of (example_region (hd example_specs)) 0 route)
      (load_metadata (example_bytes (hd example_specs)) (slot_offset (example_region (hd example_specs)) 0))
      2 None)" for route
    by (simp add: is_ok_iff slot sel slot_start_def example_spec [OF m] example_metadata [OF m]
        SlotMetadata_new_def)
  then have "snd ?p \<noteq> Ok ()"
    using WriterRegion_publish_cases(3) [OF b(3) _ prod.collapse [symmetric, of ?p]]
      example_validates(1) [OF m]
    by (auto simp: example_region_def)
  then show ?thesis
    using publish_frame [OF example_calculate example_validates(3) [OF m] b(1) _ refl
        prod.collapse [symmetric, of ?p]]
    by (cases "snd ?p") auto
qed

text \<open>C23: a reader is safe against any peer.  Whatever the contents of the shared mapping are at each of
  its loads, copying a payload stays inside the mapping and does not panic; a copy it returns has at
  most the payload capacity of the region and consists of the bytes loaded from the slot, and copying
  into a destination never changes its length or a byte behind the returned length.\<close>

theorem hostile_copy_bounded:
  assumes "RegionSetLayout_calculate alloc' schema_id generation specs route_specs limits = Ok t"
    and "validate b e t = Ok v"
    and "ReaderRegion_new rm v t = Ok reader" "nm_base rm mod 64 = 0"
    and "\<And>i. length (mem i) = length b"
  shows "copy_payload alloc reader mem slot sequence \<noteq> Panic \<and>
    (\<forall>owned. copy_payload alloc reader mem slot sequence = Ok owned \<longrightarrow>
      length owned \<le> unat (hdr_payload_capacity (vl_header v)) \<and>
      (\<exists>range. slot_range v slot = Ok range \<and> fst range + 64 + length owned \<le> length b \<and>
        (\<forall>j < length owned. owned ! j = mem (4 + j) ! (fst range + 64 + j)))) \<and>
    (\<forall>d r. copy_payload_into reader mem slot sequence destination = (d, r) \<longrightarrow> r \<noteq> Panic \<and>
      length d = length destination \<and>
      (\<forall>n. r = Ok n \<longrightarrow> n \<le> length d \<and> n \<le> unat (hdr_payload_capacity (vl_header v)) \<and>
        drop n d = drop n destination))"
proof (cases "observe_payload reader mem slot sequence")
  case (Ok found)
  obtain obs rng where f: "found = (obs, rng)" by (cases found)
  have t: "topology_ok t" by (rule calculate_topology_ok [OF assms(1)])
  note r = bound_region_ok [OF disjI2 [OF assms(3)] assms(2) t assms(4)]
  have o: "observe_payload reader mem slot sequence = Ok (obs, rng)" using Ok f by simp
  have len: "length (mem i) = nm_len (br_mapping reader)" for i using assms(5) r by simp
  have v: "br_layout reader = v" "nm_len (br_mapping reader) = length b" using r by simp_all
  note c = volatile_copy_payload [OF r(1) len o, unfolded v]
  have n: "range_len rng \<le> unat (hdr_payload_capacity (vl_header v))"
    using c(2,3) by (simp add: word_le_nat_alt)
  have range: "slot_range v slot =
      Ok (slot_begin v slot, slot_begin v slot + stride_nat (spec_of (vl_header v)))"
    using o slot_range_eq [OF validate_layout_ok [OF assms(2)], of slot] v
    unfolding observe_payload_Ok [OF r(1)] by simp
  have fits: "slot_begin v slot + 64 + range_len rng \<le> length b"
    using o c(4) unfolding observe_payload_Ok [OF r(1)] v by (simp add: range_len_def)
  note np = recheck_payload_no_panic [OF r(1), of mem "4 + range_len rng" slot obs]
  show ?thesis
    using np n fits
    by (cases "recheck_payload reader mem (4 + range_len rng) slot obs")
      (simp_all add: copy_payload_def copy_payload_into_def o c(1) [unfolded c(5)] c(5) range write_at_def not_less)
qed (use observe_payload_no_panic [OF bound_region_ok(1) [OF disjI2 [OF assms(3)] assms(2)
    calculate_topology_ok(1) [OF assms(1)] assms(4)]]
  in \<open>simp_all add: copy_payload_def copy_payload_into_def\<close>)

theorem hostile_copy_bounded_witness:
  "copy_payload (\<lambda>_. True) (example_region (hd example_specs)) (\<lambda>i. replicate 512 (word_of_nat i)) 0 1 \<noteq> Panic"
proof -
  have m: "hd example_specs \<in> set example_specs" by (simp add: example_specs_def)
  from hostile_copy_bounded [OF example_calculate example_validates(3) [OF m] example_bound(2) [OF m],
      of "\<lambda>i. replicate 512 (word_of_nat i)" "\<lambda>_. True" 0 1]
  show ?thesis by (simp add: example_validates(1) [OF m])
qed



end
