(* ===== verification/Limits.thy ===== *)
theory Limits
  imports Ipc_Prelude
begin

text \<open>
  The finite limits and atomic facts that two endpoints negotiate, from
  \<^verbatim>\<open>native-ipc/src/session.rs\<close> (\<^verbatim>\<open>SessionLimits\<close>, \<^verbatim>\<open>AtomicCapabilities\<close>).
\<close>

section \<open>Limits\<close>

definition HARD_MAX_REGIONS_PER_BATCH :: u16 where "HARD_MAX_REGIONS_PER_BATCH = 16"
definition HARD_MAX_BOOTSTRAP_PAYLOAD_BYTES :: u32 where
  "HARD_MAX_BOOTSTRAP_PAYLOAD_BYTES = 16 * 1024 * 1024"
definition HARD_MAX_CONTROL_PAYLOAD_BYTES :: u32 where
  "HARD_MAX_CONTROL_PAYLOAD_BYTES = 16 * 1024 * 1024"
definition HARD_MAX_REGION_BYTES :: u64 where "HARD_MAX_REGION_BYTES = 2 ^ 40"
definition HARD_MAX_BATCH_BYTES :: u64 where "HARD_MAX_BATCH_BYTES = 2 ^ 42"
definition HARD_MAX_ACTIVE_REGIONS :: u32 where "HARD_MAX_ACTIVE_REGIONS = 2 ^ 20"
definition HARD_MAX_ACTIVE_BYTES :: u64 where "HARD_MAX_ACTIVE_BYTES = 2 ^ 44"
definition HARD_MAX_TRANSACTIONS :: u64 where "HARD_MAX_TRANSACTIONS = 2 ^ 48"

lemmas hard_max_defs =
  HARD_MAX_REGIONS_PER_BATCH_def HARD_MAX_BOOTSTRAP_PAYLOAD_BYTES_def
  HARD_MAX_CONTROL_PAYLOAD_BYTES_def HARD_MAX_REGION_BYTES_def HARD_MAX_BATCH_BYTES_def
  HARD_MAX_ACTIVE_REGIONS_def HARD_MAX_ACTIVE_BYTES_def HARD_MAX_TRANSACTIONS_def

record SessionLimits =
  max_regions_per_batch :: u16
  max_region_bytes :: u64
  max_batch_bytes :: u64
  max_active_regions :: u32
  max_active_bytes :: u64
  max_transactions :: u64
  max_bootstrap_payload_bytes :: u32
  max_control_payload_bytes :: u32

definition SessionLimits_default :: SessionLimits where
  "SessionLimits_default =
     \<lparr>max_regions_per_batch = 16, max_region_bytes = 256 * 1024 * 1024,
      max_batch_bytes = 1024 * 1024 * 1024, max_active_regions = 4096,
      max_active_bytes = 8 * 1024 * 1024 * 1024, max_transactions = 2 ^ 32,
      max_bootstrap_payload_bytes = 1024 * 1024, max_control_payload_bytes = 1024 * 1024\<rparr>"

datatype NegotiationError =
    ZeroLimit
  | AboveHardMaximum
  | NativeSizeNarrowing
  | AtomicUnsupported
  | InvalidDeadline

definition validate_for_native_max :: "SessionLimits \<Rightarrow> u64 \<Rightarrow> (SessionLimits, NegotiationError) result"
where
  "validate_for_native_max l native_usize_max =
     (if max_regions_per_batch l = 0 \<or> max_region_bytes l = 0 \<or> max_batch_bytes l = 0 \<or>
        max_active_regions l = 0 \<or> max_active_bytes l = 0 \<or> max_transactions l = 0 \<or>
        max_bootstrap_payload_bytes l = 0 \<or> max_control_payload_bytes l = 0
      then Err ZeroLimit
      else if max_regions_per_batch l > HARD_MAX_REGIONS_PER_BATCH \<or>
        max_region_bytes l > HARD_MAX_REGION_BYTES \<or> max_batch_bytes l > HARD_MAX_BATCH_BYTES \<or>
        max_active_regions l > HARD_MAX_ACTIVE_REGIONS \<or>
        max_active_bytes l > HARD_MAX_ACTIVE_BYTES \<or> max_transactions l > HARD_MAX_TRANSACTIONS \<or>
        max_bootstrap_payload_bytes l > HARD_MAX_BOOTSTRAP_PAYLOAD_BYTES \<or>
        max_control_payload_bytes l > HARD_MAX_CONTROL_PAYLOAD_BYTES
      then Err AboveHardMaximum
      else if max_region_bytes l > native_usize_max \<or> max_batch_bytes l > native_usize_max \<or>
        max_active_bytes l > native_usize_max \<or>
        ucast (max_bootstrap_payload_bytes l) > native_usize_max \<or>
        ucast (max_control_payload_bytes l) > native_usize_max
      then Err NativeSizeNarrowing
      else Ok l)"

definition SessionLimits_validate :: "SessionLimits \<Rightarrow> (SessionLimits, NegotiationError) result" where
  "SessionLimits_validate l = validate_for_native_max l (word_of_nat usize_max)"

definition SessionLimits_negotiate ::
    "SessionLimits \<Rightarrow> SessionLimits \<Rightarrow> (SessionLimits, NegotiationError) result" where
  "SessionLimits_negotiate l peer =
     rbind (SessionLimits_validate l) (\<lambda>l.
     rbind (SessionLimits_validate peer) (\<lambda>peer.
     SessionLimits_validate
       \<lparr>max_regions_per_batch = min (max_regions_per_batch l) (max_regions_per_batch peer),
        max_region_bytes = min (max_region_bytes l) (max_region_bytes peer),
        max_batch_bytes = min (max_batch_bytes l) (max_batch_bytes peer),
        max_active_regions = min (max_active_regions l) (max_active_regions peer),
        max_active_bytes = min (max_active_bytes l) (max_active_bytes peer),
        max_transactions = min (max_transactions l) (max_transactions peer),
        max_bootstrap_payload_bytes =
          min (max_bootstrap_payload_bytes l) (max_bootstrap_payload_bytes peer),
        max_control_payload_bytes =
          min (max_control_payload_bytes l) (max_control_payload_bytes peer)\<rparr>))"

section \<open>Atomic facts\<close>

text \<open>\<^verbatim>\<open>is_power_of_two\<close> on a 64-bit \<^verbatim>\<open>usize\<close>.\<close>

definition is_power_of_two :: "usize \<Rightarrow> bool" where
  "is_power_of_two n \<longleftrightarrow> list_ex (\<lambda>k. n = 2 ^ k) [0..<64]"

record AtomicCapabilities =
  atomic_u32_lock_free :: bool
  atomic_u32_alignment :: usize
  atomic_u64_lock_free :: bool
  atomic_u64_alignment :: usize
  page_alignment :: usize
  cache_line_alignment :: usize

text \<open>\<^verbatim>\<open>align_of\<close> of the two atomic types is 4 and 8 on every supported 64-bit target.\<close>

definition from_verified_native ::
    "usize \<Rightarrow> usize \<Rightarrow> bool \<Rightarrow> bool \<Rightarrow> (AtomicCapabilities, NegotiationError) result" where
  "from_verified_native page cache_line u32_lock_free u64_lock_free =
     (let u32_alignment = 4; u64_alignment = 8 in
      if \<not> is_power_of_two page \<or> \<not> is_power_of_two cache_line \<or>
        page < max u32_alignment u64_alignment \<or> cache_line < max u32_alignment u64_alignment
      then Err AtomicUnsupported
      else
        Ok \<lparr>atomic_u32_lock_free = u32_lock_free, atomic_u32_alignment = u32_alignment,
            atomic_u64_lock_free = u64_lock_free, atomic_u64_alignment = u64_alignment,
            page_alignment = page, cache_line_alignment = cache_line\<rparr>)"

definition require :: "AtomicCapabilities \<Rightarrow> bool \<Rightarrow> bool \<Rightarrow> (AtomicCapabilities, NegotiationError) result"
where
  "require a u32_required u64_required =
     (if u32_required \<and> \<not> atomic_u32_lock_free a \<or> u64_required \<and> \<not> atomic_u64_lock_free a
      then Err AtomicUnsupported
      else Ok a)"

section \<open>What the limits guarantee\<close>

definition limits_valid :: "SessionLimits \<Rightarrow> bool" where
  "limits_valid l \<longleftrightarrow>
     0 < max_regions_per_batch l \<and> max_regions_per_batch l \<le> 16 \<and>
     0 < max_region_bytes l \<and> max_region_bytes l \<le> 2 ^ 40 \<and>
     0 < max_batch_bytes l \<and> max_batch_bytes l \<le> 2 ^ 42 \<and>
     0 < max_active_regions l \<and> max_active_regions l \<le> 2 ^ 20 \<and>
     0 < max_active_bytes l \<and> max_active_bytes l \<le> 2 ^ 44 \<and>
     0 < max_transactions l \<and> max_transactions l \<le> 2 ^ 48 \<and>
     0 < max_bootstrap_payload_bytes l \<and> max_bootstrap_payload_bytes l \<le> 2 ^ 24 \<and>
     0 < max_control_payload_bytes l \<and> max_control_payload_bytes l \<le> 2 ^ 24"

text \<open>The pointwise order of limits; the negotiated limits are the meet of the two offers.\<close>

definition limits_le :: "SessionLimits \<Rightarrow> SessionLimits \<Rightarrow> bool" where
  "limits_le a b \<longleftrightarrow>
     max_regions_per_batch a \<le> max_regions_per_batch b \<and> max_region_bytes a \<le> max_region_bytes b \<and>
     max_batch_bytes a \<le> max_batch_bytes b \<and> max_active_regions a \<le> max_active_regions b \<and>
     max_active_bytes a \<le> max_active_bytes b \<and> max_transactions a \<le> max_transactions b \<and>
     max_bootstrap_payload_bytes a \<le> max_bootstrap_payload_bytes b \<and>
     max_control_payload_bytes a \<le> max_control_payload_bytes b"

lemma usize_max_word: "(word_of_nat usize_max :: u64) = - 1"
  by (simp add: usize_max_def)

lemma limits_validate_Ok [outcome]:
  "SessionLimits_validate l = Ok l' \<longleftrightarrow> l' = l \<and> limits_valid l"
  by (auto simp: SessionLimits_validate_def validate_for_native_max_def usize_max_word hard_max_defs
      limits_valid_def word_neq_0_conv not_less)

lemma limits_validate_Panic [outcome]: "SessionLimits_validate l \<noteq> Panic"
  by (simp add: SessionLimits_validate_def validate_for_native_max_def)

lemma limits_le_refl: "limits_le a a"
  by (simp add: limits_le_def)

lemma limits_le_trans: "limits_le a b \<Longrightarrow> limits_le b c \<Longrightarrow> limits_le a c"
  by (auto simp: limits_le_def)

lemma limits_le_antisym: "limits_le a b \<Longrightarrow> limits_le b a \<Longrightarrow> a = (b :: SessionLimits)"
  by (cases a; cases b) (auto simp: limits_le_def)

definition limits_meet :: "SessionLimits \<Rightarrow> SessionLimits \<Rightarrow> SessionLimits" where
  "limits_meet l peer =
     \<lparr>max_regions_per_batch = min (max_regions_per_batch l) (max_regions_per_batch peer),
      max_region_bytes = min (max_region_bytes l) (max_region_bytes peer),
      max_batch_bytes = min (max_batch_bytes l) (max_batch_bytes peer),
      max_active_regions = min (max_active_regions l) (max_active_regions peer),
      max_active_bytes = min (max_active_bytes l) (max_active_bytes peer),
      max_transactions = min (max_transactions l) (max_transactions peer),
      max_bootstrap_payload_bytes =
        min (max_bootstrap_payload_bytes l) (max_bootstrap_payload_bytes peer),
      max_control_payload_bytes =
        min (max_control_payload_bytes l) (max_control_payload_bytes peer)\<rparr>"

lemma limits_meet_valid: "limits_valid l \<Longrightarrow> limits_valid peer \<Longrightarrow> limits_valid (limits_meet l peer)"
  by (simp add: limits_valid_def limits_meet_def min_def)

lemma limits_meet_greatest:
  "limits_le c (limits_meet l peer) \<longleftrightarrow> limits_le c l \<and> limits_le c peer"
  by (auto simp: limits_le_def limits_meet_def)

lemma limits_negotiate_Ok [outcome]:
  "SessionLimits_negotiate l peer = Ok e \<longleftrightarrow>
     limits_valid l \<and> limits_valid peer \<and> e = limits_meet l peer"
  using limits_meet_valid [of l peer]
  by (auto simp: SessionLimits_negotiate_def outcome limits_meet_def)

lemma limits_meet_commute: "limits_meet l peer = limits_meet peer l"
  by (simp add: limits_meet_def min.commute)

section \<open>Properties\<close>

text \<open>negotiation of limits succeeds exactly when both offers are nonzero and within the hard maxima.
  The result is then the greatest limits below both offers, which both endpoints therefore compute
  alike, and is itself nonzero and within the hard maxima.\<close>

theorem negotiated_limits_are_meet:
  "SessionLimits_negotiate l peer = Ok e \<longleftrightarrow>
     limits_valid l \<and> limits_valid peer \<and> limits_valid e \<and>
     (\<forall>c. limits_le c e \<longleftrightarrow> limits_le c l \<and> limits_le c peer)"
proof
  assume "SessionLimits_negotiate l peer = Ok e"
  then show "limits_valid l \<and> limits_valid peer \<and> limits_valid e \<and>
     (\<forall>c. limits_le c e \<longleftrightarrow> limits_le c l \<and> limits_le c peer)"
    using limits_meet_valid [of l peer] limits_meet_greatest [of _ l peer] by (simp add: outcome)
next
  assume r: "limits_valid l \<and> limits_valid peer \<and> limits_valid e \<and>
     (\<forall>c. limits_le c e \<longleftrightarrow> limits_le c l \<and> limits_le c peer)"
  then have "limits_le e (limits_meet l peer)" "limits_le (limits_meet l peer) e"
    using limits_meet_greatest limits_le_refl by blast+
  then have "e = limits_meet l peer" by (rule limits_le_antisym)
  then show "SessionLimits_negotiate l peer = Ok e" using r by (simp add: outcome)
qed

end
