(* ===== verification/Negotiation.thy ===== *)
theory Negotiation
  imports Limits
begin

text \<open>
  The negotiation wire, \<^verbatim>\<open>native-ipc/src/negotiation.rs\<close>: the HELLO, ACCEPT and REJECT frames, their
  canonical 224-byte header, validation, encoding and decoding, and the transcript that the two
  HELLOs hash to.  Byte arrays of fixed length are lists; \<open>frame_wf\<close> states their lengths and the
  nonzero types.  The allocator and SHA-256 are parameters.
\<close>

unbundle bit_operations_syntax

section \<open>Constants and data\<close>

definition MAGIC :: bytes where "MAGIC = [0x4E, 0x49, 0x50, 0x43, 0x48, 0x45, 0x4C, 0x31]"
definition WIRE_MAJOR :: u16 where "WIRE_MAJOR = 1"
definition WIRE_MINOR :: u16 where "WIRE_MINOR = 0"
definition HEADER_LEN :: usize where "HEADER_LEN = 224"
definition KIND_HELLO :: u16 where "KIND_HELLO = 1"
definition KIND_ACCEPT :: u16 where "KIND_ACCEPT = 2"
definition KIND_REJECT :: u16 where "KIND_REJECT = 3"
definition ATOMIC_U32_LOCK_FREE :: u32 where "ATOMIC_U32_LOCK_FREE = 1"
definition ATOMIC_U64_LOCK_FREE :: u32 where "ATOMIC_U64_LOCK_FREE = 2"
definition KNOWN_ATOMIC_FLAGS :: u32 where
  "KNOWN_ATOMIC_FLAGS = ATOMIC_U32_LOCK_FREE OR ATOMIC_U64_LOCK_FREE"

datatype NegotiationWireError =
    Truncated
  | BadMagic
  | BadVersion
  | BadKind
  | BadRole
  | BadTarget
  | TargetMismatch
  | BadAtomicFacts
  | AtomicMismatch
  | BadLimits
  | BadRejectReason
  | BadDecisionChallenge
  | NonceMismatch
  | NonCanonical
  | EffectiveMismatch
  | DecisionReplayOrOrder
  | DecisionChallengeMismatch
  | RequiredFeatureNotSupported
  | PayloadTooLarge
  | LengthOverflow
  | AllocationFailed
  | DestinationTooSmall

datatype SenderRole = Coordinator | Receiver

primrec sender_role_raw :: "SenderRole \<Rightarrow> u8" where
  "sender_role_raw Coordinator = 1"
| "sender_role_raw Receiver = 2"

definition SenderRole_decode :: "u8 \<Rightarrow> (SenderRole, NegotiationWireError) result" where
  "SenderRole_decode v = (if v = 1 then Ok Coordinator else if v = 2 then Ok Receiver else Err BadRole)"

datatype DecisionChallenge = DecisionChallenge (challenge_bytes: bytes)

definition DecisionChallenge_decode :: "bytes \<Rightarrow> (DecisionChallenge, NegotiationWireError) result" where
  "DecisionChallenge_decode b =
     (if b = replicate 16 0 then Err BadDecisionChallenge else Ok (DecisionChallenge b))"

datatype FeatureBits = FeatureBits (features0: u64) (features1: u64)

definition is_subset_of :: "FeatureBits \<Rightarrow> FeatureBits \<Rightarrow> bool" where
  "is_subset_of a b \<longleftrightarrow>
     (features0 a AND NOT (features0 b)) = 0 \<and> (features1 a AND NOT (features1 b)) = 0"

definition intersection :: "FeatureBits \<Rightarrow> FeatureBits \<Rightarrow> FeatureBits" where
  "intersection a b = FeatureBits (features0 a AND features0 b) (features1 a AND features1 b)"

definition feature_union :: "FeatureBits \<Rightarrow> FeatureBits \<Rightarrow> FeatureBits" where
  "feature_union a b = FeatureBits (features0 a OR features0 b) (features1 a OR features1 b)"

definition FeatureBits_default :: FeatureBits where "FeatureBits_default = FeatureBits 0 0"
definition FEATURE_ATOMIC_U32 :: FeatureBits where "FEATURE_ATOMIC_U32 = FeatureBits 1 0"
definition FEATURE_ATOMIC_U64 :: FeatureBits where "FEATURE_ATOMIC_U64 = FeatureBits 2 0"
definition KNOWN_FEATURES :: FeatureBits where
  "KNOWN_FEATURES = FeatureBits (features0 FEATURE_ATOMIC_U32 OR features0 FEATURE_ATOMIC_U64) 0"

record TargetFacts =
  tf_os :: u16
  tf_architecture :: u16
  tf_pointer_width :: u8
  tf_endian :: u8

text \<open>The target's operating system and architecture are those the library is compiled for.\<close>

definition TargetFacts_current :: "string \<Rightarrow> string \<Rightarrow> TargetFacts" where
  "TargetFacts_current target_os target_arch =
     \<lparr>tf_os = (if target_os = ''linux'' then 1 else if target_os = ''macos'' then 2 else 3),
      tf_architecture = (if target_arch = ''x86_64'' then 1 else 2),
      tf_pointer_width = 64, tf_endian = 1\<rparr>"

definition TargetFacts_validate :: "TargetFacts \<Rightarrow> (TargetFacts, NegotiationWireError) result" where
  "TargetFacts_validate t =
     (if \<not> (1 \<le> tf_os t \<and> tf_os t \<le> 3) \<or> \<not> (1 \<le> tf_architecture t \<and> tf_architecture t \<le> 2) \<or>
        tf_pointer_width t \<noteq> 64 \<or> tf_endian t \<noteq> 1
      then Err BadTarget
      else Ok t)"

record AtomicOffer =
  at_u32_lock_free :: bool
  at_u64_lock_free :: bool
  at_u32_alignment :: u16
  at_u64_alignment :: u16
  at_page_alignment :: u32
  at_cache_line_alignment :: u32

definition AtomicOffer_validate :: "AtomicOffer \<Rightarrow> (AtomicOffer, NegotiationWireError) result" where
  "AtomicOffer_validate a =
     (let u32_alignment = unat (at_u32_alignment a);
          u64_alignment = unat (at_u64_alignment a);
          page = unat (at_page_alignment a);
          cache_line = unat (at_cache_line_alignment a)
      in if \<not> is_power_of_two u32_alignment \<or> \<not> is_power_of_two u64_alignment \<or>
           \<not> is_power_of_two page \<or> \<not> is_power_of_two cache_line \<or>
           page < max u32_alignment u64_alignment \<or> cache_line < max u32_alignment u64_alignment
         then Err BadAtomicFacts
         else Ok a)"

definition AtomicOffer_from_local :: "AtomicCapabilities \<Rightarrow> (AtomicOffer, NegotiationWireError) result"
where
  "AtomicOffer_from_local v =
     rbind (ok_or LengthOverflow (try_from_usize (atomic_u32_alignment v))) (\<lambda>u32_alignment.
     rbind (ok_or LengthOverflow (try_from_usize (atomic_u64_alignment v))) (\<lambda>u64_alignment.
     rbind (ok_or LengthOverflow (try_from_usize (page_alignment v))) (\<lambda>page.
     rbind (ok_or LengthOverflow (try_from_usize (cache_line_alignment v))) (\<lambda>cache_line.
       AtomicOffer_validate
         \<lparr>at_u32_lock_free = atomic_u32_lock_free v, at_u64_lock_free = atomic_u64_lock_free v,
          at_u32_alignment = u32_alignment, at_u64_alignment = u64_alignment,
          at_page_alignment = page, at_cache_line_alignment = cache_line\<rparr>))))"

text \<open>Converting an accepted offer back to capabilities.\<close>

definition from_accepted_offer :: "AtomicOffer \<Rightarrow> AtomicCapabilities" where
  "from_accepted_offer a =
     \<lparr>atomic_u32_lock_free = at_u32_lock_free a,
      atomic_u32_alignment = unat (at_u32_alignment a),
      atomic_u64_lock_free = at_u64_lock_free a,
      atomic_u64_alignment = unat (at_u64_alignment a),
      page_alignment = unat (at_page_alignment a),
      cache_line_alignment = unat (at_cache_line_alignment a)\<rparr>"

record HelloFrame =
  he_role :: SenderRole
  he_nonce :: bytes
  he_supported_features :: FeatureBits
  he_required_features :: FeatureBits
  he_limits :: SessionLimits
  he_atomics :: AtomicOffer
  he_target :: TargetFacts
  he_application_payload :: bytes

record AcceptFrame =
  ac_role :: SenderRole
  ac_nonce :: bytes
  ac_selected_features :: FeatureBits
  ac_effective_limits :: SessionLimits
  ac_atomics :: AtomicOffer
  ac_target :: TargetFacts
  ac_hello_digest :: bytes
  ac_decision_challenge :: DecisionChallenge

record RejectFrame =
  re_role :: SenderRole
  re_nonce :: bytes
  re_reason :: u32
  re_decision_challenge :: DecisionChallenge

datatype NegotiationFrame = Hello HelloFrame | Accept AcceptFrame | Reject RejectFrame

section \<open>Validation\<close>

definition validate_payload_len :: "u32 \<Rightarrow> u32 \<Rightarrow> (unit, NegotiationWireError) result" where
  "validate_payload_len len offered_limit =
     (if len > HARD_MAX_BOOTSTRAP_PAYLOAD_BYTES \<or> len > offered_limit then Err PayloadTooLarge
      else Ok ())"

definition HelloFrame_validate :: "HelloFrame \<Rightarrow> (unit, NegotiationWireError) result" where
  "HelloFrame_validate f =
     (if he_nonce f = replicate 32 0 then Err NonceMismatch
      else if \<not> is_subset_of (he_required_features f) (he_supported_features f)
      then Err RequiredFeatureNotSupported
      else
        rbind (map_err (\<lambda>_. BadLimits) (SessionLimits_validate (he_limits f))) (\<lambda>_.
        rbind (AtomicOffer_validate (he_atomics f)) (\<lambda>_.
        rbind (TargetFacts_validate (he_target f)) (\<lambda>_.
        rbind (ok_or LengthOverflow (try_from_usize (length (he_application_payload f))))
          (\<lambda>payload_len.
        rbind (validate_payload_len payload_len (max_bootstrap_payload_bytes (he_limits f))) (\<lambda>_.
          Ok ()))))))"

definition AcceptFrame_validate :: "AcceptFrame \<Rightarrow> (unit, NegotiationWireError) result" where
  "AcceptFrame_validate f =
     (if ac_nonce f = replicate 32 0 then Err NonceMismatch
      else if ac_hello_digest f = replicate 32 0 then Err EffectiveMismatch
      else
        rbind (map_err (\<lambda>_. BadLimits) (SessionLimits_validate (ac_effective_limits f))) (\<lambda>_.
        rbind (AtomicOffer_validate (ac_atomics f)) (\<lambda>_.
        rbind (TargetFacts_validate (ac_target f)) (\<lambda>_.
          Ok ()))))"

definition RejectFrame_validate :: "RejectFrame \<Rightarrow> (unit, NegotiationWireError) result" where
  "RejectFrame_validate f = (if re_nonce f = replicate 32 0 then Err NonceMismatch else Ok ())"

section \<open>Encoding\<close>

definition encode_features :: "bytes \<Rightarrow> usize \<Rightarrow> FeatureBits \<Rightarrow> (bytes, 'e) result" where
  "encode_features b off v =
     rbind (put_u64 b off (features0 v)) (\<lambda>b. put_u64 b (off + 8) (features1 v))"

definition atomic_flags :: "AtomicOffer \<Rightarrow> u32" where
  "atomic_flags a =
     (let flags = 0;
          flags = (if at_u32_lock_free a then flags OR ATOMIC_U32_LOCK_FREE else flags)
      in if at_u64_lock_free a then flags OR ATOMIC_U64_LOCK_FREE else flags)"

definition encode_common ::
    "bytes \<Rightarrow> bytes \<Rightarrow> FeatureBits \<Rightarrow> FeatureBits \<Rightarrow> SessionLimits \<Rightarrow> AtomicOffer \<Rightarrow> TargetFacts \<Rightarrow>
     (bytes, 'e) result" where
  "encode_common b nonce supported required limits atomics target =
     rbind (copy_from_slice b 32 64 nonce) (\<lambda>b.
     rbind (encode_features b 64 supported) (\<lambda>b.
     rbind (encode_features b 80 required) (\<lambda>b.
     rbind (put_u16 b 96 (max_regions_per_batch limits)) (\<lambda>b.
     rbind (put_u32 b 100 (max_active_regions limits)) (\<lambda>b.
     rbind (put_u64 b 104 (max_region_bytes limits)) (\<lambda>b.
     rbind (put_u64 b 112 (max_batch_bytes limits)) (\<lambda>b.
     rbind (put_u64 b 120 (max_active_bytes limits)) (\<lambda>b.
     rbind (put_u64 b 128 (max_transactions limits)) (\<lambda>b.
     rbind (put_u32 b 136 (max_bootstrap_payload_bytes limits)) (\<lambda>b.
     rbind (put_u32 b 140 (max_control_payload_bytes limits)) (\<lambda>b.
     rbind (put_u32 b 144 (atomic_flags atomics)) (\<lambda>b.
     rbind (put_u16 b 148 (at_u32_alignment atomics)) (\<lambda>b.
     rbind (put_u16 b 150 (at_u64_alignment atomics)) (\<lambda>b.
     rbind (put_u32 b 152 (at_page_alignment atomics)) (\<lambda>b.
     rbind (put_u32 b 156 (at_cache_line_alignment atomics)) (\<lambda>b.
     rbind (put_u16 b 160 (tf_os target)) (\<lambda>b.
     rbind (put_u16 b 162 (tf_architecture target)) (\<lambda>b.
     rbind (set_byte b 164 (tf_pointer_width target)) (\<lambda>b.
       set_byte b 165 (tf_endian target))))))))))))))))))))"

definition encoded_len :: "NegotiationFrame \<Rightarrow> (usize, NegotiationWireError) result" where
  "encoded_len frame =
     rbind (case frame of
         Hello f \<Rightarrow> HelloFrame_validate f
       | Accept f \<Rightarrow> AcceptFrame_validate f
       | Reject f \<Rightarrow> RejectFrame_validate f) (\<lambda>_.
     ok_or LengthOverflow (checked_add_usize HEADER_LEN
       (case frame of Hello f \<Rightarrow> length (he_application_payload f) | Accept _ \<Rightarrow> 0 | Reject _ \<Rightarrow> 0)))"

text \<open>The encoders return the destination and the number of bytes written.\<close>

definition encode_body :: "NegotiationFrame \<Rightarrow> usize \<Rightarrow> bytes \<Rightarrow> (bytes, NegotiationWireError) result"
where
  "encode_body frame required b =
     (case frame of
        Hello f \<Rightarrow>
          rbind (HelloFrame_validate f) (\<lambda>_.
          rbind (put_u16 b 12 KIND_HELLO) (\<lambda>b.
          rbind (set_byte b 14 (sender_role_raw (he_role f))) (\<lambda>b.
          rbind (encode_common b (he_nonce f) (he_supported_features f) (he_required_features f)
            (he_limits f) (he_atomics f) (he_target f)) (\<lambda>b.
            copy_from_slice b HEADER_LEN required (he_application_payload f)))))
      | Accept f \<Rightarrow>
          rbind (AcceptFrame_validate f) (\<lambda>_.
          rbind (put_u16 b 12 KIND_ACCEPT) (\<lambda>b.
          rbind (set_byte b 14 (sender_role_raw (ac_role f))) (\<lambda>b.
          rbind (encode_common b (ac_nonce f) (ac_selected_features f) FeatureBits_default
            (ac_effective_limits f) (ac_atomics f) (ac_target f)) (\<lambda>b.
          rbind (copy_from_slice b 80 96 (challenge_bytes (ac_decision_challenge f))) (\<lambda>b.
            copy_from_slice b 166 198 (ac_hello_digest f))))))
      | Reject f \<Rightarrow>
          rbind (RejectFrame_validate f) (\<lambda>_.
          rbind (put_u16 b 12 KIND_REJECT) (\<lambda>b.
          rbind (set_byte b 14 (sender_role_raw (re_role f))) (\<lambda>b.
          rbind (put_u32 b 28 (re_reason f)) (\<lambda>b.
          rbind (copy_from_slice b 32 64 (re_nonce f)) (\<lambda>b.
            copy_from_slice b 80 96 (challenge_bytes (re_decision_challenge f))))))))"

definition encode_frame_into ::
    "NegotiationFrame \<Rightarrow> bytes \<Rightarrow> (bytes \<times> usize, NegotiationWireError) result" where
  "encode_frame_into frame destination =
     rbind (encoded_len frame) (\<lambda>required.
     if length destination < required then Err DestinationTooSmall
     else
       rbind (fill destination 0 required 0) (\<lambda>b.
       rbind (copy_from_slice b 0 8 MAGIC) (\<lambda>b.
       rbind (put_u16 b 8 WIRE_MAJOR) (\<lambda>b.
       rbind (put_u16 b 10 WIRE_MINOR) (\<lambda>b.
       rbind (put_u32 b 16 (word_of_nat HEADER_LEN)) (\<lambda>b.
       rbind (ok_or LengthOverflow (try_from_usize required)) (\<lambda>frame_len.
       rbind (put_u32 b 20 frame_len) (\<lambda>b.
       rbind (ok_or LengthOverflow (try_from_usize (required - HEADER_LEN))) (\<lambda>payload_len.
       rbind (put_u32 b 24 payload_len) (\<lambda>b.
       rbind (encode_body frame required b) (\<lambda>b.
         Ok (b, required))))))))))))"

definition hello_encoded_len :: "HelloFrame \<Rightarrow> (usize, NegotiationWireError) result" where
  "hello_encoded_len f =
     rbind (HelloFrame_validate f) (\<lambda>_.
     ok_or LengthOverflow (checked_add_usize HEADER_LEN (length (he_application_payload f))))"

definition encode_hello_into :: "HelloFrame \<Rightarrow> bytes \<Rightarrow> (bytes \<times> usize, NegotiationWireError) result"
where
  "encode_hello_into f destination =
     rbind (hello_encoded_len f) (\<lambda>required.
     if length destination < required then Err DestinationTooSmall
     else
       rbind (set_byte destination 15 0) (\<lambda>b.
       rbind (fill b 28 32 0) (\<lambda>b.
       rbind (fill b 98 100 0) (\<lambda>b.
       rbind (fill b 166 HEADER_LEN 0) (\<lambda>b.
       rbind (copy_from_slice b 0 8 MAGIC) (\<lambda>b.
       rbind (put_u16 b 8 WIRE_MAJOR) (\<lambda>b.
       rbind (put_u16 b 10 WIRE_MINOR) (\<lambda>b.
       rbind (put_u16 b 12 KIND_HELLO) (\<lambda>b.
       rbind (set_byte b 14 (sender_role_raw (he_role f))) (\<lambda>b.
       rbind (put_u32 b 16 (word_of_nat HEADER_LEN)) (\<lambda>b.
       rbind (ok_or LengthOverflow (try_from_usize required)) (\<lambda>frame_len.
       rbind (put_u32 b 20 frame_len) (\<lambda>b.
       rbind (ok_or LengthOverflow (try_from_usize (length (he_application_payload f))))
         (\<lambda>payload_len.
       rbind (put_u32 b 24 payload_len) (\<lambda>b.
       rbind (encode_common b (he_nonce f) (he_supported_features f) (he_required_features f)
         (he_limits f) (he_atomics f) (he_target f)) (\<lambda>b.
       rbind (copy_from_slice b HEADER_LEN required (he_application_payload f)) (\<lambda>b.
         Ok (b, required))))))))))))))))))"

section \<open>Decoding\<close>

definition decode_features :: "bytes \<Rightarrow> usize \<Rightarrow> (FeatureBits, NegotiationWireError) result" where
  "decode_features b off =
     rbind (get_u64 b off) (\<lambda>w0. rbind (get_u64 b (off + 8)) (\<lambda>w1. Ok (FeatureBits w0 w1)))"

definition decode_limits :: "bytes \<Rightarrow> (SessionLimits, NegotiationWireError) result" where
  "decode_limits b =
     rbind (get_u16 b 98) (\<lambda>reserved.
     if reserved \<noteq> 0 then Err NonCanonical
     else
       rbind (get_u16 b 96) (\<lambda>regions_per_batch.
       rbind (get_u32 b 100) (\<lambda>active_regions.
       rbind (get_u64 b 104) (\<lambda>region_bytes.
       rbind (get_u64 b 112) (\<lambda>batch_bytes.
       rbind (get_u64 b 120) (\<lambda>active_bytes.
       rbind (get_u64 b 128) (\<lambda>transactions.
       rbind (get_u32 b 136) (\<lambda>bootstrap_payload_bytes.
       rbind (get_u32 b 140) (\<lambda>control_payload_bytes.
         Ok \<lparr>max_regions_per_batch = regions_per_batch, max_region_bytes = region_bytes,
             max_batch_bytes = batch_bytes, max_active_regions = active_regions,
             max_active_bytes = active_bytes, max_transactions = transactions,
             max_bootstrap_payload_bytes = bootstrap_payload_bytes,
             max_control_payload_bytes = control_payload_bytes\<rparr>)))))))))"

definition decode_atomics :: "bytes \<Rightarrow> (AtomicOffer, NegotiationWireError) result" where
  "decode_atomics b =
     rbind (get_u32 b 144) (\<lambda>flags.
     if flags AND NOT KNOWN_ATOMIC_FLAGS \<noteq> 0 then Err BadAtomicFacts
     else
       rbind (get_u16 b 148) (\<lambda>u32_alignment.
       rbind (get_u16 b 150) (\<lambda>u64_alignment.
       rbind (get_u32 b 152) (\<lambda>page.
       rbind (get_u32 b 156) (\<lambda>cache_line.
         AtomicOffer_validate
           \<lparr>at_u32_lock_free = (flags AND ATOMIC_U32_LOCK_FREE \<noteq> 0),
            at_u64_lock_free = (flags AND ATOMIC_U64_LOCK_FREE \<noteq> 0),
            at_u32_alignment = u32_alignment, at_u64_alignment = u64_alignment,
            at_page_alignment = page, at_cache_line_alignment = cache_line\<rparr>)))))"

definition decode_target :: "bytes \<Rightarrow> (TargetFacts, NegotiationWireError) result" where
  "decode_target b =
     rbind (get_u16 b 160) (\<lambda>os.
     rbind (get_u16 b 162) (\<lambda>architecture.
     rbind (index_byte b 164) (\<lambda>pointer_width.
     rbind (index_byte b 165) (\<lambda>endian.
       TargetFacts_validate
         \<lparr>tf_os = os, tf_architecture = architecture, tf_pointer_width = pointer_width,
          tf_endian = endian\<rparr>))))"

definition nonzero_bytes :: "bytes \<Rightarrow> usize \<Rightarrow> usize \<Rightarrow> (bool, 'e) result" where
  "nonzero_bytes b i j = rbind (slice b i j) (\<lambda>s. Ok (list_ex (\<lambda>byte. byte \<noteq> 0) s))"

definition decode_hello ::
    "(usize \<Rightarrow> bool) \<Rightarrow> bytes \<Rightarrow> SenderRole \<Rightarrow> bytes \<Rightarrow> u32 \<Rightarrow> u32 \<Rightarrow>
     (NegotiationFrame, NegotiationWireError) result" where
  "decode_hello alloc b role nonce payload_len local_payload_limit =
     rbind (get_u32 b 28) (\<lambda>reason.
     rbind (nonzero_bytes b 166 198) (\<lambda>digest.
     if reason \<noteq> 0 \<or> digest then Err NonCanonical
     else
       rbind (validate_payload_len payload_len local_payload_limit) (\<lambda>_.
       rbind (decode_features b 64) (\<lambda>supported.
       rbind (decode_features b 80) (\<lambda>required.
       if \<not> is_subset_of required supported then Err RequiredFeatureNotSupported
       else
         rbind (decode_limits b) (\<lambda>limits.
         rbind (map_err (\<lambda>_. BadLimits) (SessionLimits_validate limits)) (\<lambda>limits.
         rbind (decode_atomics b) (\<lambda>atomics.
         rbind (decode_target b) (\<lambda>target.
         rbind (validate_payload_len payload_len (max_bootstrap_payload_bytes limits)) (\<lambda>_.
         if \<not> alloc (unat payload_len) then Err AllocationFailed
         else
           rbind (slice b HEADER_LEN (length b)) (\<lambda>payload.
           let f = \<lparr>he_role = role, he_nonce = nonce, he_supported_features = supported,
                    he_required_features = required, he_limits = limits, he_atomics = atomics,
                    he_target = target, he_application_payload = payload\<rparr> in
           rbind (HelloFrame_validate f) (\<lambda>_. Ok (Hello f)))))))))))))"

definition decode_accept ::
    "bytes \<Rightarrow> SenderRole \<Rightarrow> bytes \<Rightarrow> u32 \<Rightarrow> (NegotiationFrame, NegotiationWireError) result" where
  "decode_accept b role nonce payload_len =
     rbind (get_u32 b 28) (\<lambda>reason.
     if payload_len \<noteq> 0 \<or> reason \<noteq> 0 then Err NonCanonical
     else
       rbind (decode_features b 64) (\<lambda>selected.
       rbind (decode_limits b) (\<lambda>limits.
       rbind (map_err (\<lambda>_. BadLimits) (SessionLimits_validate limits)) (\<lambda>limits.
       rbind (decode_atomics b) (\<lambda>atomics.
       rbind (decode_target b) (\<lambda>target.
       rbind (slice b 166 198) (\<lambda>digest.
       rbind (slice b 80 96) (\<lambda>raw.
       rbind (DecisionChallenge_decode raw) (\<lambda>challenge.
       let f = \<lparr>ac_role = role, ac_nonce = nonce, ac_selected_features = selected,
                ac_effective_limits = limits, ac_atomics = atomics, ac_target = target,
                ac_hello_digest = digest, ac_decision_challenge = challenge\<rparr> in
       rbind (AcceptFrame_validate f) (\<lambda>_. Ok (Accept f)))))))))))"

definition decode_reject ::
    "bytes \<Rightarrow> SenderRole \<Rightarrow> bytes \<Rightarrow> u32 \<Rightarrow> (NegotiationFrame, NegotiationWireError) result" where
  "decode_reject b role nonce payload_len =
     rbind (nonzero_bytes b 64 80) (\<lambda>features.
     rbind (nonzero_bytes b 96 198) (\<lambda>rest.
     if payload_len \<noteq> 0 \<or> features \<or> rest then Err NonCanonical
     else
       rbind (get_u32 b 28) (\<lambda>reason.
       if reason = 0 then Err BadRejectReason
       else
         rbind (slice b 80 96) (\<lambda>raw.
         rbind (DecisionChallenge_decode raw) (\<lambda>challenge.
         let f = \<lparr>re_role = role, re_nonce = nonce, re_reason = reason,
                  re_decision_challenge = challenge\<rparr> in
         rbind (RejectFrame_validate f) (\<lambda>_. Ok (Reject f)))))))"

definition decode_frame ::
    "(usize \<Rightarrow> bool) \<Rightarrow> bytes \<Rightarrow> SenderRole \<Rightarrow> bytes \<Rightarrow> u32 \<Rightarrow>
     (NegotiationFrame, NegotiationWireError) result" where
  "decode_frame alloc source expected_role expected_nonce local_payload_limit =
     (if length source < HEADER_LEN then Err Truncated
      else
        rbind (slice source 0 8) (\<lambda>magic.
        if magic \<noteq> MAGIC then Err BadMagic
        else
          rbind (get_u16 source 8) (\<lambda>major.
          rbind (get_u16 source 10) (\<lambda>minor.
          if major \<noteq> WIRE_MAJOR \<or> minor \<noteq> WIRE_MINOR then Err BadVersion
          else
            rbind (get_u16 source 12) (\<lambda>kind.
            rbind (index_byte source 14) (\<lambda>raw_role.
            rbind (SenderRole_decode raw_role) (\<lambda>role.
            if role \<noteq> expected_role then Err BadRole
            else
              rbind (index_byte source 15) (\<lambda>reserved.
              rbind (get_u32 source 16) (\<lambda>header_len.
              rbind (nonzero_bytes source 198 224) (\<lambda>tail.
              if reserved \<noteq> 0 \<or> header_len \<noteq> word_of_nat HEADER_LEN \<or> tail then Err NonCanonical
              else
                rbind (get_u32 source 20) (\<lambda>frame_len.
                rbind (get_u32 source 24) (\<lambda>payload_len.
                rbind (ok_or LengthOverflow (checked_add_usize HEADER_LEN (unat payload_len)))
                  (\<lambda>expected_len.
                if unat frame_len \<noteq> expected_len \<or> length source \<noteq> expected_len
                then Err NonCanonical
                else
                  rbind (slice source 32 64) (\<lambda>nonce.
                  if nonce = replicate 32 0 \<or> nonce \<noteq> expected_nonce then Err NonceMismatch
                  else if kind = KIND_HELLO
                  then decode_hello alloc source role nonce payload_len local_payload_limit
                  else if kind = KIND_ACCEPT then decode_accept source role nonce payload_len
                  else if kind = KIND_REJECT then decode_reject source role nonce payload_len
                  else Err BadKind))))))))))))))"

section \<open>The hashed transcript\<close>

definition hash_hello :: "HelloFrame \<Rightarrow> (bytes, 'e) result" where
  "hash_hello f =
     rbind (expect (try_from_usize (length (he_application_payload f)))) (\<lambda>payload_len :: u32.
     Ok (MAGIC @ to_le_bytes 2 WIRE_MAJOR @ to_le_bytes 2 WIRE_MINOR @ to_le_bytes 2 KIND_HELLO @
       [sender_role_raw (he_role f)] @ he_nonce f @
       to_le_bytes 8 (features0 (he_supported_features f)) @
       to_le_bytes 8 (features1 (he_supported_features f)) @
       to_le_bytes 8 (features0 (he_required_features f)) @
       to_le_bytes 8 (features1 (he_required_features f)) @
       to_le_bytes 2 (max_regions_per_batch (he_limits f)) @
       to_le_bytes 4 (max_active_regions (he_limits f)) @
       to_le_bytes 8 (max_region_bytes (he_limits f)) @
       to_le_bytes 8 (max_batch_bytes (he_limits f)) @
       to_le_bytes 8 (max_active_bytes (he_limits f)) @
       to_le_bytes 8 (max_transactions (he_limits f)) @
       to_le_bytes 4 (max_bootstrap_payload_bytes (he_limits f)) @
       to_le_bytes 4 (max_control_payload_bytes (he_limits f)) @
       to_le_bytes 4 (atomic_flags (he_atomics f)) @
       to_le_bytes 2 (at_u32_alignment (he_atomics f)) @
       to_le_bytes 2 (at_u64_alignment (he_atomics f)) @
       to_le_bytes 4 (at_page_alignment (he_atomics f)) @
       to_le_bytes 4 (at_cache_line_alignment (he_atomics f)) @
       to_le_bytes 2 (tf_os (he_target f)) @ to_le_bytes 2 (tf_architecture (he_target f)) @
       [tf_pointer_width (he_target f), tf_endian (he_target f)] @
       to_le_bytes 4 payload_len @ he_application_payload f))"

text \<open>The domain separator is the ASCII of \<^verbatim>\<open>native-ipc-vnext-hello-transcript-v1\<close>.\<close>

definition TRANSCRIPT_DOMAIN :: bytes where
  "TRANSCRIPT_DOMAIN =
     [0x6E, 0x61, 0x74, 0x69, 0x76, 0x65, 0x2D, 0x69, 0x70, 0x63, 0x2D, 0x76, 0x6E, 0x65, 0x78, 0x74,
      0x2D, 0x68, 0x65, 0x6C, 0x6C, 0x6F, 0x2D, 0x74, 0x72, 0x61, 0x6E, 0x73, 0x63, 0x72, 0x69, 0x70,
      0x74, 0x2D, 0x76, 0x31]"

definition hello_preimage :: "HelloFrame \<Rightarrow> HelloFrame \<Rightarrow> (bytes, 'e) result" where
  "hello_preimage coordinator receiver =
     rbind (hash_hello coordinator) (\<lambda>c.
     rbind (hash_hello receiver) (\<lambda>r.
       Ok (TRANSCRIPT_DOMAIN @ c @ r)))"

definition canonical_hello_digest ::
    "(bytes \<Rightarrow> bytes) \<Rightarrow> HelloFrame \<Rightarrow> HelloFrame \<Rightarrow> (bytes, 'e) result" where
  "canonical_hello_digest sha256 coordinator receiver =
     rbind (hello_preimage coordinator receiver) (\<lambda>b. Ok (sha256 b))"

end
