(* ===== verification/Negotiation_Encode.thy ===== *)
theory Negotiation_Encode
  imports Negotiation
begin

text \<open>
  The canonical bytes of the negotiation frames, and that both encoders write exactly them.
\<close>

unbundle bit_operations_syntax

section \<open>Canonical frames\<close>

definition prefix_fields :: "u16 \<Rightarrow> SenderRole \<Rightarrow> nat \<Rightarrow> u32 \<Rightarrow> bytes \<Rightarrow> bytes list" where
  "prefix_fields kind role n reason nonce =
     [MAGIC, to_le_bytes 2 WIRE_MAJOR, to_le_bytes 2 WIRE_MINOR, to_le_bytes 2 kind,
      [sender_role_raw role], [0], to_le_bytes 4 (224 :: u32), to_le_bytes 4 (word_of_nat (224 + n) :: u32),
      to_le_bytes 4 (word_of_nat n :: u32), to_le_bytes 4 reason, nonce]"

definition limit_fields :: "SessionLimits \<Rightarrow> bytes list" where
  "limit_fields l =
     [to_le_bytes 2 (max_regions_per_batch l), replicate 2 0, to_le_bytes 4 (max_active_regions l),
      to_le_bytes 8 (max_region_bytes l), to_le_bytes 8 (max_batch_bytes l),
      to_le_bytes 8 (max_active_bytes l), to_le_bytes 8 (max_transactions l),
      to_le_bytes 4 (max_bootstrap_payload_bytes l), to_le_bytes 4 (max_control_payload_bytes l)]"

definition atomic_fields :: "AtomicOffer \<Rightarrow> bytes list" where
  "atomic_fields a =
     [to_le_bytes 4 (atomic_flags a), to_le_bytes 2 (at_u32_alignment a),
      to_le_bytes 2 (at_u64_alignment a), to_le_bytes 4 (at_page_alignment a),
      to_le_bytes 4 (at_cache_line_alignment a)]"

definition target_fields :: "TargetFacts \<Rightarrow> bytes list" where
  "target_fields t =
     [to_le_bytes 2 (tf_os t), to_le_bytes 2 (tf_architecture t), [tf_pointer_width t], [tf_endian t]]"

definition feature_fields :: "FeatureBits \<Rightarrow> bytes list" where
  "feature_fields v = [to_le_bytes 8 (features0 v), to_le_bytes 8 (features1 v)]"

fun header_fields :: "NegotiationFrame \<Rightarrow> bytes list" where
  "header_fields (Hello f) =
     prefix_fields KIND_HELLO (he_role f) (length (he_application_payload f)) 0 (he_nonce f) @
     feature_fields (he_supported_features f) @ feature_fields (he_required_features f) @
     limit_fields (he_limits f) @ atomic_fields (he_atomics f) @ target_fields (he_target f) @
     [replicate 32 0, replicate 26 0]"
| "header_fields (Accept f) =
     prefix_fields KIND_ACCEPT (ac_role f) 0 0 (ac_nonce f) @
     feature_fields (ac_selected_features f) @ [challenge_bytes (ac_decision_challenge f)] @
     limit_fields (ac_effective_limits f) @ atomic_fields (ac_atomics f) @
     target_fields (ac_target f) @ [ac_hello_digest f, replicate 26 0]"
| "header_fields (Reject f) =
     prefix_fields KIND_REJECT (re_role f) 0 (re_reason f) (re_nonce f) @
     [replicate 16 0, challenge_bytes (re_decision_challenge f), replicate 102 0, replicate 26 0]"

primrec frame_payload :: "NegotiationFrame \<Rightarrow> bytes" where
  "frame_payload (Hello f) = he_application_payload f"
| "frame_payload (Accept f) = []"
| "frame_payload (Reject f) = []"

primrec frame_role :: "NegotiationFrame \<Rightarrow> SenderRole" where
  "frame_role (Hello f) = he_role f"
| "frame_role (Accept f) = ac_role f"
| "frame_role (Reject f) = re_role f"

primrec frame_nonce :: "NegotiationFrame \<Rightarrow> bytes" where
  "frame_nonce (Hello f) = he_nonce f"
| "frame_nonce (Accept f) = ac_nonce f"
| "frame_nonce (Reject f) = re_nonce f"

definition frame_bytes :: "NegotiationFrame \<Rightarrow> bytes" where
  "frame_bytes frame = concat (header_fields frame) @ frame_payload frame"

text \<open>The array lengths and nonzero types of the source.\<close>

definition challenge_wf :: "DecisionChallenge \<Rightarrow> bool" where
  "challenge_wf c \<longleftrightarrow> length (challenge_bytes c) = 16 \<and> challenge_bytes c \<noteq> replicate 16 0"

primrec frame_wf :: "NegotiationFrame \<Rightarrow> bool" where
  "frame_wf (Hello f) \<longleftrightarrow> length (he_nonce f) = 32"
| "frame_wf (Accept f) \<longleftrightarrow>
     length (ac_nonce f) = 32 \<and> length (ac_hello_digest f) = 32 \<and> challenge_wf (ac_decision_challenge f)"
| "frame_wf (Reject f) \<longleftrightarrow>
     length (re_nonce f) = 32 \<and> re_reason f \<noteq> 0 \<and> challenge_wf (re_decision_challenge f)"

primrec frame_validate :: "NegotiationFrame \<Rightarrow> (unit, NegotiationWireError) result" where
  "frame_validate (Hello f) = HelloFrame_validate f"
| "frame_validate (Accept f) = AcceptFrame_validate f"
| "frame_validate (Reject f) = RejectFrame_validate f"

lemma length_MAGIC [simp]: "length MAGIC = 8"
  by (simp add: MAGIC_def)

lemmas field_defs =
  prefix_fields_def limit_fields_def atomic_fields_def target_fields_def feature_fields_def

lemma length_header: "frame_wf frame \<Longrightarrow> length (concat (header_fields frame)) = 224"
  by (cases frame) (simp_all add: field_defs challenge_wf_def)

section \<open>What validation accepts\<close>

definition offer_valid :: "AtomicOffer \<Rightarrow> bool" where
  "offer_valid a \<longleftrightarrow>
     is_power_of_two (unat (at_u32_alignment a)) \<and> is_power_of_two (unat (at_u64_alignment a)) \<and>
     is_power_of_two (unat (at_page_alignment a)) \<and> is_power_of_two (unat (at_cache_line_alignment a)) \<and>
     unat (at_u32_alignment a) \<le> unat (at_page_alignment a) \<and>
     unat (at_u64_alignment a) \<le> unat (at_page_alignment a) \<and>
     unat (at_u32_alignment a) \<le> unat (at_cache_line_alignment a) \<and>
     unat (at_u64_alignment a) \<le> unat (at_cache_line_alignment a)"

definition target_valid :: "TargetFacts \<Rightarrow> bool" where
  "target_valid t \<longleftrightarrow>
     1 \<le> tf_os t \<and> tf_os t \<le> 3 \<and> 1 \<le> tf_architecture t \<and> tf_architecture t \<le> 2 \<and>
     tf_pointer_width t = 64 \<and> tf_endian t = 1"

lemma AtomicOffer_validate_Ok [outcome]: "AtomicOffer_validate a = Ok a' \<longleftrightarrow> a' = a \<and> offer_valid a"
  by (auto simp: AtomicOffer_validate_def offer_valid_def Let_def not_less)

lemma TargetFacts_validate_Ok [outcome]: "TargetFacts_validate t = Ok t' \<longleftrightarrow> t' = t \<and> target_valid t"
  by (auto simp: TargetFacts_validate_def target_valid_def)

lemma offer_validate_Panic [outcome]: "AtomicOffer_validate a \<noteq> Panic" "TargetFacts_validate t \<noteq> Panic"
  by (simp_all add: AtomicOffer_validate_def TargetFacts_validate_def Let_def)

lemma validate_payload_len_Ok [outcome]:
  "validate_payload_len n m = Ok u \<longleftrightarrow> n \<le> HARD_MAX_BOOTSTRAP_PAYLOAD_BYTES \<and> n \<le> m"
  by (auto simp: validate_payload_len_def not_less)

lemma validate_payload_len_Panic [outcome]: "validate_payload_len n m \<noteq> Panic"
  by (simp add: validate_payload_len_def)

lemma frame_validate_Panic: "frame_validate frame \<noteq> Panic"
  by (cases frame)
    (simp_all add: HelloFrame_validate_def AcceptFrame_validate_def RejectFrame_validate_def outcome)

lemma hello_payload_bound:
  assumes "HelloFrame_validate f = Ok ()"
  shows "length (he_application_payload f) \<le> 2 ^ 24"
proof -
  obtain n :: u32 where n: "try_from_usize (length (he_application_payload f)) = Some n"
    "n \<le> HARD_MAX_BOOTSTRAP_PAYLOAD_BYTES"
    using assms by (auto simp: HelloFrame_validate_def outcome split: if_splits)
  then have "unat n = length (he_application_payload f)" "unat n \<le> 2 ^ 24"
    by (auto simp: outcome HARD_MAX_BOOTSTRAP_PAYLOAD_BYTES_def word_le_nat_alt)
  then show ?thesis by simp
qed

lemma frame_payload_bound: "frame_validate frame = Ok () \<Longrightarrow> length (frame_payload frame) \<le> 2 ^ 24"
  using hello_payload_bound by (cases frame) simp_all

lemma encoded_len_eq:
  "encoded_len frame = rbind (frame_validate frame) (\<lambda>_. Ok (224 + length (frame_payload frame)))"
proof (cases "frame_validate frame")
  case (Ok u)
  then have "length (frame_payload frame) \<le> 2 ^ 24" using frame_payload_bound by simp
  then show ?thesis
    using Ok by (cases frame)
      (simp_all add: encoded_len_def HEADER_LEN_def checked_add_usize_def usize_max_def)
qed (cases frame; simp add: encoded_len_def)+

section \<open>Encoding\<close>

lemma write_at_span [patch]:
  "length xs = length p + length q \<Longrightarrow> write_at (p @ q @ r) 0 xs = xs @ r"
  by (simp add: write_at_def)

lemma write_at_Cons [patch]:
  "write_at (a # r) 0 [v] = v # r"
  "0 < off \<Longrightarrow> write_at (a # r) off xs = a # write_at r (off - 1) xs"
  by (cases off; simp add: write_at_def)+

text \<open>A slice splits at the boundaries of the given fields.\<close>

lemma split_fields:
  fixes d :: bytes
  assumes "sum_list ws \<le> length d"
  shows "\<exists>ps. map length ps = ws \<and> d = concat ps @ drop (sum_list ws) d"
proof (intro exI conjI)
  show "map length (pieces (take (sum_list ws) d) 0 ws) = ws"
  proof -
    have "map length (pieces b i ws) = ws" if "i + sum_list ws \<le> length b" for b i
      using that by (induction ws arbitrary: i) auto
    then show ?thesis using assms by simp
  qed
  have "concat (pieces (take (sum_list ws) d) 0 ws) = take (sum_list ws) d"
    using concat_pieces [of 0 ws "take (sum_list ws) d"] assms by simp
  then show "d = concat (pieces (take (sum_list ws) d) 0 ws) @ drop (sum_list ws) d" by simp
qed

lemma rbind_weak_cong: "m = m' \<Longrightarrow> rbind m f = rbind m' f"
  by simp

lemma zero_fields: "concat (map (\<lambda>w. replicate w 0) ws) = replicate (sum_list ws) (0 :: u8)"
  by (induction ws) (simp_all add: replicate_add)

lemma fill_prefix: "n \<le> length d \<Longrightarrow> fill d 0 n v = Ok (replicate n v @ drop n d)"
  by (simp add: fill_ok write_at_def)

abbreviation common_widths :: "nat list" where
  "common_widths \<equiv> [8, 2, 2, 2, 1, 1, 4, 4, 4, 4, 32, 8, 8, 8, 8, 2, 2, 4, 8, 8, 8, 8, 4, 4, 4, 2, 2, 4, 4,
     2, 2, 1, 1, 32, 26]"

lemma to_le_bytes_zero: "to_le_bytes n (0 :: 'a::len word) = replicate n 0"
  by (induction n) simp_all

text \<open>The encoders run over a slice that is split at the field boundaries.\<close>

lemmas encoder_simps =
  HEADER_LEN_def encode_common_def encode_features_def wire patch try_from_usize_def

lemmas frame_simps = frame_bytes_def field_defs to_le_bytes_zero FeatureBits_default_def

lemma encode_hello_bytes:
  assumes "length (he_nonce f) = 32" "HelloFrame_validate f = Ok ()"
    "224 + length (he_application_payload f) \<le> length d"
  shows "encode_frame_into (Hello f) d =
    Ok (frame_bytes (Hello f) @ drop (224 + length (he_application_payload f)) d,
      224 + length (he_application_payload f))"
proof -
  let ?n = "length (he_application_payload f)"
  have n: "?n \<le> 2 ^ 24" by (rule hello_payload_bound [OF assms(2)])
  have len: "encoded_len (Hello f) = Ok (224 + ?n)" using assms(2) by (simp add: encoded_len_eq)
  define rest where "rest = drop (224 + ?n) d"
  have z: "(fill d 0 (224 + ?n) 0 :: (bytes, NegotiationWireError) result) =
      Ok (concat (map (\<lambda>w. replicate w 0) common_widths) @ replicate ?n 0 @ rest)"
    unfolding zero_fields using assms(3) by (simp add: fill_prefix replicate_add rest_def)
  show ?thesis
    using n assms(1)
    by (simp add: encode_frame_into_def len z assms(2,3) not_less rest_def [symmetric]
        encode_body_def encoder_simps cong: rbind_weak_cong)
      (simp add: frame_simps)
qed

lemma encode_accept_bytes:
  assumes "frame_wf (Accept f)" "AcceptFrame_validate f = Ok ()" "224 \<le> length d"
  shows "encode_frame_into (Accept f) d = Ok (frame_bytes (Accept f) @ drop 224 d, 224)"
proof -
  have len: "encoded_len (Accept f) = Ok 224" using assms(2) by (simp add: encoded_len_eq)
  define rest where "rest = drop 224 d"
  have z: "(fill d 0 224 0 :: (bytes, NegotiationWireError) result) =
      Ok (concat (map (\<lambda>w. replicate w 0) common_widths) @ rest)"
    unfolding zero_fields using assms(3) by (simp add: fill_prefix rest_def)
  show ?thesis
    using assms(1)
    by (simp add: encode_frame_into_def len z assms(2,3) not_less rest_def [symmetric]
        encode_body_def encoder_simps challenge_wf_def cong: rbind_weak_cong)
      (simp add: frame_simps)
qed

lemma encode_reject_bytes:
  assumes "frame_wf (Reject f)" "RejectFrame_validate f = Ok ()" "224 \<le> length d"
  shows "encode_frame_into (Reject f) d = Ok (frame_bytes (Reject f) @ drop 224 d, 224)"
proof -
  have len: "encoded_len (Reject f) = Ok 224" using assms(2) by (simp add: encoded_len_eq)
  define rest where "rest = drop 224 d"
  have z: "(fill d 0 224 0 :: (bytes, NegotiationWireError) result) =
      Ok (concat (map (\<lambda>w. replicate w 0) [8, 2, 2, 2, 1, 1, 4, 4, 4, 4, 32, 16, 16, 102, 26]) @ rest)"
    unfolding zero_fields using assms(3) by (simp add: fill_prefix rest_def)
  show ?thesis
    using assms(1)
    by (simp add: encode_frame_into_def len z assms(2,3) not_less rest_def [symmetric]
        encode_body_def encoder_simps challenge_wf_def cong: rbind_weak_cong)
      (simp add: frame_simps)
qed

lemma encode_hello_into_bytes:
  assumes "length (he_nonce f) = 32" "HelloFrame_validate f = Ok ()"
    "224 + length (he_application_payload f) \<le> length d"
  shows "encode_hello_into f d =
    Ok (frame_bytes (Hello f) @ drop (224 + length (he_application_payload f)) d,
      224 + length (he_application_payload f))"
proof -
  let ?n = "length (he_application_payload f)"
  have n: "?n \<le> 2 ^ 24" by (rule hello_payload_bound [OF assms(2)])
  have len: "hello_encoded_len f = Ok (224 + ?n)"
    using assms(2) n by (simp add: hello_encoded_len_def HEADER_LEN_def checked_add_usize_def usize_max_def)
  have "sum_list (common_widths @ [?n]) = 224 + ?n" by simp
  then obtain ps where ps: "map length ps = common_widths @ [?n]" "d = concat ps @ drop (224 + ?n) d"
    using split_fields [of "common_widths @ [?n]" d] assms(3) by metis
  define rest where "rest = drop (224 + ?n) d"
  obtain p0 p1 p2 p3 p4 p5 p6 p7 p8 p9 p10 p11 p12 p13 p14 p15 p16 p17 p18 p19 p20 p21 p22 p23 p24
    p25 p26 p27 p28 p29 p30 p31 p32 p33 p34 q where
    p: "ps = [p0, p1, p2, p3, p4, p5, p6, p7, p8, p9, p10, p11, p12, p13, p14, p15, p16, p17, p18, p19,
      p20, p21, p22, p23, p24, p25, p26, p27, p28, p29, p30, p31, p32, p33, p34, q]"
    and l: "length p0 = 8" "length p1 = 2" "length p2 = 2" "length p3 = 2" "length p4 = 1"
      "length p5 = 1" "length p6 = 4" "length p7 = 4" "length p8 = 4" "length p9 = 4"
      "length p10 = 32" "length p11 = 8" "length p12 = 8" "length p13 = 8" "length p14 = 8"
      "length p15 = 2" "length p16 = 2" "length p17 = 4" "length p18 = 8" "length p19 = 8"
      "length p20 = 8" "length p21 = 8" "length p22 = 4" "length p23 = 4" "length p24 = 4"
      "length p25 = 2" "length p26 = 2" "length p27 = 4" "length p28 = 4" "length p29 = 2"
      "length p30 = 2" "length p31 = 1" "length p32 = 1" "length p33 = 32" "length p34 = 26" "length q = ?n"
    using ps(1) by (auto simp: map_eq_Cons_conv)
  have d: "d = concat ps @ rest" using ps(2) by (simp add: rest_def)
  have fits: "\<not> length d < 224 + ?n" using assms(3) by simp
  have z: "replicate 58 (0 :: u8) = replicate 32 0 @ replicate 26 0" by (simp flip: replicate_add)
  show ?thesis
    unfolding encode_hello_into_def len
    using n assms(1) fits
    by (simp add: d p l assms(2) encoder_simps cong: rbind_weak_cong) (simp add: frame_simps z)
qed

lemma encode_frame_into_eq:
  assumes "frame_wf frame"
  shows "encode_frame_into frame d =
    rbind (frame_validate frame) (\<lambda>_.
      if length d < 224 + length (frame_payload frame) then Err DestinationTooSmall
      else Ok (frame_bytes frame @ drop (224 + length (frame_payload frame)) d,
        224 + length (frame_payload frame)))"
proof (cases "frame_validate frame")
  case (Ok u)
  show ?thesis
  proof (cases "length d < 224 + length (frame_payload frame)")
    case True
    then show ?thesis using Ok by (simp add: encode_frame_into_def encoded_len_eq)
  next
    case False
    then show ?thesis
      using Ok assms by (cases frame)
        (simp_all add: encode_hello_bytes encode_accept_bytes encode_reject_bytes)
  qed
qed (simp_all add: encode_frame_into_def encoded_len_eq)

end
