(* ===== verification/Negotiation_Decode.thy ===== *)
theory Negotiation_Decode
  imports Negotiation_Encode
begin

text \<open>
  Decoding of negotiation frames: the decoder accepts exactly the canonical bytes of valid frames,
  and the hashed transcript determines both HELLOs.
\<close>

unbundle bit_operations_syntax

section \<open>Decoding\<close>

lemma pieces_append: "pieces b i (ws @ vs) = pieces b i ws @ pieces b (i + sum_list ws) vs"
  by (induction ws arbitrary: i) (simp_all add: add.assoc)

lemmas get_eq = u16_field.get_eq_Ok u32_field.get_eq_Ok u64_field.get_eq_Ok

lemma nonzero_bytes_eq [wire]:
  assumes "i \<le> j" "j \<le> length b"
  shows "nonzero_bytes b i j = Ok (read_at b i (j - i) \<noteq> replicate (j - i) 0)"
proof -
  have "list_ex (\<lambda>byte. byte \<noteq> 0) xs \<longleftrightarrow> xs \<noteq> replicate (length xs) (0 :: u8)" for xs
    by (induction xs) auto
  then show ?thesis using assms by (simp add: nonzero_bytes_def slice_def)
qed

lemma decode_features_Ok:
  assumes "off + 16 \<le> length b"
  shows "decode_features b off = Ok v \<longleftrightarrow> pieces b off [8, 8] = feature_fields v"
  using assms by (cases v) (auto simp: decode_features_def feature_fields_def outcome get_eq)

lemma decode_limits_Ok:
  assumes "144 \<le> length b"
  shows "decode_limits b = Ok l \<longleftrightarrow> pieces b 96 [2, 2, 4, 8, 8, 8, 8, 4, 4] = limit_fields l"
  using assms
  by (cases l) (auto simp: decode_limits_def limit_fields_def outcome get_eq to_le_bytes_zero)

lemma flags_cases:
  assumes "(flags :: u32) AND NOT KNOWN_ATOMIC_FLAGS = 0"
  shows "flags \<in> {0, 1, 2, 3}"
proof -
  have k: "KNOWN_ATOMIC_FLAGS = mask 2"
    by (simp add: KNOWN_ATOMIC_FLAGS_def ATOMIC_U32_LOCK_FREE_def ATOMIC_U64_LOCK_FREE_def mask_eq_exp_minus_1)
  have "flags = (flags AND mask 2) OR (flags AND NOT (mask 2))"
    by (simp add: bit.conj_disj_distrib [symmetric])
  then have "flags = take_bit 2 flags"
    using assms by (simp add: k take_bit_eq_mask)
  then have "unat flags < 4"
    by (metis unsigned_take_bit_eq take_bit_nat_less_exp mult_2 numeral_Bit0 power2_eq_square)
  then have "unat flags = 0 \<or> unat flags = 1 \<or> unat flags = 2 \<or> unat flags = 3" by auto
  then show ?thesis by (auto simp: word_unat_eq_iff)
qed

lemma atomic_flags_eq:
  "flags = atomic_flags \<lparr>at_u32_lock_free = u, at_u64_lock_free = v, at_u32_alignment = a,
     at_u64_alignment = b, at_page_alignment = c, at_cache_line_alignment = d\<rparr> \<longleftrightarrow>
   flags AND NOT KNOWN_ATOMIC_FLAGS = 0 \<and> u = (flags AND ATOMIC_U32_LOCK_FREE \<noteq> 0) \<and>
   v = (flags AND ATOMIC_U64_LOCK_FREE \<noteq> 0)"
  using flags_cases [of flags]
  by (auto simp: atomic_flags_def KNOWN_ATOMIC_FLAGS_def ATOMIC_U32_LOCK_FREE_def
      ATOMIC_U64_LOCK_FREE_def Let_def)

lemma decode_atomics_Ok:
  assumes "160 \<le> length b"
  shows "decode_atomics b = Ok a \<longleftrightarrow>
    offer_valid a \<and> pieces b 144 [4, 2, 2, 4, 4] = atomic_fields a"
proof -
  obtain flags where f: "get_u32 b 144 = (Ok flags :: (u32, NegotiationWireError) result)"
    using assms by (simp add: wire)
  have v: "read_at b 144 4 = to_le_bytes 4 v \<longleftrightarrow> flags = v" for v :: u32
    using f by (auto simp: get_eq dest: arg_cong [where f = "from_le_bytes :: bytes \<Rightarrow> u32"]
        simp: u32_field.dec_enc)
  show ?thesis
    using assms
    by (cases a) (auto simp: decode_atomics_def atomic_fields_def outcome get_eq f v atomic_flags_eq)
qed

lemma decode_target_Ok:
  assumes "166 \<le> length b"
  shows "decode_target b = Ok t \<longleftrightarrow> target_valid t \<and> pieces b 160 [2, 2, 1, 1] = target_fields t"
  using assms
  by (cases t) (auto simp: decode_target_def target_fields_def outcome get_eq)

lemma SenderRole_decode_Ok [outcome]: "SenderRole_decode v = Ok r \<longleftrightarrow> v = sender_role_raw r"
  by (cases r) (auto simp: SenderRole_decode_def)

lemma SenderRole_decode_Panic [outcome]: "SenderRole_decode v \<noteq> Panic"
  by (simp add: SenderRole_decode_def)

lemma DecisionChallenge_decode_Ok [outcome]:
  "DecisionChallenge_decode b = Ok c \<longleftrightarrow> b = challenge_bytes c \<and> b \<noteq> replicate 16 0"
  by (cases c) (auto simp: DecisionChallenge_decode_def)

lemma decode_hello_Ok:
  assumes "224 \<le> length b" "length b = 224 + unat n"
  shows "decode_hello alloc b role nonce n limit = Ok frame \<longleftrightarrow>
    (\<exists>f. frame = Hello f \<and> he_role f = role \<and> he_nonce f = nonce \<and>
      he_application_payload f = drop 224 b \<and> HelloFrame_validate f = Ok () \<and>
      n \<le> limit \<and> alloc (unat n) \<and>
      read_at b 28 4 = replicate 4 0 \<and> pieces b 64 [8, 8] = feature_fields (he_supported_features f) \<and>
      pieces b 80 [8, 8] = feature_fields (he_required_features f) \<and>
      pieces b 96 [2, 2, 4, 8, 8, 8, 8, 4, 4] = limit_fields (he_limits f) \<and>
      pieces b 144 [4, 2, 2, 4, 4] = atomic_fields (he_atomics f) \<and>
      pieces b 160 [2, 2, 1, 1] = target_fields (he_target f) \<and>
      read_at b 166 32 = replicate 32 0)"
  (is "?L \<longleftrightarrow> ?R")
proof -
  have n: "try_from_usize (length (drop 224 b)) = Some n"
    using assms(2) unat_lt_pow [of n] by (simp add: try_from_usize_def)
  have z: "get_u32 b 28 = (Ok w :: (u32, NegotiationWireError) result) \<longleftrightarrow>
      read_at b 28 4 = to_le_bytes 4 w" for w
    using assms(1) by (simp add: get_eq)
  have slice: "slice b 224 (length b) = (Ok (drop 224 b) :: (bytes, NegotiationWireError) result)"
    using assms by (simp add: slice_def read_at_def)
  have g: "decode_features b 64 = Ok v \<longleftrightarrow> pieces b 64 [8, 8] = feature_fields v"
    "decode_features b 80 = Ok v \<longleftrightarrow> pieces b 80 [8, 8] = feature_fields v"
    "decode_limits b = Ok l \<longleftrightarrow> pieces b 96 [2, 2, 4, 8, 8, 8, 8, 4, 4] = limit_fields l"
    "decode_atomics b = Ok a \<longleftrightarrow> offer_valid a \<and> pieces b 144 [4, 2, 2, 4, 4] = atomic_fields a"
    "decode_target b = Ok t \<longleftrightarrow> target_valid t \<and> pieces b 160 [2, 2, 1, 1] = target_fields t"
    for v l a t
    using assms(1)
    by (simp_all only: decode_features_Ok decode_limits_Ok decode_atomics_Ok decode_target_Ok)
  have valid: "HelloFrame_validate f = Ok () \<longleftrightarrow>
      he_nonce f \<noteq> replicate 32 0 \<and> is_subset_of (he_required_features f) (he_supported_features f) \<and>
      limits_valid (he_limits f) \<and> offer_valid (he_atomics f) \<and> target_valid (he_target f) \<and>
      n \<le> HARD_MAX_BOOTSTRAP_PAYLOAD_BYTES \<and> n \<le> max_bootstrap_payload_bytes (he_limits f)"
    if "he_application_payload f = drop 224 b" for f
    using n that by (auto simp: HelloFrame_validate_def outcome)
  have digest: "(nonzero_bytes b 166 198 :: (bool, NegotiationWireError) result) =
      Ok (read_at b 166 32 \<noteq> replicate 32 0)"
    using assms(1) by (simp add: wire)
  show ?thesis
    unfolding decode_hello_def digest HEADER_LEN_def slice
    apply (simp add: outcome g z Let_def valid to_le_bytes_zero del: pieces.simps)
    apply (rule iffI)
    subgoal by (auto simp: valid simp del: pieces.simps)
    subgoal by (elim exE, rename_tac f, case_tac f) (auto simp: valid simp del: pieces.simps)
    done
qed

lemma AcceptFrame_validate_Ok:
  "AcceptFrame_validate f = Ok () \<longleftrightarrow>
     ac_nonce f \<noteq> replicate 32 0 \<and> ac_hello_digest f \<noteq> replicate 32 0 \<and>
     limits_valid (ac_effective_limits f) \<and> offer_valid (ac_atomics f) \<and> target_valid (ac_target f)"
  by (auto simp: AcceptFrame_validate_def outcome)

lemma decode_accept_Ok:
  assumes "224 \<le> length b"
  shows "decode_accept b role nonce n = Ok frame \<longleftrightarrow>
    (\<exists>f. frame = Accept f \<and> ac_role f = role \<and> ac_nonce f = nonce \<and> n = 0 \<and>
      AcceptFrame_validate f = Ok () \<and> challenge_bytes (ac_decision_challenge f) \<noteq> replicate 16 0 \<and>
      read_at b 28 4 = replicate 4 0 \<and> pieces b 64 [8, 8] = feature_fields (ac_selected_features f) \<and>
      read_at b 80 16 = challenge_bytes (ac_decision_challenge f) \<and>
      pieces b 96 [2, 2, 4, 8, 8, 8, 8, 4, 4] = limit_fields (ac_effective_limits f) \<and>
      pieces b 144 [4, 2, 2, 4, 4] = atomic_fields (ac_atomics f) \<and>
      pieces b 160 [2, 2, 1, 1] = target_fields (ac_target f) \<and>
      read_at b 166 32 = ac_hello_digest f)"
proof -
  have z: "get_u32 b 28 = (Ok w :: (u32, NegotiationWireError) result) \<longleftrightarrow>
      read_at b 28 4 = to_le_bytes 4 w" for w
    using assms(1) by (simp add: get_eq)
  have g: "decode_features b 64 = Ok v \<longleftrightarrow> pieces b 64 [8, 8] = feature_fields v"
    "decode_limits b = Ok l \<longleftrightarrow> pieces b 96 [2, 2, 4, 8, 8, 8, 8, 4, 4] = limit_fields l"
    "decode_atomics b = Ok a \<longleftrightarrow> offer_valid a \<and> pieces b 144 [4, 2, 2, 4, 4] = atomic_fields a"
    "decode_target b = Ok t \<longleftrightarrow> target_valid t \<and> pieces b 160 [2, 2, 1, 1] = target_fields t"
    for v l a t
    using assms(1)
    by (simp_all only: decode_features_Ok decode_limits_Ok decode_atomics_Ok decode_target_Ok)
  have slices: "slice b 166 198 = (Ok (read_at b 166 32) :: (bytes, NegotiationWireError) result)"
    "slice b 80 96 = (Ok (read_at b 80 16) :: (bytes, NegotiationWireError) result)"
    using assms by (simp_all add: slice_def)
  show ?thesis
    unfolding decode_accept_def slices
    apply (simp add: outcome g z Let_def AcceptFrame_validate_Ok to_le_bytes_zero del: pieces.simps)
    apply (rule iffI)
    subgoal by (auto simp del: pieces.simps)
    subgoal by (elim exE, rename_tac f, case_tac f) (auto simp del: pieces.simps)
    done
qed

lemma RejectFrame_validate_Ok: "RejectFrame_validate f = Ok () \<longleftrightarrow> re_nonce f \<noteq> replicate 32 0"
  by (simp add: RejectFrame_validate_def)

lemma decode_reject_Ok:
  assumes "224 \<le> length b"
  shows "decode_reject b role nonce n = Ok frame \<longleftrightarrow>
    (\<exists>f. frame = Reject f \<and> re_role f = role \<and> re_nonce f = nonce \<and> n = 0 \<and>
      RejectFrame_validate f = Ok () \<and> challenge_bytes (re_decision_challenge f) \<noteq> replicate 16 0 \<and>
      re_reason f \<noteq> 0 \<and> read_at b 28 4 = to_le_bytes 4 (re_reason f) \<and>
      read_at b 64 16 = replicate 16 0 \<and>
      read_at b 80 16 = challenge_bytes (re_decision_challenge f) \<and>
      read_at b 96 102 = replicate 102 0)"
proof -
  have z: "get_u32 b 28 = (Ok w :: (u32, NegotiationWireError) result) \<longleftrightarrow>
      read_at b 28 4 = to_le_bytes 4 w" for w
    using assms(1) by (simp add: get_eq)
  have slices: "slice b 80 96 = (Ok (read_at b 80 16) :: (bytes, NegotiationWireError) result)"
    "(nonzero_bytes b 64 80 :: (bool, NegotiationWireError) result) =
      Ok (read_at b 64 16 \<noteq> replicate 16 0)"
    "(nonzero_bytes b 96 198 :: (bool, NegotiationWireError) result) =
      Ok (read_at b 96 102 \<noteq> replicate 102 0)"
    using assms by (simp_all add: slice_def wire)
  show ?thesis
    unfolding decode_reject_def slices
    apply (simp add: outcome z Let_def RejectFrame_validate_Ok)
    apply (intro impI iffI)
    subgoal by auto
    subgoal by (elim exE, rename_tac f, case_tac f) auto
    done
qed

definition decode_kind ::
    "(usize \<Rightarrow> bool) \<Rightarrow> bytes \<Rightarrow> u16 \<Rightarrow> SenderRole \<Rightarrow> bytes \<Rightarrow> u32 \<Rightarrow> u32 \<Rightarrow>
     (NegotiationFrame, NegotiationWireError) result" where
  "decode_kind alloc b kind role nonce n limit =
     (if kind = KIND_HELLO then decode_hello alloc b role nonce n limit
      else if kind = KIND_ACCEPT then decode_accept b role nonce n
      else if kind = KIND_REJECT then decode_reject b role nonce n
      else Err BadKind)"

lemma decode_frame_steps:
  "decode_frame alloc b role nonce limit = Ok frame \<longleftrightarrow>
    (\<exists>kind n. length b = 224 + unat n \<and> unat n + 224 < 2 ^ 32 \<and>
      pieces b 0 [8, 2, 2, 2, 1, 1, 4, 4, 4] = take 9 (prefix_fields kind role (unat n) 0 nonce) \<and>
      read_at b 32 32 = nonce \<and> nonce \<noteq> replicate 32 0 \<and> read_at b 198 26 = replicate 26 0 \<and>
      decode_kind alloc b kind role nonce n limit = Ok frame)"
proof (cases "224 \<le> length b")
  case False
  then show ?thesis by (auto simp: decode_frame_def HEADER_LEN_def)
next
  case True
  have slices: "slice b 0 8 = (Ok (read_at b 0 8) :: (bytes, NegotiationWireError) result)"
    "slice b 32 64 = (Ok (read_at b 32 32) :: (bytes, NegotiationWireError) result)"
    "(nonzero_bytes b 198 224 :: (bool, NegotiationWireError) result) =
      Ok (read_at b 198 26 \<noteq> replicate 26 0)"
    using True by (simp_all add: slice_def wire)
  have len: "224 + unat (n :: u32) \<le> usize_max" for n
    using unat_lt_pow [of n] by (simp add: usize_max_def)
  have fl: "unat (fl :: u32) = 224 + unat (n :: u32) \<longleftrightarrow>
      unat n + 224 < 2 ^ 32 \<and> fl = word_of_nat (224 + unat n)" for fl n
    using unat_lt_pow [of fl] by (auto simp: word_unat_eq_iff simp del: of_nat_add)
  show ?thesis
    unfolding decode_frame_def decode_kind_def [symmetric] slices HEADER_LEN_def
    using True len
    by (simp add: outcome get_eq checked_add_usize_def fl prefix_fields_def) auto
qed

definition admitted :: "(usize \<Rightarrow> bool) \<Rightarrow> u32 \<Rightarrow> NegotiationFrame \<Rightarrow> bool" where
  "admitted alloc limit frame \<longleftrightarrow>
     (case frame of
        Hello f \<Rightarrow> length (he_application_payload f) \<le> unat limit \<and> alloc (length (he_application_payload f))
      | _ \<Rightarrow> True)"

text \<open>The widths of the header fields of each kind of frame.\<close>

primrec frame_widths :: "NegotiationFrame \<Rightarrow> nat list" where
  "frame_widths (Hello f) = common_widths"
| "frame_widths (Accept f) = [8, 2, 2, 2, 1, 1, 4, 4, 4, 4, 32, 8, 8, 16, 2, 2, 4, 8, 8, 8, 8, 4, 4, 4, 2, 2,
     4, 4, 2, 2, 1, 1, 32, 26]"
| "frame_widths (Reject f) = [8, 2, 2, 2, 1, 1, 4, 4, 4, 4, 32, 16, 16, 102, 26]"

lemma map_length_fields: "frame_wf frame \<Longrightarrow> map length (header_fields frame) = frame_widths frame"
  by (cases frame) (simp_all add: field_defs challenge_wf_def)

lemma frame_bytes_pieces:
  assumes "frame_wf frame"
  shows "pieces (frame_bytes frame) 0 (frame_widths frame) = header_fields frame"
  using pieces_concat [of 0 "[]" "header_fields frame" "frame_payload frame"] map_length_fields [OF assms]
  by (simp add: frame_bytes_def)

lemma frame_bytes_eq:
  assumes "frame_wf frame"
  shows "b = frame_bytes frame \<longleftrightarrow>
    224 \<le> length b \<and> pieces b 0 (frame_widths frame) = header_fields frame \<and>
    drop 224 b = frame_payload frame"
proof
  assume "b = frame_bytes frame"
  then show "224 \<le> length b \<and> pieces b 0 (frame_widths frame) = header_fields frame \<and>
      drop 224 b = frame_payload frame"
    using length_header [OF assms] frame_bytes_pieces [OF assms] by (simp add: frame_bytes_def)
next
  assume r: "224 \<le> length b \<and> pieces b 0 (frame_widths frame) = header_fields frame \<and>
    drop 224 b = frame_payload frame"
  have w: "sum_list (frame_widths frame) = 224" by (cases frame) simp_all
  have "pieces (take 224 b) 0 (frame_widths frame) = pieces b 0 (frame_widths frame)"
    using r by (cases frame) (simp_all add: read_at_def take_drop)
  then have "take 224 b = concat (header_fields frame)"
    using r w by (intro pieces_determine [of _ "frame_widths frame"]) simp_all
  then show "b = frame_bytes frame"
    using r append_take_drop_id [of 224 b] by (simp add: frame_bytes_def)
qed

lemmas kind_defs = KIND_HELLO_def KIND_ACCEPT_def KIND_REJECT_def

lemma decode_kind_Ok:
  assumes "length b = 224 + unat n"
  shows "decode_kind alloc b kind role nonce n limit = Ok (Hello f) \<longleftrightarrow>
      kind = KIND_HELLO \<and> decode_hello alloc b role nonce n limit = Ok (Hello f)"
    "decode_kind alloc b kind role nonce n limit = Ok (Accept g) \<longleftrightarrow>
      kind = KIND_ACCEPT \<and> decode_accept b role nonce n = Ok (Accept g)"
    "decode_kind alloc b kind role nonce n limit = Ok (Reject h) \<longleftrightarrow>
      kind = KIND_REJECT \<and> decode_reject b role nonce n = Ok (Reject h)"
proof -
  have l: "224 \<le> length b" using assms by simp
  show "decode_kind alloc b kind role nonce n limit = Ok (Hello f) \<longleftrightarrow>
      kind = KIND_HELLO \<and> decode_hello alloc b role nonce n limit = Ok (Hello f)"
    "decode_kind alloc b kind role nonce n limit = Ok (Accept g) \<longleftrightarrow>
      kind = KIND_ACCEPT \<and> decode_accept b role nonce n = Ok (Accept g)"
    "decode_kind alloc b kind role nonce n limit = Ok (Reject h) \<longleftrightarrow>
      kind = KIND_REJECT \<and> decode_reject b role nonce n = Ok (Reject h)"
    unfolding decode_kind_def decode_hello_Ok [OF l assms] decode_accept_Ok [OF l] decode_reject_Ok [OF l]
      kind_defs
    by (auto simp: decode_hello_Ok [OF l assms] decode_accept_Ok [OF l] decode_reject_Ok [OF l])
qed

lemma decode_Hello:
  "decode_frame alloc b role nonce limit = Ok (Hello f) \<longleftrightarrow>
     length nonce = 32 \<and> HelloFrame_validate f = Ok () \<and> he_role f = role \<and> he_nonce f = nonce \<and>
     admitted alloc limit (Hello f) \<and> b = frame_bytes (Hello f)"
  (is "?L \<longleftrightarrow> ?R")
proof
  assume ?L
  then obtain kind n where n: "length b = 224 + unat n"
    and p: "pieces b 0 [8, 2, 2, 2, 1, 1, 4, 4, 4] = take 9 (prefix_fields kind role (unat n) 0 nonce)"
      "read_at b 32 32 = nonce" "read_at b 198 26 = replicate 26 0"
    and k: "decode_kind alloc b kind role nonce n limit = Ok (Hello f)"
    unfolding decode_frame_steps by blast
  have l: "224 \<le> length b" using n by simp
  note k = k [unfolded decode_kind_Ok(1) [OF n] decode_hello_Ok [OF l n]]
  have payload: "length (he_application_payload f) = unat n" using k n by auto
  have "length nonce = 32" using p(2) l by auto
  moreover from this have "b = frame_bytes (Hello f)"
    using k p l n payload
    by (subst frame_bytes_eq) (auto simp: field_defs to_le_bytes_zero)
  ultimately show ?R
    using k payload by (auto simp: admitted_def word_le_nat_alt)
next
  assume R: ?R
  let ?n = "word_of_nat (length (he_application_payload f)) :: u32"
  have small: "length (he_application_payload f) \<le> 2 ^ 24" using hello_payload_bound R by blast
  then have un: "unat ?n = length (he_application_payload f)" by simp
  have w: "frame_wf (Hello f)" using R by simp
  have b: "pieces b 0 common_widths = header_fields (Hello f)" "drop 224 b = he_application_payload f"
    "224 \<le> length b"
    using frame_bytes_eq [OF w, of b] R by simp_all
  have n: "length b = 224 + unat ?n" using arg_cong [OF b(2), of length] b(3) un by simp
  have v: "he_nonce f \<noteq> replicate 32 0" using R by (auto simp: HelloFrame_validate_def)
  have "decode_hello alloc b role nonce ?n limit = Ok (Hello f)"
    unfolding decode_hello_Ok [OF b(3) n]
    using R b un by (simp add: field_defs to_le_bytes_zero admitted_def word_le_nat_alt)
  then show ?L
    unfolding decode_frame_steps
    using R b un small n v
    by (intro exI [of _ KIND_HELLO] exI [of _ ?n])
      (simp add: decode_kind_Ok field_defs)
qed

lemma decode_Accept:
  "decode_frame alloc b role nonce limit = Ok (Accept f) \<longleftrightarrow>
     frame_wf (Accept f) \<and> AcceptFrame_validate f = Ok () \<and> ac_role f = role \<and> ac_nonce f = nonce \<and>
     b = frame_bytes (Accept f)"
  (is "?L \<longleftrightarrow> ?R")
proof
  assume ?L
  then obtain kind n where n: "length b = 224 + unat n"
    and p: "pieces b 0 [8, 2, 2, 2, 1, 1, 4, 4, 4] = take 9 (prefix_fields kind role (unat n) 0 nonce)"
      "read_at b 32 32 = nonce" "read_at b 198 26 = replicate 26 0"
    and k: "decode_kind alloc b kind role nonce n limit = Ok (Accept f)"
    unfolding decode_frame_steps by blast
  have l: "224 \<le> length b" using n by simp
  note k = k [unfolded decode_kind_Ok(2) [OF n] decode_accept_Ok [OF l]]
  have "length nonce = 32" "length (ac_hello_digest f) = 32"
    "length (challenge_bytes (ac_decision_challenge f)) = 16"
    using p(2) l k length_read_at [of 166 32 b] length_read_at [of 80 16 b] by auto
  then have w: "frame_wf (Accept f)" using k by (auto simp: challenge_wf_def)
  moreover from this have "b = frame_bytes (Accept f)"
    using k p l n by (subst frame_bytes_eq) (auto simp: field_defs to_le_bytes_zero)
  ultimately show ?R using k by auto
next
  assume R: ?R
  have w: "frame_wf (Accept f)" using R by blast
  have b: "pieces b 0 (frame_widths (Accept f)) = header_fields (Accept f)" "drop 224 b = []"
    "224 \<le> length b"
    using frame_bytes_eq [OF w, of b] R by simp_all
  have n: "length b = 224 + unat (0 :: u32)" using b by simp
  have v: "ac_nonce f \<noteq> replicate 32 0" using R by (auto simp: AcceptFrame_validate_Ok)
  have "decode_accept b role nonce 0 = Ok (Accept f)"
    unfolding decode_accept_Ok [OF b(3)]
    using R b by (simp add: field_defs to_le_bytes_zero challenge_wf_def)
  then show ?L
    unfolding decode_frame_steps
    using R b n v
    by (intro exI [of _ KIND_ACCEPT] exI [of _ 0]) (simp add: decode_kind_Ok field_defs)
qed

lemma decode_Reject:
  "decode_frame alloc b role nonce limit = Ok (Reject f) \<longleftrightarrow>
     frame_wf (Reject f) \<and> RejectFrame_validate f = Ok () \<and> re_role f = role \<and> re_nonce f = nonce \<and>
     b = frame_bytes (Reject f)"
  (is "?L \<longleftrightarrow> ?R")
proof
  assume ?L
  then obtain kind n where n: "length b = 224 + unat n"
    and p: "pieces b 0 [8, 2, 2, 2, 1, 1, 4, 4, 4] = take 9 (prefix_fields kind role (unat n) 0 nonce)"
      "read_at b 32 32 = nonce" "read_at b 198 26 = replicate 26 0"
    and k: "decode_kind alloc b kind role nonce n limit = Ok (Reject f)"
    unfolding decode_frame_steps by blast
  have l: "224 \<le> length b" using n by simp
  note k = k [unfolded decode_kind_Ok(3) [OF n] decode_reject_Ok [OF l]]
  have "length nonce = 32" "length (challenge_bytes (re_decision_challenge f)) = 16"
    using p(2) l k length_read_at [of 80 16 b] by auto
  then have w: "frame_wf (Reject f)" using k by (auto simp: challenge_wf_def)
  moreover from this have "b = frame_bytes (Reject f)"
    using k p l n by (subst frame_bytes_eq) (auto simp: field_defs to_le_bytes_zero)
  ultimately show ?R using k by auto
next
  assume R: ?R
  have w: "frame_wf (Reject f)" using R by blast
  have b: "pieces b 0 (frame_widths (Reject f)) = header_fields (Reject f)" "drop 224 b = []"
    "224 \<le> length b"
    using frame_bytes_eq [OF w, of b] R by simp_all
  have n: "length b = 224 + unat (0 :: u32)" using b by simp
  have v: "re_nonce f \<noteq> replicate 32 0" using R by (auto simp: RejectFrame_validate_Ok)
  have "decode_reject b role nonce 0 = Ok (Reject f)"
    unfolding decode_reject_Ok [OF b(3)]
    using R b by (simp add: field_defs to_le_bytes_zero challenge_wf_def)
  then show ?L
    unfolding decode_frame_steps
    using R b n v
    by (intro exI [of _ KIND_REJECT] exI [of _ 0]) (simp add: decode_kind_Ok field_defs)
qed

lemma decode_frame_Ok:
  "decode_frame alloc b role nonce limit = Ok frame \<longleftrightarrow>
     frame_wf frame \<and> frame_validate frame = Ok () \<and> frame_role frame = role \<and>
     frame_nonce frame = nonce \<and> admitted alloc limit frame \<and> b = frame_bytes frame"
  by (cases frame) (auto simp: decode_Hello decode_Accept decode_Reject admitted_def)

lemma decode_fields_no_panic:
  assumes "224 \<le> length b"
  shows "decode_features b 64 \<noteq> Panic" "decode_features b 80 \<noteq> Panic" "decode_limits b \<noteq> Panic"
    "decode_atomics b \<noteq> Panic" "decode_target b \<noteq> Panic"
  using assms
  by (simp_all add: decode_features_def decode_limits_def decode_atomics_def decode_target_def outcome)

lemma decode_frame_no_panic: "decode_frame alloc b role nonce limit \<noteq> Panic"
proof (cases "224 \<le> length b")
  case True
  note d = decode_fields_no_panic [OF True]
  have s: "slice b i j \<noteq> (Panic :: (bytes, NegotiationWireError) result)"
    "nonzero_bytes b i j \<noteq> (Panic :: (bool, NegotiationWireError) result)"
    if "i \<le> j" "j \<le> 224" for i j
    using True that by (simp_all add: slice_def nonzero_bytes_def)
  have t: "slice b 224 (length b) \<noteq> (Panic :: (bytes, NegotiationWireError) result)"
    using True by (simp add: slice_def)
  have c: "DecisionChallenge_decode x \<noteq> Panic" for x by (simp add: DecisionChallenge_decode_def)
  have v: "HelloFrame_validate f \<noteq> Panic" "AcceptFrame_validate g \<noteq> Panic" "RejectFrame_validate h \<noteq> Panic"
    for f g h
    using frame_validate_Panic [of "Hello f"] frame_validate_Panic [of "Accept g"]
      frame_validate_Panic [of "Reject h"] by simp_all
  have h: "decode_hello alloc b role nonce n limit \<noteq> Panic" for n
    using True by (simp add: decode_hello_def outcome d s t v HEADER_LEN_def Let_def)
  have a: "decode_accept b role nonce n \<noteq> Panic" "decode_reject b role nonce n \<noteq> Panic" for n
    using True by (simp_all add: decode_accept_def decode_reject_def outcome d s v c Let_def)
  show ?thesis
    using True h a by (simp add: decode_frame_def outcome s HEADER_LEN_def)
qed (simp add: decode_frame_def HEADER_LEN_def)

section \<open>The hashed transcript\<close>

text \<open>The hashed fields of a HELLO before its payload; their widths are fixed.\<close>

definition hash_fields :: "HelloFrame \<Rightarrow> bytes list" where
  "hash_fields f =
     [MAGIC, to_le_bytes 2 WIRE_MAJOR, to_le_bytes 2 WIRE_MINOR, to_le_bytes 2 KIND_HELLO,
      [sender_role_raw (he_role f)], he_nonce f] @
     feature_fields (he_supported_features f) @ feature_fields (he_required_features f) @
     [to_le_bytes 2 (max_regions_per_batch (he_limits f)),
      to_le_bytes 4 (max_active_regions (he_limits f)), to_le_bytes 8 (max_region_bytes (he_limits f)),
      to_le_bytes 8 (max_batch_bytes (he_limits f)), to_le_bytes 8 (max_active_bytes (he_limits f)),
      to_le_bytes 8 (max_transactions (he_limits f)),
      to_le_bytes 4 (max_bootstrap_payload_bytes (he_limits f)),
      to_le_bytes 4 (max_control_payload_bytes (he_limits f))] @
     atomic_fields (he_atomics f) @ target_fields (he_target f) @
     [to_le_bytes 4 (word_of_nat (length (he_application_payload f)) :: u32)]"

lemma hash_hello_Ok:
  "hash_hello f = Ok h \<longleftrightarrow>
     length (he_application_payload f) < 2 ^ 32 \<and> h = concat (hash_fields f) @ he_application_payload f"
  by (auto simp: hash_hello_def hash_fields_def field_defs outcome try_from_usize_def)

lemma to_le_bytes_inject:
  "to_le_bytes 2 a = to_le_bytes 2 (a' :: u16) \<longleftrightarrow> a = a'"
  "to_le_bytes 4 b = to_le_bytes 4 (b' :: u32) \<longleftrightarrow> b = b'"
  "to_le_bytes 8 c = to_le_bytes 8 (c' :: u64) \<longleftrightarrow> c = c'"
  by (metis u16_field.dec_enc, metis u32_field.dec_enc, metis u64_field.dec_enc)

lemma sender_role_raw_inject: "sender_role_raw r = sender_role_raw r' \<longleftrightarrow> r = r'"
  by (cases r; cases r') simp_all

lemma atomic_flags_inject:
  "atomic_flags a = atomic_flags a' \<Longrightarrow>
     at_u32_lock_free a = at_u32_lock_free a' \<and> at_u64_lock_free a = at_u64_lock_free a'"
  by (auto simp: atomic_flags_def ATOMIC_U32_LOCK_FREE_def ATOMIC_U64_LOCK_FREE_def Let_def split: if_splits)

lemma hash_fields_inject:
  assumes "hash_fields f = hash_fields f'"
    and "length (he_application_payload f) < 2 ^ 32" "length (he_application_payload f') < 2 ^ 32"
  shows "f\<lparr>he_application_payload := []\<rparr> = f'\<lparr>he_application_payload := []\<rparr>"
    "length (he_application_payload f) = length (he_application_payload f')"
proof -
  let ?w = "\<lambda>f. word_of_nat (length (he_application_payload f)) :: u32"
  note e = assms(1) [unfolded hash_fields_def field_defs, simplified, unfolded to_le_bytes_inject]
  have limits: "he_limits f = he_limits f'"
    using e by (cases "he_limits f"; cases "he_limits f'") simp
  have atomics: "he_atomics f = he_atomics f'"
    using e atomic_flags_inject [of "he_atomics f" "he_atomics f'"]
    by (cases "he_atomics f"; cases "he_atomics f'") simp
  have target: "he_target f = he_target f'"
    using e by (cases "he_target f"; cases "he_target f'") simp
  have features: "he_supported_features f = he_supported_features f'"
    "he_required_features f = he_required_features f'"
    using e by (auto intro: FeatureBits.expand)
  show "f\<lparr>he_application_payload := []\<rparr> = f'\<lparr>he_application_payload := []\<rparr>"
    using e limits atomics target features
    by (cases f; cases f') (simp add: sender_role_raw_inject)
  have "unat (?w f) = unat (?w f')" using e by simp
  then show "length (he_application_payload f) = length (he_application_payload f')"
    using assms(2,3) by simp
qed

lemma hash_hello_prefix_free:
  assumes "hash_hello f = (Ok h :: (bytes, NegotiationWireError) result)"
    "hash_hello f' = (Ok h' :: (bytes, NegotiationWireError) result)"
    "length (he_nonce f) = 32" "length (he_nonce f') = 32" "h @ q = h' @ q'"
  shows "f = f' \<and> q = q'"
proof -
  note h = assms(1,2) [unfolded hash_hello_Ok]
  have w: "map length (hash_fields f) = map length (hash_fields f')"
    using assms(3,4) by (simp add: hash_fields_def field_defs)
  have p: "pieces (h @ q) 0 (map length (hash_fields f)) = hash_fields f"
    using pieces_concat [of 0 "[]" "hash_fields f" "he_application_payload f @ q"] h(1) by simp
  have p': "pieces (h' @ q') 0 (map length (hash_fields f')) = hash_fields f'"
    using pieces_concat [of 0 "[]" "hash_fields f'" "he_application_payload f' @ q'"] h(2) by simp
  have "hash_fields f = pieces (h @ q) 0 (map length (hash_fields f))" by (rule p [symmetric])
  also have "\<dots> = pieces (h' @ q') 0 (map length (hash_fields f'))" unfolding assms(5) w ..
  also have "\<dots> = hash_fields f'" by (rule p')
  finally have e: "hash_fields f = hash_fields f'" .
  have l: "f\<lparr>he_application_payload := []\<rparr> = f'\<lparr>he_application_payload := []\<rparr>"
    "length (he_application_payload f) = length (he_application_payload f')"
    using hash_fields_inject [OF e] h by simp_all
  have "concat (hash_fields f') @ he_application_payload f @ q =
      concat (hash_fields f') @ he_application_payload f' @ q'"
    using assms(5) conjunct2 [OF h(1)] conjunct2 [OF h(2)] by (simp only: e append_assoc)
  then have "he_application_payload f @ q = he_application_payload f' @ q'" by simp
  then have p: "he_application_payload f = he_application_payload f'" "q = q'"
    using l(2) by simp_all
  then have "f = f'" using l(1) by (cases f; cases f') simp
  then show ?thesis using p(2) by simp
qed

lemma hello_preimage_Ok:
  "hello_preimage c r = (Ok x :: (bytes, NegotiationWireError) result) \<longleftrightarrow>
     (\<exists>h h'. hash_hello c = (Ok h :: (bytes, NegotiationWireError) result) \<and>
       hash_hello r = (Ok h' :: (bytes, NegotiationWireError) result) \<and> x = TRANSCRIPT_DOMAIN @ h @ h')"
  by (auto simp: hello_preimage_def outcome)

section \<open>Properties\<close>

text \<open>C25: \<^verbatim>\<open>decode_frame\<close> accepts exactly the canonical bytes of a valid frame from the expected sender with
  the expected nonce whose payload the local limit and the allocator admit; every accepted byte string
  therefore has one meaning and every frame one encoding.\<close>

theorem negotiation_decode_exact:
  "decode_frame alloc source expected_role expected_nonce local_payload_limit = Ok frame \<longleftrightarrow>
     frame_wf frame \<and> frame_validate frame = Ok () \<and> frame_role frame = expected_role \<and>
     frame_nonce frame = expected_nonce \<and> admitted alloc local_payload_limit frame \<and>
     source = frame_bytes frame"
  by (rule decode_frame_Ok)

text \<open>C26: a frame survives the wire.  What \<^verbatim>\<open>encode_into\<close> writes decodes, at a peer that expects its
  sender and nonce and admits its payload, to the same frame; bytes behind the frame are untouched.\<close>

theorem negotiation_roundtrip:
  assumes "frame_wf frame" "encode_frame_into frame destination = Ok (d, n)"
    and "admitted alloc limit frame"
  shows "decode_frame alloc (take n d) (frame_role frame) (frame_nonce frame) limit = Ok frame \<and>
    drop n d = drop n destination \<and> length d = length destination"
proof -
  have e: "frame_validate frame = Ok ()" "n = 224 + length (frame_payload frame)"
    "d = frame_bytes frame @ drop n destination" "n \<le> length destination"
    using assms(2) by (auto simp: encode_frame_into_eq [OF assms(1)] outcome not_less split: if_splits)
  have l: "length (frame_bytes frame) = n"
    using length_header [OF assms(1)] e(2) by (simp add: frame_bytes_def)
  then have "take n d = frame_bytes frame" using e(3) by simp
  then show ?thesis
    using assms(1,3) e l by (simp add: decode_frame_Ok)
qed

definition example_hello :: HelloFrame where
  "example_hello =
     \<lparr>he_role = Coordinator, he_nonce = replicate 32 7, he_supported_features = FeatureBits 3 0,
      he_required_features = FeatureBits 1 0, he_limits = SessionLimits_default,
      he_atomics = \<lparr>at_u32_lock_free = True, at_u64_lock_free = True, at_u32_alignment = 4,
        at_u64_alignment = 8, at_page_alignment = 4096, at_cache_line_alignment = 64\<rparr>,
      he_target = TargetFacts_current ''linux'' ''x86_64'', he_application_payload = [1, 2, 3]\<rparr>"

lemma replicate_neq: "x \<noteq> y \<Longrightarrow> n \<noteq> 0 \<Longrightarrow> replicate n x \<noteq> replicate n y"
  by (cases n) simp_all

lemma is_power_of_two_numerals:
  "is_power_of_two 4" "is_power_of_two 8" "is_power_of_two 64" "is_power_of_two 4096"
  by (simp_all add: is_power_of_two_def list_ex_iff)
    (intro bexI [of _ 2] bexI [of _ 3] bexI [of _ 6] bexI [of _ 12]; simp)+

lemma example_hello_valid: "frame_wf (Hello example_hello)" "HelloFrame_validate example_hello = Ok ()"
proof -
  show "frame_wf (Hello example_hello)" by (simp add: example_hello_def)
  show "HelloFrame_validate example_hello = Ok ()"
    by (simp add: HelloFrame_validate_def outcome example_hello_def replicate_neq is_subset_of_def
        limits_valid_def SessionLimits_default_def offer_valid_def is_power_of_two_numerals
        target_valid_def TargetFacts_current_def try_from_usize_def HARD_MAX_BOOTSTRAP_PAYLOAD_BYTES_def)
qed

theorem negotiation_roundtrip_witness:
  "\<exists>d. encode_frame_into (Hello example_hello) (replicate 300 1) = Ok (d, 227) \<and>
     decode_frame (\<lambda>_. True) (take 227 d) Coordinator (replicate 32 7) 4096 = Ok (Hello example_hello) \<and>
     drop 227 d = replicate 73 1"
proof -
  note v = example_hello_valid
  have n: "length (he_application_payload example_hello) = 3" "he_role example_hello = Coordinator"
    "he_nonce example_hello = replicate 32 7" by (simp_all add: example_hello_def)
  have e: "encode_frame_into (Hello example_hello) (replicate 300 1) =
      Ok (frame_bytes (Hello example_hello) @ drop 227 (replicate 300 1), 227)"
    using v(2) n by (simp add: encode_frame_into_eq [OF v(1)])
  have a: "admitted (\<lambda>_. True) 4096 (Hello example_hello)" by (simp add: admitted_def n)
  from negotiation_roundtrip [OF v(1) e a] e n show ?thesis by auto
qed

text \<open>the borrowed-HELLO encoder, which clears only the reserved ranges of a reused buffer, computes
  the same result as the general encoder, which clears the whole frame first, on every destination.\<close>

theorem hello_encoders_agree:
  assumes "length (he_nonce f) = 32"
  shows "encode_hello_into f destination = encode_frame_into (Hello f) destination"
proof (cases "HelloFrame_validate f")
  case (Ok u)
  let ?n = "length (he_application_payload f)"
  have len: "hello_encoded_len f = Ok (224 + ?n)"
    using Ok hello_payload_bound [of f]
    by (simp add: hello_encoded_len_def HEADER_LEN_def checked_add_usize_def usize_max_def)
  show ?thesis
  proof (cases "length destination < 224 + ?n")
    case True
    then show ?thesis
      using Ok assms len by (simp add: encode_frame_into_eq encode_hello_into_def)
  next
    case False
    then show ?thesis
      using Ok assms encode_hello_into_bytes [of f destination] encode_hello_bytes [of f destination]
      by simp
  qed
qed (use assms in \<open>simp_all add: encode_hello_into_def hello_encoded_len_def encode_frame_into_eq\<close>)

theorem hello_encoders_agree_witness:
  "encode_hello_into example_hello (replicate 300 1) = encode_frame_into (Hello example_hello) (replicate 300 1)"
  by (rule hello_encoders_agree) (simp add: example_hello_def)

text \<open>decoding arbitrary bytes never panics, and encoding a well-formed frame never panics, whatever
  the destination.\<close>

theorem negotiation_never_panics:
  "decode_frame alloc source role nonce limit \<noteq> Panic \<and>
   (frame_wf frame \<longrightarrow> encode_frame_into frame destination \<noteq> Panic)"
proof -
  have "encode_frame_into frame destination \<noteq> Panic" if "frame_wf frame"
    using frame_validate_Panic [of frame] by (simp add: encode_frame_into_eq [OF that] outcome)
  then show ?thesis using decode_frame_no_panic by blast
qed

theorem negotiation_never_panics_witness: "encode_frame_into (Hello example_hello) [] \<noteq> Panic"
  using negotiation_never_panics [of _ _ _ _ _ "Hello example_hello"] example_hello_valid(1) by blast

text \<open>the transcript hash binds both HELLOs.  Two pairs of HELLOs with the same hash input are the
  same pair, so endpoints that agree on the digest of a collision-free hash agree on every field and on
  both application payloads.\<close>

theorem hello_transcript_injective:
  assumes "length (he_nonce c) = 32" "length (he_nonce r) = 32"
    and "length (he_nonce c') = 32" "length (he_nonce r') = 32"
    and "hello_preimage c r = (Ok x :: (bytes, NegotiationWireError) result)"
    and "hello_preimage c' r' = (Ok x :: (bytes, NegotiationWireError) result)"
  shows "c = c' \<and> r = r'"
proof -
  obtain h g where h: "hash_hello c = (Ok h :: (bytes, NegotiationWireError) result)"
    "hash_hello r = (Ok g :: (bytes, NegotiationWireError) result)" "x = TRANSCRIPT_DOMAIN @ h @ g"
    using assms(5) unfolding hello_preimage_Ok by blast
  obtain h' g' where h': "hash_hello c' = (Ok h' :: (bytes, NegotiationWireError) result)"
    "hash_hello r' = (Ok g' :: (bytes, NegotiationWireError) result)" "x = TRANSCRIPT_DOMAIN @ h' @ g'"
    using assms(6) unfolding hello_preimage_Ok by blast
  have "h @ g = h' @ g'" using h(3) h'(3) by simp
  from hash_hello_prefix_free [OF h(1) h'(1) assms(1,3) this] have c: "c = c'" "g = g'" by simp_all
  from hash_hello_prefix_free [OF h(2) h'(2) assms(2,4), of "[]" "[]"] c(2) show ?thesis using c(1) by simp
qed

theorem hello_transcript_injective_witness:
  "\<exists>x. hello_preimage example_hello (example_hello\<lparr>he_role := Receiver\<rparr>) =
     (Ok x :: (bytes, NegotiationWireError) result) \<and>
     hello_preimage (example_hello\<lparr>he_role := Receiver\<rparr>) example_hello \<noteq>
     (Ok x :: (bytes, NegotiationWireError) result)"
proof -
  let ?r = "example_hello\<lparr>he_role := Receiver\<rparr>"
  have n: "length (he_nonce example_hello) = 32" "length (he_nonce ?r) = 32"
    "length (he_application_payload example_hello) < 2 ^ 32" "length (he_application_payload ?r) < 2 ^ 32"
    "example_hello \<noteq> ?r"
    by (simp_all add: example_hello_def)
  then obtain x where "hello_preimage example_hello ?r = (Ok x :: (bytes, NegotiationWireError) result)"
    using hello_preimage_Ok by (metis hash_hello_Ok)
  then show ?thesis
    using hello_transcript_injective [of example_hello ?r ?r example_hello x] n by blast
qed

end
