(* ===== verification/Transcript.thy ===== *)
theory Transcript
  imports Negotiation_Decode "HOL-Library.Sublist"
begin

text \<open>
  The negotiated transcript, \<^verbatim>\<open>NegotiatedTranscript\<close> of \<^verbatim>\<open>native-ipc/src/negotiation.rs\<close>: the checked
  reduction of two HELLOs, and the ordered one-shot decision machine that leads to accepted facts.
  SHA-256 and the target the library is compiled for are parameters.
\<close>

unbundle bit_operations_syntax

section \<open>Reduction of the two HELLOs\<close>

record HelloPair =
  hp_coordinator :: HelloFrame
  hp_receiver :: HelloFrame

record NegotiatedTranscript =
  nt_nonce :: bytes
  nt_selected_features :: FeatureBits
  nt_effective_limits :: SessionLimits
  nt_effective_atomics :: AtomicOffer
  nt_target :: TargetFacts
  nt_wire_major :: u16
  nt_wire_minor :: u16
  nt_hello_digest :: bytes
  nt_decision_challenge :: "DecisionChallenge option"
  nt_accepted_roles :: u8

record AcceptedTranscriptFacts =
  af_nonce :: bytes
  af_selected_features :: FeatureBits
  af_effective_limits :: SessionLimits
  af_effective_atomics :: AtomicOffer
  af_target :: TargetFacts
  af_wire_major :: u16
  af_wire_minor :: u16
  af_hello_digest :: bytes
  af_decision_challenge :: DecisionChallenge

definition alignment_mismatch :: "AtomicOffer \<Rightarrow> AtomicOffer \<Rightarrow> bool" where
  "alignment_mismatch offer local_atomics \<longleftrightarrow>
     at_u32_alignment offer \<noteq> at_u32_alignment local_atomics \<or>
     at_u64_alignment offer \<noteq> at_u64_alignment local_atomics \<or>
     at_page_alignment offer \<noteq> at_page_alignment local_atomics \<or>
     at_cache_line_alignment offer \<noteq> at_cache_line_alignment local_atomics"

definition atomic_features :: "AtomicOffer \<Rightarrow> FeatureBits" where
  "atomic_features a =
     FeatureBits
       ((of_bool (at_u32_lock_free a) * features0 FEATURE_ATOMIC_U32) OR
        (of_bool (at_u64_lock_free a) * features0 FEATURE_ATOMIC_U64)) 0"

definition from_hello_pair ::
    "(bytes \<Rightarrow> bytes) \<Rightarrow> TargetFacts \<Rightarrow> HelloPair \<Rightarrow> AtomicCapabilities \<Rightarrow>
     (NegotiatedTranscript, NegotiationWireError) result" where
  "from_hello_pair sha256 current hellos verified_local_atomics =
     (let coordinator = hp_coordinator hellos; receiver = hp_receiver hellos in
      rbind (HelloFrame_validate coordinator) (\<lambda>_.
      rbind (HelloFrame_validate receiver) (\<lambda>_.
      if he_role coordinator \<noteq> Coordinator \<or> he_role receiver \<noteq> Receiver then Err BadRole
      else if he_nonce coordinator \<noteq> he_nonce receiver then Err NonceMismatch
      else if he_target coordinator \<noteq> current \<or> he_target receiver \<noteq> current then Err TargetMismatch
      else
        rbind (AtomicOffer_from_local verified_local_atomics) (\<lambda>local_atomics.
        if alignment_mismatch (he_atomics coordinator) local_atomics \<or>
          alignment_mismatch (he_atomics receiver) local_atomics
        then Err AtomicMismatch
        else
          let effective_atomics = local_atomics
                \<lparr>at_u32_lock_free := at_u32_lock_free local_atomics \<and>
                   at_u32_lock_free (he_atomics coordinator) \<and> at_u32_lock_free (he_atomics receiver),
                 at_u64_lock_free := at_u64_lock_free local_atomics \<and>
                   at_u64_lock_free (he_atomics coordinator) \<and> at_u64_lock_free (he_atomics receiver)\<rparr>;
              selected_features = intersection (intersection (intersection
                (he_supported_features coordinator) (he_supported_features receiver))
                KNOWN_FEATURES) (atomic_features effective_atomics);
              required = feature_union (he_required_features coordinator)
                (he_required_features receiver)
          in if \<not> is_subset_of required selected_features then Err RequiredFeatureNotSupported
             else
               rbind (map_err (\<lambda>_. BadLimits)
                 (SessionLimits_negotiate (he_limits coordinator) (he_limits receiver)))
                 (\<lambda>effective_limits.
               rbind (canonical_hello_digest sha256 coordinator receiver) (\<lambda>hello_digest.
                 Ok \<lparr>nt_nonce = he_nonce coordinator, nt_selected_features = selected_features,
                     nt_effective_limits = effective_limits,
                     nt_effective_atomics = effective_atomics, nt_target = current,
                     nt_wire_major = WIRE_MAJOR, nt_wire_minor = WIRE_MINOR,
                     nt_hello_digest = hello_digest, nt_decision_challenge = None,
                     nt_accepted_roles = 0\<rparr>))))))"

definition from_hellos_with_peer_payload ::
    "(bytes \<Rightarrow> bytes) \<Rightarrow> TargetFacts \<Rightarrow> HelloPair \<Rightarrow> AtomicCapabilities \<Rightarrow> SenderRole \<Rightarrow>
     (NegotiatedTranscript \<times> bytes, NegotiationWireError) result" where
  "from_hellos_with_peer_payload sha256 current hellos verified_local_atomics peer_role =
     rbind (from_hello_pair sha256 current hellos verified_local_atomics) (\<lambda>transcript.
       Ok (transcript,
         case peer_role of
           Coordinator \<Rightarrow> he_application_payload (hp_coordinator hellos)
         | Receiver \<Rightarrow> he_application_payload (hp_receiver hellos)))"

section \<open>Decisions\<close>

definition u8_max :: u8 where "u8_max = 255"

abbreviation dead :: "NegotiatedTranscript \<Rightarrow> NegotiatedTranscript" where
  "dead t \<equiv> t\<lparr>nt_accepted_roles := u8_max\<rparr>"

definition accept_frame :: "NegotiatedTranscript \<Rightarrow> SenderRole \<Rightarrow> DecisionChallenge \<Rightarrow> AcceptFrame" where
  "accept_frame t role challenge =
     \<lparr>ac_role = role, ac_nonce = nt_nonce t, ac_selected_features = nt_selected_features t,
      ac_effective_limits = nt_effective_limits t, ac_atomics = nt_effective_atomics t,
      ac_target = nt_target t, ac_hello_digest = nt_hello_digest t,
      ac_decision_challenge = challenge\<rparr>"

definition coordinator_accept ::
    "NegotiatedTranscript \<Rightarrow> DecisionChallenge \<Rightarrow> (AcceptFrame, NegotiationWireError) result" where
  "coordinator_accept t challenge =
     (if nt_accepted_roles t \<noteq> 0 then Err DecisionReplayOrOrder
      else Ok (accept_frame t Coordinator challenge))"

definition receiver_accept :: "NegotiatedTranscript \<Rightarrow> (AcceptFrame, NegotiationWireError) result" where
  "receiver_accept t =
     (if nt_accepted_roles t \<noteq> 1 then Err DecisionReplayOrOrder
      else
        rbind (ok_or DecisionReplayOrOrder (nt_decision_challenge t)) (\<lambda>challenge.
          Ok (accept_frame t Receiver challenge)))"

definition coordinator_reject ::
    "NegotiatedTranscript \<Rightarrow> DecisionChallenge \<Rightarrow> u32 \<Rightarrow>
     NegotiatedTranscript \<times> (RejectFrame, NegotiationWireError) result" where
  "coordinator_reject t challenge reason =
     (if nt_accepted_roles t \<noteq> 0 then (dead t, Err DecisionReplayOrOrder)
      else
        let reject = \<lparr>re_role = Coordinator, re_nonce = nt_nonce t, re_reason = reason,
                      re_decision_challenge = challenge\<rparr> in
        sbind (t, RejectFrame_validate reject) (\<lambda>t _. (dead t, Ok reject)))"

definition receiver_reject ::
    "NegotiatedTranscript \<Rightarrow> u32 \<Rightarrow> NegotiatedTranscript \<times> (RejectFrame, NegotiationWireError) result"
where
  "receiver_reject t reason =
     (if nt_accepted_roles t \<noteq> 1 then (dead t, Err DecisionReplayOrOrder)
      else
        sbind (t, ok_or DecisionReplayOrOrder (nt_decision_challenge t)) (\<lambda>t challenge.
        let reject = \<lparr>re_role = Receiver, re_nonce = nt_nonce t, re_reason = reason,
                      re_decision_challenge = challenge\<rparr> in
        sbind (t, RejectFrame_validate reject) (\<lambda>t _. (dead t, Ok reject))))"

definition validate_reject ::
    "NegotiatedTranscript \<Rightarrow> RejectFrame \<Rightarrow> SenderRole \<Rightarrow>
     NegotiatedTranscript \<times> (u32, NegotiationWireError) result" where
  "validate_reject t reject expected_role =
     (let order_is_valid =
          (case expected_role of
             Coordinator \<Rightarrow> nt_accepted_roles t = 0
           | Receiver \<Rightarrow> nt_accepted_roles t = 1)
      in if \<not> order_is_valid then (dead t, Err DecisionReplayOrOrder)
         else
           case RejectFrame_validate reject of
             Err e \<Rightarrow> (dead t, Err e)
           | Panic \<Rightarrow> (t, Panic)
           | Ok _ \<Rightarrow>
               if re_role reject \<noteq> expected_role \<or> re_nonce reject \<noteq> nt_nonce t
               then (dead t, Err EffectiveMismatch)
               else if expected_role = Receiver then
                 (case nt_decision_challenge t of
                    None \<Rightarrow> (dead t, Err DecisionReplayOrOrder)
                  | Some challenge \<Rightarrow>
                      if re_decision_challenge reject \<noteq> challenge
                      then (dead t, Err DecisionChallengeMismatch)
                      else (dead t, Ok (re_reason reject)))
               else (dead t, Ok (re_reason reject)))"

definition validate_accept ::
    "NegotiatedTranscript \<Rightarrow> AcceptFrame \<Rightarrow> SenderRole \<Rightarrow>
     NegotiatedTranscript \<times> (unit, NegotiationWireError) result" where
  "validate_accept t accept expected_role =
     (if nt_wire_major t \<noteq> WIRE_MAJOR \<or> nt_wire_minor t \<noteq> WIRE_MINOR then (t, Err BadVersion)
      else
        let expected_bit = (case expected_role of Coordinator \<Rightarrow> 1 | Receiver \<Rightarrow> 2) in
        if nt_accepted_roles t = u8_max \<or> expected_bit = 2 \<and> nt_accepted_roles t \<noteq> 1 \<or>
          nt_accepted_roles t AND expected_bit \<noteq> 0
        then (dead t, Err DecisionReplayOrOrder)
        else
          sbind (t,
            case expected_role of
              Coordinator \<Rightarrow> Ok (ac_decision_challenge accept)
            | Receiver \<Rightarrow> ok_or DecisionReplayOrOrder (nt_decision_challenge t)) (\<lambda>t challenge.
          if expected_role = Receiver \<and> ac_decision_challenge accept \<noteq> challenge
          then (dead t, Err DecisionChallengeMismatch)
          else if accept \<noteq> accept_frame t expected_role challenge
          then (dead t, Err EffectiveMismatch)
          else
            let t = (if expected_role = Coordinator
                     then t\<lparr>nt_decision_challenge := Some challenge\<rparr> else t)
            in (t\<lparr>nt_accepted_roles := nt_accepted_roles t OR expected_bit\<rparr>, Ok ())))"

definition facts_of :: "NegotiatedTranscript \<Rightarrow> DecisionChallenge \<Rightarrow> AcceptedTranscriptFacts" where
  "facts_of t challenge =
     \<lparr>af_nonce = nt_nonce t, af_selected_features = nt_selected_features t,
      af_effective_limits = nt_effective_limits t, af_effective_atomics = nt_effective_atomics t,
      af_target = nt_target t, af_wire_major = nt_wire_major t, af_wire_minor = nt_wire_minor t,
      af_hello_digest = nt_hello_digest t, af_decision_challenge = challenge\<rparr>"

definition take_accepted_facts ::
    "NegotiatedTranscript \<Rightarrow>
     NegotiatedTranscript \<times> (AcceptedTranscriptFacts, NegotiationWireError) result" where
  "take_accepted_facts t =
     (if nt_accepted_roles t \<noteq> 3 then (dead t, Err DecisionReplayOrOrder)
      else
        sbind (t, ok_or DecisionReplayOrOrder (nt_decision_challenge t)) (\<lambda>t challenge.
          (dead t, Ok (facts_of t challenge))))"

section \<open>The decision machine\<close>

text \<open>
  One endpoint calls the operations in any order and with any frames.  The log records the frames it
  accepted and the facts it took.
\<close>

datatype TranscriptOp =
    CoordinatorAccept DecisionChallenge
  | ReceiverAccept
  | CoordinatorReject DecisionChallenge u32
  | ReceiverReject u32
  | ValidateAccept AcceptFrame SenderRole
  | ValidateReject RejectFrame SenderRole
  | TakeAcceptedFacts

datatype TranscriptEvent = Accepted AcceptFrame | FactsTaken AcceptedTranscriptFacts

primrec transcript_exec ::
    "TranscriptOp \<Rightarrow> NegotiatedTranscript \<Rightarrow> NegotiatedTranscript \<times> TranscriptEvent list" where
  "transcript_exec (CoordinatorAccept c) t = (t, [])"
| "transcript_exec ReceiverAccept t = (t, [])"
| "transcript_exec (CoordinatorReject c reason) t = (fst (coordinator_reject t c reason), [])"
| "transcript_exec (ReceiverReject reason) t = (fst (receiver_reject t reason), [])"
| "transcript_exec (ValidateAccept f role) t =
     (let (t, r) = validate_accept t f role in (t, if is_ok r then [Accepted f] else []))"
| "transcript_exec (ValidateReject f role) t = (fst (validate_reject t f role), [])"
| "transcript_exec TakeAcceptedFacts t =
     (let (t, r) = take_accepted_facts t in (t, case r of Ok facts \<Rightarrow> [FactsTaken facts] | _ \<Rightarrow> []))"

primrec transcript_run ::
    "TranscriptOp list \<Rightarrow> NegotiatedTranscript \<Rightarrow> NegotiatedTranscript \<times> TranscriptEvent list" where
  "transcript_run [] t = (t, [])"
| "transcript_run (op # ops) t =
     (let (t, es) = transcript_exec op t; (t, fs) = transcript_run ops t in (t, es @ fs))"

section \<open>What the machine admits\<close>

definition fresh_transcript :: "NegotiatedTranscript \<Rightarrow> bool" where
  "fresh_transcript t \<longleftrightarrow>
     nt_wire_major t = WIRE_MAJOR \<and> nt_wire_minor t = WIRE_MINOR \<and>
     nt_decision_challenge t = None \<and> nt_accepted_roles t = 0"

text \<open>The states of the machine over a fresh transcript, with the events that lead to them.\<close>

definition stage :: "NegotiatedTranscript \<Rightarrow> NegotiatedTranscript \<Rightarrow> TranscriptEvent list \<Rightarrow> bool" where
  "stage t0 t log \<longleftrightarrow>
     (t = t0 \<and> log = []) \<or>
     (\<exists>c. t = t0\<lparr>nt_decision_challenge := Some c, nt_accepted_roles := 1\<rparr> \<and>
       log = [Accepted (accept_frame t0 Coordinator c)]) \<or>
     (\<exists>c. t = t0\<lparr>nt_decision_challenge := Some c, nt_accepted_roles := 3\<rparr> \<and>
       log = [Accepted (accept_frame t0 Coordinator c), Accepted (accept_frame t0 Receiver c)]) \<or>
     (nt_accepted_roles t = u8_max \<and> nt_wire_major t = WIRE_MAJOR \<and> nt_wire_minor t = WIRE_MINOR \<and>
       (\<exists>c. prefix log [Accepted (accept_frame t0 Coordinator c), Accepted (accept_frame t0 Receiver c),
         FactsTaken (facts_of t0 c)]))"

abbreviation accepted_log :: "NegotiatedTranscript \<Rightarrow> DecisionChallenge \<Rightarrow> TranscriptEvent list" where
  "accepted_log t0 c \<equiv>
     [Accepted (accept_frame t0 Coordinator c), Accepted (accept_frame t0 Receiver c),
      FactsTaken (facts_of t0 c)]"

lemma stage_cases [consumes 1, case_names fresh proposed agreed ended]:
  assumes "stage t0 t log"
  obtains "t = t0" "log = []"
  | c where "t = t0\<lparr>nt_decision_challenge := Some c, nt_accepted_roles := 1\<rparr>"
      "log = [Accepted (accept_frame t0 Coordinator c)]"
  | c where "t = t0\<lparr>nt_decision_challenge := Some c, nt_accepted_roles := 3\<rparr>"
      "log = [Accepted (accept_frame t0 Coordinator c), Accepted (accept_frame t0 Receiver c)]"
  | c where "nt_accepted_roles t = u8_max" "nt_wire_major t = WIRE_MAJOR" "nt_wire_minor t = WIRE_MINOR"
      "prefix log (accepted_log t0 c)"
  using assms unfolding stage_def by blast

lemma stage_dead:
  assumes "fresh_transcript t0" "stage t0 t log"
  shows "stage t0 (dead t) log"
  using assms(2)
proof (cases rule: stage_cases)
  case fresh
  then show ?thesis using assms(1) by (auto simp: stage_def fresh_transcript_def)
next
  case (proposed c)
  then show ?thesis using assms(1) by (auto simp: stage_def fresh_transcript_def)
next
  case (agreed c)
  then show ?thesis using assms(1) by (auto simp: stage_def fresh_transcript_def)
next
  case (ended c)
  then show ?thesis by (auto simp: stage_def)
qed

lemma stage_unmoved:
  assumes "fresh_transcript t0" "stage t0 t log" "t' \<in> {t, dead t}"
  shows "stage t0 t' log"
  using assms(3)
proof (elim insertE emptyE)
  assume "t' = t"
  then show ?thesis using assms(2) by (simp only:)
next
  assume "t' = dead t"
  then show ?thesis using stage_dead [OF assms(1,2)] by (simp only:)
qed

lemma rejects_state:
  "fst (coordinator_reject t c reason) \<in> {t, dead t}" "fst (receiver_reject t reason) \<in> {t, dead t}"
  "fst (validate_reject t f role) \<in> {t, dead t}"
proof -
  show "fst (coordinator_reject t c reason) \<in> {t, dead t}"
    by (simp add: coordinator_reject_def RejectFrame_validate_def Let_def)
  show "fst (receiver_reject t reason) \<in> {t, dead t}"
    by (cases "nt_decision_challenge t") (simp_all add: receiver_reject_def RejectFrame_validate_def Let_def)
  show "fst (validate_reject t f role) \<in> {t, dead t}"
    by (cases role; cases "nt_decision_challenge t")
      (simp_all add: validate_reject_def RejectFrame_validate_def Let_def)
qed

lemma accept_frame_base [simp]:
  "accept_frame (t\<lparr>nt_decision_challenge := x, nt_accepted_roles := n\<rparr>) = accept_frame t"
  by (simp add: fun_eq_iff accept_frame_def)

lemma validate_accept_cases:
  assumes "validate_accept t f role = (t', r)"
  obtains (failed) "\<not> is_ok r" "t' \<in> {t, dead t}"
  | (coordinator) ch where "r = Ok ()" "role = Coordinator" "nt_accepted_roles t \<noteq> u8_max"
      "nt_accepted_roles t AND 1 = 0" "f = accept_frame t Coordinator ch"
      "t' = t\<lparr>nt_decision_challenge := Some ch, nt_accepted_roles := nt_accepted_roles t OR 1\<rparr>"
  | (receiver) ch where "r = Ok ()" "role = Receiver" "nt_accepted_roles t = 1"
      "nt_decision_challenge t = Some ch" "f = accept_frame t Receiver ch"
      "t' = t\<lparr>nt_accepted_roles := 3\<rparr>"
proof (cases role)
  case Coordinator
  have "(\<not> is_ok r \<and> t' \<in> {t, dead t}) \<or> (r = Ok () \<and> nt_accepted_roles t \<noteq> u8_max \<and>
      nt_accepted_roles t AND 1 = 0 \<and> f = accept_frame t Coordinator (ac_decision_challenge f) \<and>
      t' = t\<lparr>nt_decision_challenge := Some (ac_decision_challenge f),
        nt_accepted_roles := nt_accepted_roles t OR 1\<rparr>)"
    using assms Coordinator by (auto simp: validate_accept_def Let_def split: if_splits)
  then show ?thesis using Coordinator that(1,2) by blast
next
  case Receiver
  have "(\<not> is_ok r \<and> t' \<in> {t, dead t}) \<or> (r = Ok () \<and> nt_accepted_roles t = 1 \<and>
      nt_decision_challenge t = Some (ac_decision_challenge f) \<and>
      f = accept_frame t Receiver (ac_decision_challenge f) \<and> t' = t\<lparr>nt_accepted_roles := 3\<rparr>)"
    using assms Receiver
    by (cases "nt_decision_challenge t") (auto simp: validate_accept_def Let_def split: if_splits)
  then show ?thesis using Receiver that(1,3) by blast
qed

lemma stage_intros:
  "stage t0 (t0\<lparr>nt_decision_challenge := Some c, nt_accepted_roles := 1\<rparr>)
     [Accepted (accept_frame t0 Coordinator c)]"
  "stage t0 (t0\<lparr>nt_decision_challenge := Some c, nt_accepted_roles := 3\<rparr>)
     [Accepted (accept_frame t0 Coordinator c), Accepted (accept_frame t0 Receiver c)]"
  unfolding stage_def by blast+

lemma stage_alive:
  assumes "fresh_transcript t0" "stage t0 t log" "nt_accepted_roles t \<noteq> u8_max"
  shows "(nt_accepted_roles t AND 1 = 0 \<longrightarrow> t = t0 \<and> log = []) \<and>
    (nt_accepted_roles t = 1 \<longrightarrow> (\<exists>c. t = t0\<lparr>nt_decision_challenge := Some c, nt_accepted_roles := 1\<rparr> \<and>
      log = [Accepted (accept_frame t0 Coordinator c)]))"
  using assms(2)
proof (cases rule: stage_cases)
  case (ended c)
  then show ?thesis using assms(3) by simp
qed (use assms(1) in \<open>auto simp: fresh_transcript_def\<close>)

lemma validate_accept_stage:
  assumes "fresh_transcript t0" "stage t0 t log" "validate_accept t f role = (t', r)"
  shows "stage t0 t' (log @ (if is_ok r then [Accepted f] else []))"
  using assms(3)
proof (cases rule: validate_accept_cases)
  case failed
  then show ?thesis using stage_unmoved [OF assms(1,2) failed(2)] by simp
next
  case (coordinator ch)
  have t: "t = t0" "log = []"
    using stage_alive [OF assms(1,2) coordinator(3)] coordinator(4) by blast+
  have "t' = t0\<lparr>nt_decision_challenge := Some ch, nt_accepted_roles := 1\<rparr>"
    using coordinator(6) assms(1) unfolding t by (simp add: fresh_transcript_def)
  then show ?thesis using coordinator(1,5) stage_intros(1) [of t0 ch] unfolding t by simp
next
  case (receiver ch)
  have alive: "nt_accepted_roles t \<noteq> u8_max" using receiver(3) by (simp add: u8_max_def)
  obtain d where d: "t = t0\<lparr>nt_decision_challenge := Some d, nt_accepted_roles := 1\<rparr>"
    "log = [Accepted (accept_frame t0 Coordinator d)]"
    using stage_alive [OF assms(1,2) alive] receiver(3) by blast
  have "d = ch" using receiver(4) unfolding d(1) by simp
  then show ?thesis
    using receiver(1,5,6) stage_intros(2) [of t0 ch] unfolding d by simp
qed

lemma stage_agreed:
  assumes "fresh_transcript t0" "stage t0 t log" "nt_accepted_roles t = 3"
  shows "\<exists>c. t = t0\<lparr>nt_decision_challenge := Some c, nt_accepted_roles := 3\<rparr> \<and>
    log = [Accepted (accept_frame t0 Coordinator c), Accepted (accept_frame t0 Receiver c)]"
  using assms(2)
proof (cases rule: stage_cases)
  case (ended c)
  then show ?thesis using assms(3) by (simp add: u8_max_def)
qed (use assms(1,3) in \<open>auto simp: fresh_transcript_def\<close>)

lemma take_facts_stage:
  assumes "fresh_transcript t0" "stage t0 t log" "take_accepted_facts t = (t', r)"
  shows "stage t0 t' (log @ (case r of Ok facts \<Rightarrow> [FactsTaken facts] | _ \<Rightarrow> []))"
proof (cases "nt_accepted_roles t = 3")
  case False
  then show ?thesis
    using assms(3) stage_dead [OF assms(1,2)] by (auto simp: take_accepted_facts_def)
next
  case True
  obtain c where c: "t = t0\<lparr>nt_decision_challenge := Some c, nt_accepted_roles := 3\<rparr>"
    "log = [Accepted (accept_frame t0 Coordinator c), Accepted (accept_frame t0 Receiver c)]"
    using stage_agreed [OF assms(1,2) True] by blast
  have t: "t' = dead t" "r = Ok (facts_of t0 c)"
    using assms(3) c(1) by (auto simp: take_accepted_facts_def facts_of_def)
  have "nt_accepted_roles t' = u8_max \<and> nt_wire_major t' = WIRE_MAJOR \<and> nt_wire_minor t' = WIRE_MINOR"
    using t(1) c(1) assms(1) by (simp add: fresh_transcript_def)
  moreover have "prefix (log @ [FactsTaken (facts_of t0 c)]) (accepted_log t0 c)" by (simp add: c(2))
  ultimately show ?thesis unfolding stage_def t(2) by auto
qed

lemma transcript_exec_stage:
  assumes "fresh_transcript t0" "stage t0 t log" "transcript_exec op t = (t', es)"
  shows "stage t0 t' (log @ es)"
proof (cases op)
  case (ValidateAccept f role)
  then show ?thesis
    using assms(3) validate_accept_stage [OF assms(1,2), of f role]
    by (cases "validate_accept t f role") simp
next
  case TakeAcceptedFacts
  then show ?thesis
    using assms(3) take_facts_stage [OF assms(1,2)] by (cases "take_accepted_facts t") simp
next
  case (CoordinatorReject c reason)
  then show ?thesis
    using assms(3) stage_unmoved [OF assms(1,2) rejects_state(1) [of t c reason]] by simp
next
  case (ReceiverReject reason)
  then show ?thesis
    using assms(3) stage_unmoved [OF assms(1,2) rejects_state(2) [of t reason]] by simp
next
  case (ValidateReject f role)
  then show ?thesis
    using assms(3) stage_unmoved [OF assms(1,2) rejects_state(3) [of t f role]] by simp
qed (use assms(2,3) in simp_all)

lemma transcript_run_stage:
  assumes "fresh_transcript t0" "stage t0 t log" "transcript_run ops t = (t', es)"
  shows "stage t0 t' (log @ es)"
  using assms(2,3)
proof (induction ops arbitrary: t log es)
  case (Cons op ops)
  obtain t1 es1 where e: "transcript_exec op t = (t1, es1)" by (cases "transcript_exec op t")
  obtain es2 where r: "transcript_run ops t1 = (t', es2)" "es = es1 @ es2"
    using Cons.prems(2) e by (cases "transcript_run ops t1") auto
  have "stage t0 t1 (log @ es1)" by (rule transcript_exec_stage [OF assms(1) Cons.prems(1) e])
  from Cons.IH [OF this r(1)] show ?case using r(2) by simp
qed simp

lemma run_log:
  assumes "fresh_transcript t0" "transcript_run ops t0 = (t, log)"
  shows "\<exists>c. prefix log (accepted_log t0 c)"
proof -
  have "stage t0 t0 []" by (simp add: stage_def)
  from transcript_run_stage [OF assms(1) this assms(2)] have "stage t0 t log" by simp
  then show ?thesis
  proof (cases rule: stage_cases)
    case fresh
    then show ?thesis by simp
  next
    case (proposed c)
    then show ?thesis by (intro exI [of _ c]) simp
  next
    case (agreed c)
    then show ?thesis by (intro exI [of _ c]) simp
  next
    case (ended c)
    then show ?thesis by blast
  qed
qed

lemma prefix_accepted_log:
  assumes "prefix log (accepted_log t c)"
  shows "log \<in> {[], take 1 (accepted_log t c), take 2 (accepted_log t c), accepted_log t c}"
  using assms by (auto simp: prefix_Cons)

lemma facts_log:
  assumes "fresh_transcript t0" "transcript_run ops t0 = (t, log)" "FactsTaken f \<in> set log"
  shows "\<exists>c. log = accepted_log t0 c \<and> f = facts_of t0 c"
proof -
  obtain c where "prefix log (accepted_log t0 c)" using run_log [OF assms(1,2)] by blast
  then show ?thesis using assms(3) prefix_accepted_log [of log t0 c] by auto
qed

lemma accept_frame_inject:
  assumes "accept_frame t role c = accept_frame u role' d" "fresh_transcript t" "fresh_transcript u"
  shows "role = role'" "c = d" "t = u"
proof -
  show "role = role'" "c = d" using assms(1) by (simp_all add: accept_frame_def)
  show "t = u"
    using assms by (cases t; cases u) (simp add: accept_frame_def fresh_transcript_def)
qed

section \<open>Features\<close>

lemma subset_bits: "(a AND NOT b = 0) \<longleftrightarrow> (\<forall>n. bit (a :: u64) n \<longrightarrow> bit b n)"
proof -
  have "n < 64" if "bit a n" for n using bit_imp_le_length [OF that] by simp
  then show ?thesis by (auto simp: bit_eq_iff bit_and_iff bit_not_iff)
qed

lemma is_subset_of_bits:
  "is_subset_of a b \<longleftrightarrow>
     (\<forall>n. bit (features0 a) n \<longrightarrow> bit (features0 b) n) \<and> (\<forall>n. bit (features1 a) n \<longrightarrow> bit (features1 b) n)"
  by (simp add: is_subset_of_def subset_bits)

lemma is_subset_of_intersection:
  "is_subset_of a (intersection b c) \<longleftrightarrow> is_subset_of a b \<and> is_subset_of a c"
  by (auto simp: is_subset_of_bits intersection_def bit_and_iff)

lemma is_subset_of_union:
  "is_subset_of (feature_union a b) c \<longleftrightarrow> is_subset_of a c \<and> is_subset_of b c"
  by (auto simp: is_subset_of_bits feature_union_def bit_or_iff)

lemma is_subset_of_refl: "is_subset_of a a"
  by (simp add: is_subset_of_bits)

lemma atomic_feature_selected:
  "is_subset_of FEATURE_ATOMIC_U32 (atomic_features a) \<longleftrightarrow> at_u32_lock_free a"
  "is_subset_of FEATURE_ATOMIC_U64 (atomic_features a) \<longleftrightarrow> at_u64_lock_free a"
  by (cases "at_u32_lock_free a"; cases "at_u64_lock_free a";
      simp add: is_subset_of_def atomic_features_def FEATURE_ATOMIC_U32_def FEATURE_ATOMIC_U64_def)+

lemma from_hello_pair_Ok:
  assumes "from_hello_pair sha256 current \<lparr>hp_coordinator = c, hp_receiver = r\<rparr> a = Ok t"
  shows "\<exists>l. AtomicOffer_from_local a = Ok l \<and> HelloFrame_validate c = Ok () \<and> HelloFrame_validate r = Ok () \<and>
    he_role c = Coordinator \<and> he_role r = Receiver \<and> he_nonce c = he_nonce r \<and>
    he_target c = current \<and> he_target r = current \<and>
    \<not> alignment_mismatch (he_atomics c) l \<and> \<not> alignment_mismatch (he_atomics r) l \<and>
    nt_effective_atomics t = l\<lparr>at_u32_lock_free := at_u32_lock_free l \<and> at_u32_lock_free (he_atomics c) \<and>
        at_u32_lock_free (he_atomics r),
      at_u64_lock_free := at_u64_lock_free l \<and> at_u64_lock_free (he_atomics c) \<and>
        at_u64_lock_free (he_atomics r)\<rparr> \<and>
    nt_selected_features t = intersection (intersection (intersection (he_supported_features c)
      (he_supported_features r)) KNOWN_FEATURES) (atomic_features (nt_effective_atomics t)) \<and>
    is_subset_of (feature_union (he_required_features c) (he_required_features r)) (nt_selected_features t) \<and>
    nt_effective_limits t = limits_meet (he_limits c) (he_limits r) \<and> limits_valid (nt_effective_limits t) \<and>
    canonical_hello_digest sha256 c r = (Ok (nt_hello_digest t) :: (bytes, NegotiationWireError) result) \<and>
    nt_nonce t = he_nonce c \<and> nt_target t = current \<and> fresh_transcript t"
  using assms limits_meet_valid [of "he_limits c" "he_limits r"]
  by (auto simp: from_hello_pair_def Let_def outcome fresh_transcript_def split: if_splits)

lemma from_hello_pair_fresh:
  assumes "from_hello_pair sha256 current hellos atomics = Ok t"
  shows "fresh_transcript t"
  using from_hello_pair_Ok assms by (cases hellos) blast

lemma handshake_steps:
  fixes t :: NegotiatedTranscript and c :: DecisionChallenge
  assumes "fresh_transcript t"
  defines "t1 \<equiv> t\<lparr>nt_decision_challenge := Some c, nt_accepted_roles := 1\<rparr>"
  defines "t2 \<equiv> t\<lparr>nt_decision_challenge := Some c, nt_accepted_roles := 3\<rparr>"
  shows "coordinator_accept t c = Ok (accept_frame t Coordinator c)"
    "validate_accept t (accept_frame t Coordinator c) Coordinator = (t1, Ok ())"
    "receiver_accept t1 = Ok (accept_frame t Receiver c)"
    "validate_accept t1 (accept_frame t Receiver c) Receiver = (t2, Ok ())"
    "take_accepted_facts t2 = (dead t2, Ok (facts_of t c))"
    "snd (take_accepted_facts (dead t2)) = Err DecisionReplayOrOrder"
proof -
  have t: "nt_wire_major t = WIRE_MAJOR" "nt_wire_minor t = WIRE_MINOR" "nt_accepted_roles t = 0"
    using assms(1) by (simp_all add: fresh_transcript_def)
  show "coordinator_accept t c = Ok (accept_frame t Coordinator c)"
    "validate_accept t (accept_frame t Coordinator c) Coordinator = (t1, Ok ())"
    "receiver_accept t1 = Ok (accept_frame t Receiver c)"
    "validate_accept t1 (accept_frame t Receiver c) Receiver = (t2, Ok ())"
    "take_accepted_facts t2 = (dead t2, Ok (facts_of t c))"
    "snd (take_accepted_facts (dead t2)) = Err DecisionReplayOrOrder"
    using t by (simp_all add: coordinator_accept_def validate_accept_def receiver_accept_def t1_def t2_def
        take_accepted_facts_def facts_of_def accept_frame_def u8_max_def Let_def)
qed

definition handshake_ops :: "NegotiatedTranscript \<Rightarrow> DecisionChallenge \<Rightarrow> TranscriptOp list" where
  "handshake_ops t c =
     [ValidateAccept (accept_frame t Coordinator c) Coordinator,
      ValidateAccept (accept_frame t Receiver c) Receiver, TakeAcceptedFacts]"

lemma handshake_run: "fresh_transcript t \<Longrightarrow> snd (transcript_run (handshake_ops t c) t) = accepted_log t c"
  by (simp add: handshake_ops_def handshake_steps)

section \<open>Properties\<close>


definition example_receiver_hello :: HelloFrame where
  "example_receiver_hello = example_hello\<lparr>he_role := Receiver, he_application_payload := [4]\<rparr>"

definition example_atomics :: AtomicCapabilities where
  "example_atomics =
     \<lparr>atomic_u32_lock_free = True, atomic_u32_alignment = 4, atomic_u64_lock_free = True,
      atomic_u64_alignment = 8, page_alignment = 4096, cache_line_alignment = 64\<rparr>"

abbreviation example_pair :: HelloPair where
  "example_pair \<equiv> \<lparr>hp_coordinator = example_hello, hp_receiver = example_receiver_hello\<rparr>"

lemma example_receiver_valid: "HelloFrame_validate example_receiver_hello = Ok ()"
  using example_hello_valid(2)
  by (simp add: HelloFrame_validate_def outcome example_receiver_hello_def example_hello_def
      try_from_usize_def HARD_MAX_BOOTSTRAP_PAYLOAD_BYTES_def SessionLimits_default_def
      split: if_splits)

lemma example_transcript:
  "\<exists>t. from_hello_pair (\<lambda>_. replicate 32 1) (TargetFacts_current ''linux'' ''x86_64'') example_pair
     example_atomics = Ok t"
proof -
  let ?l = "\<lparr>at_u32_lock_free = True, at_u64_lock_free = True, at_u32_alignment = 4,
    at_u64_alignment = 8, at_page_alignment = 4096, at_cache_line_alignment = 64\<rparr>"
  have local: "AtomicOffer_from_local example_atomics = Ok ?l"
    by (simp add: AtomicOffer_from_local_def example_atomics_def try_from_usize_def outcome
        offer_valid_def is_power_of_two_numerals)
  have digest: "canonical_hello_digest (\<lambda>_. replicate 32 1) example_hello example_receiver_hello =
      (Ok (replicate 32 1) :: (bytes, NegotiationWireError) result)"
    by (simp add: canonical_hello_digest_def hello_preimage_def outcome hash_hello_Ok
        example_hello_def example_receiver_hello_def)
  have valid: "limits_valid SessionLimits_default"
    by (simp add: limits_valid_def SessionLimits_default_def)
  have sel: "he_role example_hello = Coordinator" "he_role example_receiver_hello = Receiver"
    "he_nonce example_receiver_hello = he_nonce example_hello"
    "he_target example_hello = TargetFacts_current ''linux'' ''x86_64''"
    "he_target example_receiver_hello = TargetFacts_current ''linux'' ''x86_64''"
    "he_atomics example_hello = ?l" "he_atomics example_receiver_hello = ?l"
    "he_supported_features example_hello = FeatureBits 3 0"
    "he_supported_features example_receiver_hello = FeatureBits 3 0"
    "he_required_features example_hello = FeatureBits 1 0"
    "he_required_features example_receiver_hello = FeatureBits 1 0"
    "he_limits example_hello = SessionLimits_default"
    "he_limits example_receiver_hello = SessionLimits_default"
    by (simp_all add: example_hello_def example_receiver_hello_def)
  show ?thesis
    using valid example_hello_valid(2) example_receiver_valid
    by (simp add: from_hello_pair_def local digest sel alignment_mismatch_def outcome Let_def
        is_subset_of_def intersection_def feature_union_def KNOWN_FEATURES_def FEATURE_ATOMIC_U32_def
        FEATURE_ATOMIC_U64_def atomic_features_def)
qed


text \<open>C6: bilateral acceptance.  Whatever operations an endpoint performs on a fresh transcript and
  whatever frames it is given, it accepts at most the coordinator's exact ACCEPT and then the
  receiver's exact ACCEPT with the same challenge, in this order, and takes facts at most once, only
  after both, and exactly those of the negotiated transcript.\<close>

theorem acceptance_is_bilateral:
  assumes "from_hello_pair sha256 current hellos atomics = Ok t0"
    and "transcript_run ops t0 = (t, log)"
  shows "\<exists>c. prefix log [Accepted (accept_frame t0 Coordinator c), Accepted (accept_frame t0 Receiver c),
    FactsTaken (facts_of t0 c)]"
  using run_log [OF from_hello_pair_fresh [OF assms(1)] assms(2)] .

theorem acceptance_is_bilateral_witness:
  "\<exists>t0 c. from_hello_pair (\<lambda>_. replicate 32 1) (TargetFacts_current ''linux'' ''x86_64'') example_pair
     example_atomics = Ok t0 \<and>
     prefix (snd (transcript_run [TakeAcceptedFacts, ValidateAccept
       (accept_frame t0 Coordinator (DecisionChallenge [1])) Coordinator] t0))
       [Accepted (accept_frame t0 Coordinator c), Accepted (accept_frame t0 Receiver c),
        FactsTaken (facts_of t0 c)]"
proof -
  obtain t where t: "from_hello_pair (\<lambda>_. replicate 32 1) (TargetFacts_current ''linux'' ''x86_64'')
      example_pair example_atomics = Ok t" using example_transcript by blast
  let ?ops = "[TakeAcceptedFacts, ValidateAccept
    (accept_frame t Coordinator (DecisionChallenge [1])) Coordinator]"
  from acceptance_is_bilateral [OF t prod.collapse [symmetric, of "transcript_run ?ops t"]] t
  show ?thesis by blast
qed

text \<open>C27: agreement.  When both endpoints reach accepted facts, from possibly different HELLOs, and the
  receiver's ACCEPT that the coordinator accepted is one the receiver accepted too, then both hold
  the same facts: nonce, features, limits, atomics, target, digest and challenge.\<close>

theorem accepted_endpoints_agree:
  assumes "from_hello_pair sha256 current hellos atomics = Ok t0"
    and "from_hello_pair sha256 current hellos' atomics' = Ok u0"
    and "transcript_run ops t0 = (t, log)" "transcript_run ops' u0 = (u, log')"
    and "FactsTaken f \<in> set log" "FactsTaken g \<in> set log'"
    and "Accepted a \<in> set log" "Accepted a \<in> set log'" "ac_role a = Receiver"
  shows "f = g"
proof -
  note t0 = from_hello_pair_fresh [OF assms(1)] and u0 = from_hello_pair_fresh [OF assms(2)]
  obtain c where c: "log = accepted_log t0 c" "f = facts_of t0 c"
    using facts_log [OF t0 assms(3,5)] by blast
  obtain d where d: "log' = accepted_log u0 d" "g = facts_of u0 d"
    using facts_log [OF u0 assms(4,6)] by blast
  have "a = accept_frame t0 Receiver c" "a = accept_frame u0 Receiver d"
    using assms(7-9) c(1) d(1) by (auto simp: accept_frame_def)
  then have "accept_frame t0 Receiver c = accept_frame u0 Receiver d" by simp
  from accept_frame_inject [OF this t0 u0] show ?thesis using c(2) d(2) by simp
qed

theorem accepted_endpoints_agree_witness:
  "\<exists>t. from_hello_pair (\<lambda>_. replicate 32 1) (TargetFacts_current ''linux'' ''x86_64'') example_pair
     example_atomics = Ok t \<and>
     (\<forall>g. FactsTaken g \<in> set (snd (transcript_run (handshake_ops t (DecisionChallenge [1])) t)) \<longleftrightarrow>
       g = facts_of t (DecisionChallenge [1]))"
proof -
  obtain t where t: "from_hello_pair (\<lambda>_. replicate 32 1) (TargetFacts_current ''linux'' ''x86_64'')
      example_pair example_atomics = Ok t" using example_transcript by blast
  let ?run = "transcript_run (handshake_ops t (DecisionChallenge [1])) t"
  have log: "snd ?run = accepted_log t (DecisionChallenge [1])"
    by (rule handshake_run [OF from_hello_pair_fresh [OF t]])
  have "g = facts_of t (DecisionChallenge [1])" if "FactsTaken g \<in> set (snd ?run)" for g
    by (rule accepted_endpoints_agree [OF t t prod.collapse [symmetric, of ?run]
          prod.collapse [symmetric, of ?run] that, of _ "accept_frame t Receiver (DecisionChallenge [1])"])
      (simp_all add: log accept_frame_def)
  then show ?thesis using t log by (intro exI [of _ t]) auto
qed

text \<open>C29: the handshake completes.  With the same fresh transcript on both sides, the coordinator's ACCEPT
  and the receiver's answer are produced, both are accepted in order, and the facts become available;
  a second taking fails.\<close>

theorem handshake_completes:
  assumes "from_hello_pair sha256 current hellos atomics = Ok t"
  shows "\<exists>a b t1 t2 t3. coordinator_accept t c = Ok a \<and> validate_accept t a Coordinator = (t1, Ok ()) \<and>
    receiver_accept t1 = Ok b \<and> validate_accept t1 b Receiver = (t2, Ok ()) \<and>
    take_accepted_facts t2 = (t3, Ok (facts_of t c)) \<and> snd (take_accepted_facts t3) = Err DecisionReplayOrOrder"
  using handshake_steps [OF from_hello_pair_fresh [OF assms], of c] by blast

theorem handshake_completes_witness:
  "\<exists>t a. from_hello_pair (\<lambda>_. replicate 32 1) (TargetFacts_current ''linux'' ''x86_64'') example_pair
     example_atomics = Ok t \<and> coordinator_accept t (DecisionChallenge [1]) = Ok a"
  using example_transcript handshake_completes by blast

end
