(* ===== verification/Protocol.thy ===== *)
theory Protocol
  imports Limits
begin

text \<open>
  The transfer manifest and the transaction frames, \<^verbatim>\<open>native-ipc/src/protocol.rs\<close>.  A manifest names
  the regions of one transfer transaction; every phase frame of the transaction carries the whole
  manifest under its own magic.  An \<^verbatim>\<open>Option\<close> that is \<^verbatim>\<open>None\<close> is an error with no value, so that the
  panics of slice indexing stay visible.
\<close>

section \<open>Constants\<close>

definition CONTROL_VERSION :: u32 where "CONTROL_VERSION = 1"
definition MAX_TRANSFER_ENTRIES :: usize where "MAX_TRANSFER_ENTRIES = 16"
definition ENTRY_LEN :: usize where "ENTRY_LEN = 64"
definition CONTROL_FRAME_LEN :: usize where
  "CONTROL_FRAME_LEN = 96 + MAX_TRANSFER_ENTRIES * ENTRY_LEN"

text \<open>The magics are \<^verbatim>\<open>NIPC\<close> and four bytes that name the frame: \<^verbatim>\<open>CAP1\<close>, \<^verbatim>\<open>CPR1\<close> and so on.\<close>

definition nipc_magic :: "bytes \<Rightarrow> bytes" where
  "nipc_magic kind = [0x4E, 0x49, 0x50, 0x43] @ kind"

definition CAPABILITY_MAGIC :: bytes where
  "CAPABILITY_MAGIC = nipc_magic [0x43, 0x41, 0x50, 0x31]"
definition COORDINATOR_CAPACITY_READY_MAGIC :: bytes where
  "COORDINATOR_CAPACITY_READY_MAGIC = nipc_magic [0x43, 0x50, 0x52, 0x31]"
definition COORDINATOR_CAPACITY_REJECT_MAGIC :: bytes where
  "COORDINATOR_CAPACITY_REJECT_MAGIC = nipc_magic [0x43, 0x50, 0x4A, 0x31]"
definition COORDINATOR_PREPARATION_FAILED_MAGIC :: bytes where
  "COORDINATOR_PREPARATION_FAILED_MAGIC = nipc_magic [0x43, 0x50, 0x46, 0x31]"
definition RECEIVER_CAPACITY_READY_MAGIC :: bytes where
  "RECEIVER_CAPACITY_READY_MAGIC = nipc_magic [0x52, 0x50, 0x52, 0x31]"
definition RECEIVER_CAPACITY_REJECT_MAGIC :: bytes where
  "RECEIVER_CAPACITY_REJECT_MAGIC = nipc_magic [0x52, 0x50, 0x4A, 0x31]"
definition IMPORTED_MAGIC :: bytes where "IMPORTED_MAGIC = nipc_magic [0x49, 0x4D, 0x50, 0x31]"
definition SEALED_MAGIC :: bytes where "SEALED_MAGIC = nipc_magic [0x53, 0x45, 0x41, 0x31]"
definition READY_MAGIC :: bytes where "READY_MAGIC = nipc_magic [0x52, 0x44, 0x59, 0x31]"
definition COMMIT_MAGIC :: bytes where "COMMIT_MAGIC = nipc_magic [0x43, 0x4D, 0x54, 0x31]"

lemmas magic_defs =
  CAPABILITY_MAGIC_def COORDINATOR_CAPACITY_READY_MAGIC_def COORDINATOR_CAPACITY_REJECT_MAGIC_def
  COORDINATOR_PREPARATION_FAILED_MAGIC_def RECEIVER_CAPACITY_READY_MAGIC_def
  RECEIVER_CAPACITY_REJECT_MAGIC_def IMPORTED_MAGIC_def SEALED_MAGIC_def READY_MAGIC_def
  COMMIT_MAGIC_def nipc_magic_def

definition MANIFEST_FLAG_CANONICAL :: u32 where "MANIFEST_FLAG_CANONICAL = 1"
definition REQUIRED_ENTRY_FLAGS :: u16 where "REQUIRED_ENTRY_FLAGS = 3"

section \<open>Data\<close>

datatype NativeAuthorityProfile = Legacy | LinuxMdweV1 | MacMachV1 | WindowsSectionsV1

primrec profile_raw :: "NativeAuthorityProfile \<Rightarrow> u32" where
  "profile_raw Legacy = 0"
| "profile_raw LinuxMdweV1 = 1"
| "profile_raw MacMachV1 = 2"
| "profile_raw WindowsSectionsV1 = 3"

definition is_vnext :: "NativeAuthorityProfile \<Rightarrow> bool" where
  "is_vnext p \<longleftrightarrow> p \<noteq> Legacy"

datatype PeerAccess = ReadOnly | SoleWriter

primrec access_raw :: "PeerAccess \<Rightarrow> u32" where
  "access_raw ReadOnly = 1"
| "access_raw SoleWriter = 2"

record NativeRegionSpec =
  ns_region_id :: u128
  ns_incarnation :: bytes
  ns_writer :: u32
  ns_logical_len :: u64
  ns_mapped_len :: u64

definition NativeRegionSpec_new ::
    "u128 \<Rightarrow> bytes \<Rightarrow> u32 \<Rightarrow> usize \<Rightarrow> usize \<Rightarrow> NativeRegionSpec option" where
  "NativeRegionSpec_new region_id incarnation writer logical mapped =
     (case try_from_usize logical of
        None \<Rightarrow> None
      | Some logical_len \<Rightarrow>
          (case try_from_usize mapped of
             None \<Rightarrow> None
           | Some mapped_len \<Rightarrow>
               if region_id = 0 \<or> incarnation = replicate 16 0 \<or> logical_len = 0 \<or>
                 logical_len > mapped_len
               then None
               else
                 Some \<lparr>ns_region_id = region_id, ns_incarnation = incarnation, ns_writer = writer,
                   ns_logical_len = logical_len, ns_mapped_len = mapped_len\<rparr>))"

record ManifestEntry =
  me_region_id :: u128
  me_incarnation :: bytes
  me_writer :: u32
  me_access :: PeerAccess
  me_logical_len :: u64
  me_mapped_len :: u64
  me_ordinal :: u16
  me_flags :: u16

definition from_native :: "NativeRegionSpec \<Rightarrow> PeerAccess \<Rightarrow> ManifestEntry" where
  "from_native spec access =
     \<lparr>me_region_id = ns_region_id spec, me_incarnation = ns_incarnation spec,
      me_writer = ns_writer spec, me_access = access, me_logical_len = ns_logical_len spec,
      me_mapped_len = ns_mapped_len spec, me_ordinal = 0, me_flags = REQUIRED_ENTRY_FLAGS\<rparr>"

record TransferManifest =
  tm_nonce :: bytes
  tm_parent_pid :: u32
  tm_child_pid :: u32
  tm_transfer_id :: u64
  tm_authority_profile :: NativeAuthorityProfile
  tm_total_logical :: u64
  tm_total_mapped :: u64
  tm_entries :: "ManifestEntry list"

section \<open>Construction\<close>

definition entry_rejected :: "ManifestEntry \<Rightarrow> bool" where
  "entry_rejected e \<longleftrightarrow>
     me_region_id e = 0 \<or> me_incarnation e = replicate 16 0 \<or> me_logical_len e = 0 \<or>
     me_logical_len e > me_mapped_len e \<or> me_flags e \<noteq> REQUIRED_ENTRY_FLAGS"

definition add_entry :: "ManifestEntry \<Rightarrow> u64 \<times> u64 \<Rightarrow> (u64 \<times> u64, unit) result" where
  "add_entry e totals =
     (if entry_rejected e then Err ()
      else
        rbind (ok_or () (checked_add (fst totals) (me_logical_len e))) (\<lambda>total_logical.
        rbind (ok_or () (checked_add (snd totals) (me_mapped_len e))) (\<lambda>total_mapped.
          Ok (total_logical, total_mapped))))"

fun adjacent_ids_equal :: "ManifestEntry list \<Rightarrow> bool" where
  "adjacent_ids_equal (a # b # es) \<longleftrightarrow> me_region_id a = me_region_id b \<or> adjacent_ids_equal (b # es)"
| "adjacent_ids_equal _ \<longleftrightarrow> False"

primrec incarnation_repeated :: "ManifestEntry list \<Rightarrow> bool" where
  "incarnation_repeated [] \<longleftrightarrow> False"
| "incarnation_repeated (e # es) \<longleftrightarrow>
     list_ex (\<lambda>right. me_incarnation right = me_incarnation e) es \<or> incarnation_repeated es"

primrec assign_ordinals :: "usize \<Rightarrow> ManifestEntry list \<Rightarrow> (ManifestEntry list, unit) result" where
  "assign_ordinals i [] = Ok []"
| "assign_ordinals i (e # es) =
     rbind (ok_or () (try_from_usize i)) (\<lambda>ordinal.
     rbind (assign_ordinals (Suc i) es) (\<lambda>rest.
       Ok (e\<lparr>me_ordinal := ordinal\<rparr> # rest)))"

text \<open>
  The sort by identity need not be stable: entries with equal identities are rejected right after it.
\<close>

definition new_with_authority ::
    "bytes \<Rightarrow> u32 \<Rightarrow> u32 \<Rightarrow> u64 \<Rightarrow> NativeAuthorityProfile \<Rightarrow> ManifestEntry list \<Rightarrow>
     (TransferManifest, unit) result" where
  "new_with_authority nonce parent_pid child_pid transfer_id authority_profile entries =
     (if nonce = replicate 32 0 \<or> parent_pid = 0 \<or> child_pid = 0 \<or> transfer_id = 0 \<or>
        transfer_id = - 1 \<or> entries = [] \<or> length entries > MAX_TRANSFER_ENTRIES
      then Err ()
      else
        rbind (for_each add_entry entries (0, 0)) (\<lambda>totals.
        let entries = sort_key me_region_id entries in
        if adjacent_ids_equal entries then Err ()
        else if incarnation_repeated entries then Err ()
        else
          rbind (assign_ordinals 0 entries) (\<lambda>entries.
            Ok \<lparr>tm_nonce = nonce, tm_parent_pid = parent_pid, tm_child_pid = child_pid,
                tm_transfer_id = transfer_id, tm_authority_profile = authority_profile,
                tm_total_logical = fst totals, tm_total_mapped = snd totals,
                tm_entries = entries\<rparr>)))"

definition fits_limits :: "TransferManifest \<Rightarrow> SessionLimits \<Rightarrow> bool" where
  "fits_limits m limits \<longleftrightarrow>
     length (tm_entries m) \<le> unat (max_regions_per_batch limits) \<and>
     tm_total_logical m \<le> max_batch_bytes limits \<and> tm_total_mapped m \<le> max_batch_bytes limits \<and>
     list_all (\<lambda>e. me_logical_len e \<le> max_region_bytes limits) (tm_entries m)"

section \<open>Encoding\<close>

definition put_u128 :: "bytes \<Rightarrow> usize \<Rightarrow> u128 \<Rightarrow> (bytes, 'e) result" where
  "put_u128 b off v = copy_from_slice b off (off + 16) (to_le_bytes 16 v)"

definition get_u128 :: "bytes \<Rightarrow> usize \<Rightarrow> (u128, 'e) result" where
  "get_u128 b off = rbind (slice b off (off + 16)) (\<lambda>s. Ok (from_le_bytes s))"

definition encode_entry :: "nat \<times> ManifestEntry \<Rightarrow> bytes \<Rightarrow> (bytes, unit) result" where
  "encode_entry p frame =
     (let start = 96 + fst p * ENTRY_LEN; e = snd p in
      rbind (put_u128 frame start (me_region_id e)) (\<lambda>frame.
      rbind (copy_from_slice frame (start + 16) (start + 32) (me_incarnation e)) (\<lambda>frame.
      rbind (put_u64 frame (start + 32) (me_logical_len e)) (\<lambda>frame.
      rbind (put_u64 frame (start + 40) (me_mapped_len e)) (\<lambda>frame.
      rbind (put_u32 frame (start + 48) (me_writer e)) (\<lambda>frame.
      rbind (put_u32 frame (start + 52) (access_raw (me_access e))) (\<lambda>frame.
      rbind (put_u16 frame (start + 56) (me_ordinal e)) (\<lambda>frame.
        put_u16 frame (start + 58) (me_flags e)))))))))"

definition encode :: "TransferManifest \<Rightarrow> bytes \<Rightarrow> (bytes, unit) result" where
  "encode m magic =
     rbind (copy_from_slice (replicate CONTROL_FRAME_LEN 0) 0 8 magic) (\<lambda>frame.
     rbind (put_u32 frame 8 CONTROL_VERSION) (\<lambda>frame.
     rbind (put_u32 frame 12 (word_of_nat (length (tm_entries m)))) (\<lambda>frame.
     rbind (copy_from_slice frame 16 48 (tm_nonce m)) (\<lambda>frame.
     rbind (put_u32 frame 48 (tm_parent_pid m)) (\<lambda>frame.
     rbind (put_u32 frame 52 (tm_child_pid m)) (\<lambda>frame.
     rbind (put_u64 frame 56 (tm_transfer_id m)) (\<lambda>frame.
     rbind (slice magic 4 8) (\<lambda>kind.
     rbind (put_u32 frame 64 (from_le_bytes kind)) (\<lambda>frame.
     rbind (put_u32 frame 68 MANIFEST_FLAG_CANONICAL) (\<lambda>frame.
     rbind (put_u32 frame 72 (word_of_nat CONTROL_FRAME_LEN)) (\<lambda>frame.
     rbind (put_u32 frame 76 (profile_raw (tm_authority_profile m))) (\<lambda>frame.
     rbind (put_u64 frame 80 (tm_total_logical m)) (\<lambda>frame.
     rbind (put_u64 frame 88 (tm_total_mapped m)) (\<lambda>frame.
       for_each encode_entry (enumerate 0 (tm_entries m)) frame))))))))))))))"

section \<open>Decoding\<close>

definition decode_access :: "u32 \<Rightarrow> (PeerAccess, unit) result" where
  "decode_access v = (if v = 1 then Ok ReadOnly else if v = 2 then Ok SoleWriter else Err ())"

definition decode_profile :: "u32 \<Rightarrow> (NativeAuthorityProfile, unit) result" where
  "decode_profile v =
     (if v = 0 then Ok Legacy else if v = 1 then Ok LinuxMdweV1 else if v = 2 then Ok MacMachV1
      else if v = 3 then Ok WindowsSectionsV1 else Err ())"

definition decode_entry :: "bytes \<Rightarrow> usize \<Rightarrow> (ManifestEntry, unit) result" where
  "decode_entry frame index =
     (let start = 96 + index * ENTRY_LEN in
      rbind (get_u32 frame (start + 52)) (\<lambda>raw.
      rbind (decode_access raw) (\<lambda>access.
      rbind (get_u128 frame start) (\<lambda>region_id.
      rbind (slice frame (start + 16) (start + 32)) (\<lambda>incarnation.
      rbind (get_u64 frame (start + 32)) (\<lambda>logical_len.
      rbind (get_u64 frame (start + 40)) (\<lambda>mapped_len.
      rbind (get_u32 frame (start + 48)) (\<lambda>writer.
      rbind (get_u16 frame (start + 56)) (\<lambda>ordinal.
      rbind (get_u16 frame (start + 58)) (\<lambda>flags.
        Ok \<lparr>me_region_id = region_id, me_incarnation = incarnation, me_writer = writer,
            me_access = access, me_logical_len = logical_len, me_mapped_len = mapped_len,
            me_ordinal = ordinal, me_flags = flags\<rparr>))))))))))"

definition decode :: "bytes \<Rightarrow> bytes \<Rightarrow> (TransferManifest, unit) result" where
  "decode magic frame =
     (if length frame \<noteq> CONTROL_FRAME_LEN then Err ()
      else
        rbind (slice frame 0 8) (\<lambda>prefix.
        if prefix \<noteq> magic then Err ()
        else
          rbind (get_u32 frame 8) (\<lambda>version.
          if version \<noteq> CONTROL_VERSION then Err ()
          else
            rbind (get_u32 frame 12) (\<lambda>raw_count.
            let count = unat raw_count in
            if \<not> (1 \<le> count \<and> count \<le> MAX_TRANSFER_ENTRIES) then Err ()
            else
              rbind (get_u32 frame 76) (\<lambda>raw_profile.
              rbind (decode_profile raw_profile) (\<lambda>authority_profile.
              rbind (for_each (\<lambda>index entries.
                  rbind (decode_entry frame index) (\<lambda>e. Ok (entries @ [e])))
                [0..<count] []) (\<lambda>entries.
              rbind (slice frame 16 48) (\<lambda>nonce.
              rbind (get_u32 frame 48) (\<lambda>parent_pid.
              rbind (get_u32 frame 52) (\<lambda>child_pid.
              rbind (get_u64 frame 56) (\<lambda>transfer_id.
              rbind (new_with_authority nonce parent_pid child_pid transfer_id authority_profile
                entries) (\<lambda>manifest.
              rbind (encode manifest magic) (\<lambda>canonical.
              if canonical = frame then Ok manifest else Err ())))))))))))))"

definition matches_frame :: "TransferManifest \<Rightarrow> bytes \<Rightarrow> bytes \<Rightarrow> (bool, unit) result" where
  "matches_frame m magic frame =
     rbind (encode m magic) (\<lambda>canonical. Ok (length frame = CONTROL_FRAME_LEN \<and> canonical = frame))"

section \<open>Transaction frames\<close>

record CapabilityFrame =
  cf_bytes :: bytes
  cf_capability_count :: usize

datatype PreparationFrameKind = Imported | Sealed
datatype CompletionFrameKind = Ready | Commit
datatype CoordinatorCapacityStatus = CapacityReady | ActiveLimit | PreparationFailed

definition from_manifest :: "TransferManifest \<Rightarrow> (CapabilityFrame, unit) result" where
  "from_manifest m =
     rbind (encode m CAPABILITY_MAGIC) (\<lambda>b.
       Ok \<lparr>cf_bytes = b, cf_capability_count = length (tm_entries m)\<rparr>)"

definition CapabilityFrame_decode :: "bytes \<Rightarrow> (CapabilityFrame \<times> TransferManifest, unit) result" where
  "CapabilityFrame_decode b =
     rbind (decode CAPABILITY_MAGIC b) (\<lambda>m. rbind (from_manifest m) (\<lambda>f. Ok (f, m)))"

definition phase_frame_bytes :: "CapabilityFrame \<Rightarrow> bytes \<Rightarrow> (bytes, unit) result" where
  "phase_frame_bytes f magic =
     rbind (copy_from_slice (cf_bytes f) 0 8 magic) (\<lambda>b.
     rbind (slice magic 4 8) (\<lambda>kind.
       copy_from_slice b 64 68 kind))"

primrec coordinator_capacity_magic :: "CoordinatorCapacityStatus \<Rightarrow> bytes" where
  "coordinator_capacity_magic CapacityReady = COORDINATOR_CAPACITY_READY_MAGIC"
| "coordinator_capacity_magic ActiveLimit = COORDINATOR_CAPACITY_REJECT_MAGIC"
| "coordinator_capacity_magic PreparationFailed = COORDINATOR_PREPARATION_FAILED_MAGIC"

definition coordinator_capacity_frame ::
    "CapabilityFrame \<Rightarrow> CoordinatorCapacityStatus \<Rightarrow> (bytes, unit) result" where
  "coordinator_capacity_frame f status = phase_frame_bytes f (coordinator_capacity_magic status)"

definition receiver_capacity_frame :: "CapabilityFrame \<Rightarrow> bool \<Rightarrow> (bytes, unit) result" where
  "receiver_capacity_frame f ready =
     phase_frame_bytes f
       (if ready then RECEIVER_CAPACITY_READY_MAGIC else RECEIVER_CAPACITY_REJECT_MAGIC)"

definition preparation_frame :: "CapabilityFrame \<Rightarrow> PreparationFrameKind \<Rightarrow> (bytes, unit) result" where
  "preparation_frame f kind =
     phase_frame_bytes f (case kind of Imported \<Rightarrow> IMPORTED_MAGIC | Sealed \<Rightarrow> SEALED_MAGIC)"

definition completion_frame :: "CapabilityFrame \<Rightarrow> CompletionFrameKind \<Rightarrow> (bytes, unit) result" where
  "completion_frame f kind =
     phase_frame_bytes f (case kind of Ready \<Rightarrow> READY_MAGIC | Commit \<Rightarrow> COMMIT_MAGIC)"

fun decode_first ::
    "(bytes \<times> CoordinatorCapacityStatus) list \<Rightarrow> bytes \<Rightarrow>
     (CapabilityFrame \<times> TransferManifest \<times> CoordinatorCapacityStatus, unit) result" where
  "decode_first [] b = Err ()"
| "decode_first ((magic, status) # rest) b =
     (case decode magic b of
        Ok m \<Rightarrow> rbind (from_manifest m) (\<lambda>f. Ok (f, m, status))
      | Panic \<Rightarrow> Panic
      | Err _ \<Rightarrow> decode_first rest b)"

definition decode_coordinator_capacity ::
    "bytes \<Rightarrow> (CapabilityFrame \<times> TransferManifest \<times> CoordinatorCapacityStatus, unit) result" where
  "decode_coordinator_capacity b =
     decode_first
       [(COORDINATOR_CAPACITY_READY_MAGIC, CapacityReady),
        (COORDINATOR_CAPACITY_REJECT_MAGIC, ActiveLimit),
        (COORDINATOR_PREPARATION_FAILED_MAGIC, PreparationFailed)] b"

end
