(* ===== verification/Protocol_Correct.thy ===== *)
theory Protocol_Correct
  imports Protocol "HOL-Library.Multiset"
begin

text \<open>
  Correctness of the transfer manifest: what construction accepts, the canonical bytes, and that the
  decoder accepts exactly the canonical bytes of valid manifests.
\<close>

section \<open>Construction\<close>

lemma add_entry_Ok:
  "add_entry e (a, b) = Ok (a', b') \<longleftrightarrow>
     \<not> entry_rejected e \<and> unat a' = unat a + unat (me_logical_len e) \<and>
     unat b' = unat b + unat (me_mapped_len e)"
proof -
  have "checked_add x y = Some z \<longleftrightarrow> unat z = unat x + unat y" for x y z :: u64
    using unat_lt_pow [of z]
    by (auto simp: checked_add_def word_unat_eq_iff unat_word_ariths)
  then show ?thesis by (auto simp: add_entry_def outcome)
qed

lemma add_entry_Panic: "add_entry e t \<noteq> Panic"
  by (auto simp: add_entry_def outcome)

lemma add_entries_Ok:
  "for_each add_entry es (a, b) = Ok (a', b') \<longleftrightarrow>
     (\<forall>e \<in> set es. \<not> entry_rejected e) \<and>
     unat a' = unat a + sum_list (map (\<lambda>e. unat (me_logical_len e)) es) \<and>
     unat b' = unat b + sum_list (map (\<lambda>e. unat (me_mapped_len e)) es)"
proof (induction es arbitrary: a b)
  case Nil
  then show ?case by (auto simp: word_unat_eq_iff)
next
  case (Cons e es)
  have small: "x < 2 ^ 64 \<Longrightarrow> \<exists>w :: u64. unat w = x" for x
    by (intro exI [of _ "word_of_nat x"]) simp
  show ?case
  proof
    assume "for_each add_entry (e # es) (a, b) = Ok (a', b')"
    then obtain c d where "add_entry e (a, b) = Ok (c, d)" "for_each add_entry es (c, d) = Ok (a', b')"
      by (auto simp: outcome)
    then show "(\<forall>e \<in> set (e # es). \<not> entry_rejected e) \<and>
        unat a' = unat a + sum_list (map (\<lambda>e. unat (me_logical_len e)) (e # es)) \<and>
        unat b' = unat b + sum_list (map (\<lambda>e. unat (me_mapped_len e)) (e # es))"
      by (simp add: Cons.IH add_entry_Ok)
  next
    assume r: "(\<forall>e \<in> set (e # es). \<not> entry_rejected e) \<and>
        unat a' = unat a + sum_list (map (\<lambda>e. unat (me_logical_len e)) (e # es)) \<and>
        unat b' = unat b + sum_list (map (\<lambda>e. unat (me_mapped_len e)) (e # es))"
    obtain c :: u64 where c: "unat c = unat a + unat (me_logical_len e)"
      using small [of "unat a + unat (me_logical_len e)"] r unat_lt_pow [of a'] by auto
    obtain d :: u64 where d: "unat d = unat b + unat (me_mapped_len e)"
      using small [of "unat b + unat (me_mapped_len e)"] r unat_lt_pow [of b'] by auto
    have "add_entry e (a, b) = Ok (c, d)" using r c d by (simp add: add_entry_Ok)
    moreover have "for_each add_entry es (c, d) = Ok (a', b')" using r c d by (simp add: Cons.IH)
    ultimately show "for_each add_entry (e # es) (a, b) = Ok (a', b')" by simp
  qed
qed

lemma adjacent_ids_distinct:
  assumes "sorted (map me_region_id es)"
  shows "adjacent_ids_equal es \<longleftrightarrow> \<not> distinct (map me_region_id es)"
  using assms
proof (induction es rule: adjacent_ids_equal.induct)
  case (1 a b es)
  have "me_region_id a < me_region_id b \<Longrightarrow> me_region_id a \<notin> me_region_id ` set (b # es)"
    using 1(2) by auto
  then show ?case using 1 by (cases "me_region_id a = me_region_id b") (auto simp: order.strict_iff_order)
qed simp_all

lemma incarnation_repeated_iff: "incarnation_repeated es \<longleftrightarrow> \<not> distinct (map me_incarnation es)"
  by (induction es) (simp_all add: list_ex_iff image_iff, metis)

definition with_ordinals :: "nat \<Rightarrow> ManifestEntry list \<Rightarrow> ManifestEntry list" where
  "with_ordinals i es = map (\<lambda>(k, e). e\<lparr>me_ordinal := word_of_nat k\<rparr>) (enumerate i es)"

lemma assign_ordinals_Ok:
  "i + length es \<le> 2 ^ 16 \<Longrightarrow> assign_ordinals i es = Ok (with_ordinals i es)"
  by (induction es arbitrary: i) (simp_all add: with_ordinals_def try_from_usize_def)

lemma with_ordinals_sel [simp]:
  "map me_region_id (with_ordinals i es) = map me_region_id es"
  "map me_incarnation (with_ordinals i es) = map me_incarnation es"
  "map me_logical_len (with_ordinals i es) = map me_logical_len es"
  "map me_mapped_len (with_ordinals i es) = map me_mapped_len es"
  "length (with_ordinals i es) = length es"
  by (induction es arbitrary: i) (simp_all add: with_ordinals_def)

lemma with_ordinals_idem: "with_ordinals i (with_ordinals i es) = with_ordinals i es"
  by (induction es arbitrary: i) (simp_all add: with_ordinals_def)

lemma with_ordinals_rejected:
  "(\<forall>e \<in> set (with_ordinals i es). \<not> entry_rejected e) \<longleftrightarrow> (\<forall>e \<in> set es. \<not> entry_rejected e)"
  by (induction es arbitrary: i) (simp_all add: with_ordinals_def entry_rejected_def)

text \<open>The manifests that construction yields.\<close>

definition manifest_valid :: "TransferManifest \<Rightarrow> bool" where
  "manifest_valid m \<longleftrightarrow>
     tm_nonce m \<noteq> replicate 32 0 \<and> tm_parent_pid m \<noteq> 0 \<and> tm_child_pid m \<noteq> 0 \<and>
     tm_transfer_id m \<noteq> 0 \<and> tm_transfer_id m \<noteq> - 1 \<and>
     tm_entries m \<noteq> [] \<and> length (tm_entries m) \<le> 16 \<and>
     (\<forall>e \<in> set (tm_entries m). \<not> entry_rejected e) \<and>
     sorted (map me_region_id (tm_entries m)) \<and> distinct (map me_region_id (tm_entries m)) \<and>
     distinct (map me_incarnation (tm_entries m)) \<and>
     tm_entries m = with_ordinals 0 (tm_entries m) \<and>
     unat (tm_total_logical m) = sum_list (map (\<lambda>e. unat (me_logical_len e)) (tm_entries m)) \<and>
     unat (tm_total_mapped m) = sum_list (map (\<lambda>e. unat (me_mapped_len e)) (tm_entries m))"

lemma sum_map_sort: "sum_list (map f (sort_key g es)) = (sum_list (map f es) :: nat)"
  by (metis mset_map mset_sort sum_mset_sum_list)

lemma sum_with_ordinals:
  "sum_list (map (\<lambda>e. unat (me_logical_len e)) (with_ordinals i es)) = sum_list (map (\<lambda>e. unat (me_logical_len e)) es)"
  "sum_list (map (\<lambda>e. unat (me_mapped_len e)) (with_ordinals i es)) = sum_list (map (\<lambda>e. unat (me_mapped_len e)) es)"
  by (induction es arbitrary: i) (simp_all add: with_ordinals_def)

lemma new_with_authority_Ok:
  "new_with_authority nonce p c tid profile es = Ok m \<longleftrightarrow>
     manifest_valid m \<and> tm_nonce m = nonce \<and> tm_parent_pid m = p \<and> tm_child_pid m = c \<and>
     tm_transfer_id m = tid \<and> tm_authority_profile m = profile \<and>
     tm_entries m = with_ordinals 0 (sort_key me_region_id es)"
  (is "?L \<longleftrightarrow> ?R")
proof -
  let ?s = "sort_key me_region_id es"
  have rej: "(\<forall>e \<in> set (with_ordinals 0 ?s). \<not> entry_rejected e) \<longleftrightarrow> (\<forall>e \<in> set es. \<not> entry_rejected e)"
    by (simp add: with_ordinals_rejected)
  have rejD: "\<not> entry_rejected e" if "e \<in> set (with_ordinals 0 ?s)" "\<forall>e \<in> set es. \<not> entry_rejected e" for e
    using rej that by blast
  have sums: "sum_list (map (\<lambda>e. unat (me_logical_len e)) (with_ordinals 0 ?s)) =
      sum_list (map (\<lambda>e. unat (me_logical_len e)) es)"
    "sum_list (map (\<lambda>e. unat (me_mapped_len e)) (with_ordinals 0 ?s)) =
      sum_list (map (\<lambda>e. unat (me_mapped_len e)) es)"
    by (simp_all add: sum_with_ordinals sum_map_sort)
  have empty: "with_ordinals 0 ?s = [] \<longleftrightarrow> es = []"
    by (metis length_0_conv with_ordinals_sel(5) length_sort)
  have id: "sorted (map me_region_id (with_ordinals 0 ?s))" by simp
  note facts = adjacent_ids_distinct [of ?s] incarnation_repeated_iff [of ?s] MAX_TRANSFER_ENTRIES_def
    with_ordinals_idem
  show ?thesis
  proof
    assume ?L
    then show ?R
      using assign_ordinals_Ok [of 0 ?s]
      by (auto simp: new_with_authority_def outcome add_entries_Ok facts manifest_valid_def sums empty
          Let_def dest: rejD split: if_splits)
  next
    assume R: ?R
    then have "for_each add_entry es (0, 0) = Ok (tm_total_logical m, tm_total_mapped m)"
      by (auto simp: add_entries_Ok manifest_valid_def rej sums)
    moreover have "length es \<le> 16" "assign_ordinals 0 ?s = Ok (with_ordinals 0 ?s)"
      using R assign_ordinals_Ok [of 0 ?s] by (auto simp: manifest_valid_def)
    ultimately show ?L
      using R by (cases m) (auto simp: new_with_authority_def facts manifest_valid_def empty Let_def)
  qed
qed

lemma new_with_authority_idem:
  assumes "manifest_valid m"
  shows "new_with_authority (tm_nonce m) (tm_parent_pid m) (tm_child_pid m) (tm_transfer_id m)
    (tm_authority_profile m) (tm_entries m) = Ok m"
proof -
  have "sort_key me_region_id (tm_entries m) = tm_entries m"
    using assms by (simp add: manifest_valid_def sort_key_id_if_sorted)
  then show ?thesis
    using assms unfolding new_with_authority_Ok by (simp add: manifest_valid_def)
qed

lemma new_with_authority_Panic: "new_with_authority nonce p c tid profile es \<noteq> Panic"
proof -
  have loop: "for_each add_entry xs t \<noteq> Panic" for xs t
    using add_entry_Panic by (induction xs arbitrary: t) (auto simp: outcome)
  have "assign_ordinals i xs \<noteq> Panic" for i xs
    by (induction xs arbitrary: i) (auto simp: outcome)
  with loop show ?thesis by (simp add: new_with_authority_def outcome Let_def)
qed

section \<open>Canonical bytes\<close>

interpretation u128_field: wire_field 16 "to_le_bytes 16" from_le_bytes put_u128 get_u128
  by unfold_locales
    (simp_all add: put_u128_def get_u128_def copy_from_slice_def slice_def from_to_le_bytes
      to_from_le_bytes)

lemmas [outcome] = u128_field.get_neq_Err u128_field.get_eq_Panic

lemma put_u128_overlay [record_write]:
  "length (concat ps) = i \<Longrightarrow> i + 16 \<le> length b \<Longrightarrow>
     put_u128 (overlay ps b) i v = Ok (overlay (ps @ [to_le_bytes 16 v]) b)"
  by (simp add: put_u128_def copy_from_slice_overlay)

definition entry_fields :: "ManifestEntry \<Rightarrow> bytes list" where
  "entry_fields e =
     [to_le_bytes 16 (me_region_id e), me_incarnation e, to_le_bytes 8 (me_logical_len e),
      to_le_bytes 8 (me_mapped_len e), to_le_bytes 4 (me_writer e),
      to_le_bytes 4 (access_raw (me_access e)), to_le_bytes 2 (me_ordinal e),
      to_le_bytes 2 (me_flags e), replicate 4 0]"

definition manifest_fields :: "bytes \<Rightarrow> TransferManifest \<Rightarrow> bytes list" where
  "manifest_fields magic m =
     [magic, to_le_bytes 4 CONTROL_VERSION, to_le_bytes 4 (word_of_nat (length (tm_entries m)) :: u32),
      tm_nonce m, to_le_bytes 4 (tm_parent_pid m), to_le_bytes 4 (tm_child_pid m),
      to_le_bytes 8 (tm_transfer_id m), drop 4 magic, to_le_bytes 4 MANIFEST_FLAG_CANONICAL,
      to_le_bytes 4 (1120 :: u32), to_le_bytes 4 (profile_raw (tm_authority_profile m)),
      to_le_bytes 8 (tm_total_logical m), to_le_bytes 8 (tm_total_mapped m)]"

definition manifest_bytes :: "bytes \<Rightarrow> TransferManifest \<Rightarrow> bytes" where
  "manifest_bytes magic m =
     overlay (manifest_fields magic m @ concat (map entry_fields (tm_entries m))) (replicate 1120 0)"

text \<open>The array lengths of the source.\<close>

definition manifest_wf :: "TransferManifest \<Rightarrow> bool" where
  "manifest_wf m \<longleftrightarrow>
     length (tm_nonce m) = 32 \<and> (\<forall>e \<in> set (tm_entries m). length (me_incarnation e) = 16)"

lemma length_entry_fields: "length (me_incarnation e) = 16 \<Longrightarrow> length (concat (entry_fields e)) = 64"
  by (simp add: entry_fields_def)

lemma length_entries:
  "\<forall>e \<in> set es. length (me_incarnation e) = 16 \<Longrightarrow>
     length (concat (concat (map entry_fields es))) = 64 * length es"
  by (induction es) (simp_all add: length_entry_fields del: length_concat)

lemma overlay_zero:
  assumes "length (concat ps) + n \<le> N"
  shows "overlay (ps @ [replicate n 0]) (replicate N 0) = overlay ps (replicate N 0)"
proof -
  have "replicate n (0 :: u8) @ replicate (N - (length (concat ps) + n)) 0 =
      replicate (N - length (concat ps)) 0"
    using assms by (simp add: replicate_add [symmetric])
  then show ?thesis by (simp add: overlay_def)
qed

lemma encode_entry_overlay:
  assumes "length (me_incarnation e) = 16" "length (concat ps) = 96 + i * 64" "96 + i * 64 + 64 \<le> 1120"
  shows "encode_entry (i, e) (overlay ps (replicate 1120 0)) =
    Ok (overlay (ps @ entry_fields e) (replicate 1120 0))"
proof -
  let ?f = "take 8 (entry_fields e)"
  have "encode_entry (i, e) (overlay ps (replicate 1120 0)) = Ok (overlay (ps @ ?f) (replicate 1120 0))"
    using assms
    by (simp add: encode_entry_def ENTRY_LEN_def Let_def record_write entry_fields_def)
  moreover have "ps @ entry_fields e = (ps @ ?f) @ [replicate 4 0]" by (simp add: entry_fields_def)
  moreover have "length (concat (ps @ ?f)) + 4 \<le> 1120"
    using assms by (simp add: entry_fields_def)
  ultimately show ?thesis by (simp only: overlay_zero)
qed

lemma encode_entries_overlay:
  assumes "\<forall>e \<in> set es. length (me_incarnation e) = 16"
    "length (concat ps) = 96 + i * 64" "96 + (i + length es) * 64 \<le> 1120"
  shows "for_each encode_entry (enumerate i es) (overlay ps (replicate 1120 0)) =
    Ok (overlay (ps @ concat (map entry_fields es)) (replicate 1120 0))"
  using assms
proof (induction es arbitrary: i ps)
  case (Cons e es)
  have e: "encode_entry (i, e) (overlay ps (replicate 1120 0)) =
      Ok (overlay (ps @ entry_fields e) (replicate 1120 0))"
    using Cons.prems by (intro encode_entry_overlay) simp_all
  have "length (concat (ps @ entry_fields e)) = 96 + Suc i * 64"
    using Cons.prems length_entry_fields [of e] by simp
  from Cons.IH [OF _ this] Cons.prems e show ?case by simp
qed simp

lemma encode_eq:
  assumes "manifest_wf m" "length (tm_entries m) \<le> 16" "length magic = 8"
  shows "encode m magic = Ok (manifest_bytes magic m)"
proof -
  have kind: "(slice magic 4 8 :: (bytes, unit) result) = Ok (drop 4 magic)"
    using assms(3) by (simp add: slice_def read_at_def)
  have raw: "to_le_bytes 4 (from_le_bytes (drop 4 magic) :: u32) = drop 4 magic"
    using assms(3) by (simp add: u32_field.enc_dec)
  have start: "copy_from_slice (replicate 1120 0) 0 8 magic =
      (Ok (overlay [magic] (replicate 1120 0)) :: (bytes, unit) result)"
    using assms(3) copy_from_slice_overlay [of "[]" 0 magic 8 "replicate 1120 0"]
    by (simp add: overlay_start)
  have loop: "for_each encode_entry (enumerate 0 (tm_entries m))
      (overlay (manifest_fields magic m) (replicate 1120 0)) = Ok (manifest_bytes magic m)"
    unfolding manifest_bytes_def
    using assms by (intro encode_entries_overlay) (simp_all add: manifest_wf_def manifest_fields_def)
  show ?thesis
    using assms loop
    by (simp add: encode_def CONTROL_FRAME_LEN_def MAX_TRANSFER_ENTRIES_def ENTRY_LEN_def kind raw start
        record_write manifest_fields_def manifest_wf_def)
qed

lemma length_manifest_bytes:
  assumes "manifest_wf m" "length (tm_entries m) \<le> 16" "length magic = 8"
  shows "length (manifest_bytes magic m) = 1120"
  using assms length_entries [of "tm_entries m"]
  by (simp add: manifest_bytes_def overlay_def manifest_fields_def manifest_wf_def del: length_concat)

section \<open>Decoding\<close>

lemma collect_Ok:
  "for_each (\<lambda>i es. rbind (f i) (\<lambda>e. Ok (es @ [e]))) is acc = Ok r \<longleftrightarrow>
     (\<exists>es. list_all2 (\<lambda>i e. f i = Ok e) is es \<and> r = acc @ es)"
  by (induction "is" arbitrary: acc) (auto simp: outcome list_all2_Cons1)

lemma decode_access_Ok [outcome]: "decode_access v = Ok a \<longleftrightarrow> v = access_raw a"
  by (cases a) (auto simp: decode_access_def)

lemma decode_profile_Ok [outcome]: "decode_profile v = Ok p \<longleftrightarrow> v = profile_raw p"
  by (cases p) (auto simp: decode_profile_def)

lemma decode_raw_Panic [outcome]: "decode_access v \<noteq> Panic" "decode_profile v \<noteq> Panic"
  by (simp_all add: decode_access_def decode_profile_def)

lemmas get_eq = u16_field.get_eq_Ok u32_field.get_eq_Ok u64_field.get_eq_Ok u128_field.get_eq_Ok

lemma decode_entry_Ok:
  assumes "160 + i * 64 \<le> length b"
  shows "decode_entry b i = Ok e \<longleftrightarrow>
    length (me_incarnation e) = 16 \<and>
    pieces b (96 + i * 64) [16, 16, 8, 8, 4, 4, 2, 2] = take 8 (entry_fields e)"
  using assms
  by (cases e)
    (auto simp: decode_entry_def ENTRY_LEN_def entry_fields_def Let_def outcome get_eq slice_def)

lemma manifest_bytes_split:
  assumes "manifest_wf m" "i < length (tm_entries m)" "length magic = 8"
  shows "\<exists>p q. manifest_bytes magic m = p @ concat (entry_fields (tm_entries m ! i)) @ q \<and>
    length p = 96 + i * 64"
proof -
  let ?es = "tm_entries m"
  have s: "?es = take i ?es @ ?es ! i # drop (Suc i) ?es"
    using assms(2) by (simp add: id_take_nth_drop)
  let ?p = "concat (manifest_fields magic m @ concat (map entry_fields (take i ?es)))"
  have "\<forall>e \<in> set (take i ?es). length (me_incarnation e) = 16"
    using assms(1) by (auto simp: manifest_wf_def dest: in_set_takeD)
  from length_entries [OF this] have "length ?p = 96 + i * 64"
    using assms by (simp add: manifest_wf_def manifest_fields_def)
  moreover have "manifest_bytes magic m = ?p @ concat (entry_fields (?es ! i)) @
      concat (concat (map entry_fields (drop (Suc i) ?es))) @
      drop (length (concat (manifest_fields magic m @ concat (map entry_fields ?es)))) (replicate 1120 0)"
    unfolding manifest_bytes_def overlay_def by (subst s) simp
  ultimately show ?thesis by blast
qed

lemma decode_manifest_entry:
  assumes "manifest_wf m" "i < length (tm_entries m)" "length (tm_entries m) \<le> 16" "length magic = 8"
  shows "decode_entry (manifest_bytes magic m) i = Ok (tm_entries m ! i)"
proof -
  let ?e = "tm_entries m ! i"
  have w: "length (me_incarnation ?e) = 16" using assms(1,2) by (simp add: manifest_wf_def)
  obtain p q where b: "manifest_bytes magic m = p @ concat (entry_fields ?e) @ q" "length p = 96 + i * 64"
    using manifest_bytes_split [OF assms(1,2,4)] by blast
  have "pieces (manifest_bytes magic m) (96 + i * 64) (map length (entry_fields ?e)) = entry_fields ?e"
    unfolding b(1) by (rule pieces_concat) (simp add: b(2))
  then have "pieces (manifest_bytes magic m) (96 + i * 64) [16, 16, 8, 8, 4, 4, 2, 2] =
      take 8 (entry_fields ?e)"
    using w by (simp add: entry_fields_def)
  moreover have "160 + i * 64 \<le> length (manifest_bytes magic m)"
    using length_manifest_bytes [OF assms(1,3,4)] assms(2,3) by simp
  ultimately show ?thesis using w by (simp add: decode_entry_Ok)
qed

lemma pieces_manifest_bytes:
  assumes "manifest_wf m" "length magic = 8"
  shows "pieces (manifest_bytes magic m) 0 [8, 4, 4, 32, 4, 4, 8, 4, 4, 4, 4, 8, 8] = manifest_fields magic m"
proof -
  have "manifest_bytes magic m = [] @ concat (manifest_fields magic m) @
      concat (concat (map entry_fields (tm_entries m))) @
      drop (length (concat (manifest_fields magic m @ concat (map entry_fields (tm_entries m)))))
        (replicate 1120 0)"
    by (simp add: manifest_bytes_def overlay_def)
  then have "pieces (manifest_bytes magic m) 0 (map length (manifest_fields magic m)) = manifest_fields magic m"
    using pieces_concat [of 0 "[]" "manifest_fields magic m"] by simp
  then show ?thesis using assms by (simp add: manifest_fields_def manifest_wf_def)
qed

lemma decode_manifest_bytes:
  assumes "manifest_valid m" "manifest_wf m" "length magic = 8"
  shows "decode magic (manifest_bytes magic m) = Ok m"
proof -
  let ?b = "manifest_bytes magic m" and ?n = "length (tm_entries m)"
  have n: "1 \<le> ?n" "?n \<le> 16" using assms(1) by (auto simp: manifest_valid_def Suc_le_eq)
  have len: "length ?b = 1120" by (rule length_manifest_bytes [OF assms(2) n(2) assms(3)])
  have es: "for_each (\<lambda>index entries. rbind (decode_entry ?b index) (\<lambda>e. Ok (entries @ [e])))
      [0..<?n] [] = Ok (tm_entries m)"
    using decode_manifest_entry [OF assms(2) _ n(2) assms(3)]
    by (auto simp: collect_Ok list_all2_conv_all_nth intro!: exI [of _ "tm_entries m"])
  have cnt: "unat (word_of_nat ?n :: u32) = ?n" using n by (simp add: unat_of_nat take_bit_nat_eq_self)
  have new: "new_with_authority (tm_nonce m) (tm_parent_pid m) (tm_child_pid m) (tm_transfer_id m)
      (tm_authority_profile m) (tm_entries m) = Ok m"
    by (rule new_with_authority_idem [OF assms(1)])
  have f: "pieces ?b 0 [8, 4, 4, 32, 4, 4, 8, 4, 4, 4, 4, 8, 8] = manifest_fields magic m"
    by (rule pieces_manifest_bytes [OF assms(2,3)])
  have "(slice ?b 0 8 :: (bytes, unit) result) = Ok magic"
    "(get_u32 ?b 8 :: (u32, unit) result) = Ok CONTROL_VERSION"
    "(get_u32 ?b 12 :: (u32, unit) result) = Ok (word_of_nat ?n)"
    "(slice ?b 16 48 :: (bytes, unit) result) = Ok (tm_nonce m)"
    "(get_u32 ?b 48 :: (u32, unit) result) = Ok (tm_parent_pid m)"
    "(get_u32 ?b 52 :: (u32, unit) result) = Ok (tm_child_pid m)"
    "(get_u64 ?b 56 :: (u64, unit) result) = Ok (tm_transfer_id m)"
    "(get_u32 ?b 76 :: (u32, unit) result) = Ok (profile_raw (tm_authority_profile m))"
    using f len by (simp_all add: manifest_fields_def get_eq slice_def)
  moreover have "decode_profile (profile_raw (tm_authority_profile m)) = Ok (tm_authority_profile m)"
    by (simp add: decode_profile_Ok)
  moreover have "encode m magic = Ok ?b" by (rule encode_eq [OF assms(2) n(2) assms(3)])
  ultimately show ?thesis
    using n by (simp add: decode_def len es cnt new CONTROL_FRAME_LEN_def MAX_TRANSFER_ENTRIES_def ENTRY_LEN_def)
qed

lemma with_ordinals_incarnations:
  assumes "\<forall>e \<in> set es. length (me_incarnation e) = 16"
  shows "\<forall>e \<in> set (with_ordinals i es). length (me_incarnation e) = 16"
proof -
  have "me_incarnation ` set (with_ordinals i es) = me_incarnation ` set es"
    by (metis set_map with_ordinals_sel(2))
  then show ?thesis using assms by (metis imageE imageI)
qed

lemma decoded_entry_incarnation: "decode_entry b i = Ok e \<Longrightarrow> length (me_incarnation e) = 16"
  by (auto simp: decode_entry_def Let_def outcome slice_def split: if_splits)

lemma decoded_manifest_wf:
  assumes d: "for_each (\<lambda>index entries. rbind (decode_entry b index) (\<lambda>e. Ok (entries @ [e]))) [0..<n] [] = Ok es"
    and nonce: "(slice b 16 48 :: (bytes, unit) result) = Ok nonce"
    and new: "new_with_authority nonce p c tid prof es = Ok m"
  shows "manifest_wf m"
proof -
  have inc: "\<forall>e \<in> set (sort_key me_region_id es). length (me_incarnation e) = 16"
  proof -
    have "\<forall>i < length es. decode_entry b i = Ok (es ! i)"
      using d by (auto simp: collect_Ok list_all2_conv_all_nth)
    then show ?thesis by (metis decoded_entry_incarnation in_set_conv_nth set_sort)
  qed
  have "tm_nonce m = nonce" "tm_entries m = with_ordinals 0 (sort_key me_region_id es)"
    using new by (simp_all add: new_with_authority_Ok)
  moreover have "length nonce = 32" using nonce by (auto simp: slice_def split: if_splits)
  ultimately show ?thesis using with_ordinals_incarnations [OF inc] by (simp add: manifest_wf_def)
qed

lemma decode_sound:
  assumes "decode magic b = Ok m" "length magic = 8"
  shows "manifest_valid m \<and> manifest_wf m \<and> b = manifest_bytes magic m"
proof -
  obtain n es nonce p c tid prof where
    d: "for_each (\<lambda>index entries. rbind (decode_entry b index) (\<lambda>e. Ok (entries @ [e]))) [0..<n] [] = Ok es"
    and nonce: "(slice b 16 48 :: (bytes, unit) result) = Ok nonce"
    and new: "new_with_authority nonce p c tid prof es = Ok m"
    and enc: "encode m magic = Ok b"
    using assms(1) by (auto simp: decode_def outcome Let_def split: if_splits)
  have v: "manifest_valid m" using new by (simp add: new_with_authority_Ok)
  have wf: "manifest_wf m" by (rule decoded_manifest_wf [OF d nonce new])
  moreover have "length (tm_entries m) \<le> 16" using v by (simp add: manifest_valid_def)
  ultimately show ?thesis using v enc encode_eq [OF wf _ assms(2)] by simp
qed

lemma decode_Ok:
  "length magic = 8 \<Longrightarrow>
     decode magic b = Ok m \<longleftrightarrow> manifest_valid m \<and> manifest_wf m \<and> b = manifest_bytes magic m"
  using decode_sound decode_manifest_bytes by blast

lemma decode_entry_Panic:
  assumes "160 + i * 64 \<le> length b"
  shows "decode_entry b i \<noteq> Panic"
  using assms by (auto simp: decode_entry_def ENTRY_LEN_def Let_def outcome slice_def)

lemma decode_entries_Panic:
  assumes "\<forall>i \<in> set is. 160 + i * 64 \<le> length b"
  shows "for_each (\<lambda>index entries. rbind (decode_entry b index) (\<lambda>e. Ok (entries @ [e]))) is acc \<noteq> Panic"
  using assms by (induction "is" arbitrary: acc) (auto simp: outcome dest: decode_entry_Panic)

lemma decode_Panic:
  assumes "length magic = 8"
  shows "decode magic b \<noteq> Panic"
proof
  assume a: "decode magic b = Panic"
  have len: "length b = 1120"
    using a by (auto simp: decode_def CONTROL_FRAME_LEN_def MAX_TRANSFER_ENTRIES_def ENTRY_LEN_def split: if_splits)
  have reads: "(slice b 0 8 :: (bytes, unit) result) \<noteq> Panic" "(slice b 16 48 :: (bytes, unit) result) \<noteq> Panic"
    using len by (simp_all add: slice_def)
  have es: "for_each (\<lambda>index entries. rbind (decode_entry b index) (\<lambda>e. Ok (entries @ [e]))) [0..<n] [] \<noteq> Panic"
    if "n \<le> 16" for n
    using that len by (intro decode_entries_Panic) auto
  have enc: "encode m magic \<noteq> Panic"
    if "for_each (\<lambda>index entries. rbind (decode_entry b index) (\<lambda>e. Ok (entries @ [e]))) [0..<n] [] = Ok es"
      "(slice b 16 48 :: (bytes, unit) result) = Ok nonce" "new_with_authority nonce p c tid prof es = Ok m"
    for n es nonce p c tid prof m
  proof -
    have "manifest_wf m \<and> length (tm_entries m) \<le> 16"
      using decoded_manifest_wf [OF that] that(3) unfolding new_with_authority_Ok manifest_valid_def by blast
    then show ?thesis using encode_eq [OF _ _ assms] by simp
  qed
  show False
    using a len reads es enc new_with_authority_Panic decode_raw_Panic
    by (auto simp: decode_def outcome Let_def MAX_TRANSFER_ENTRIES_def split: if_splits)
qed

section \<open>Phase frames\<close>

lemma manifest_bytes_frame:
  assumes "length magic = 8" "length magic' = 8" "length (tm_nonce m) = 32"
  shows "\<exists>mid tail. length mid = 56 \<and> manifest_bytes magic m = magic @ mid @ drop 4 magic @ tail \<and>
    manifest_bytes magic' m = magic' @ mid @ drop 4 magic' @ tail"
  by (rule exI [of _ "concat (drop 1 (take 7 (manifest_fields magic m)))"],
      rule exI [of _ "concat (drop 8 (manifest_fields magic m)) @
        concat (concat (map entry_fields (tm_entries m))) @
        drop (96 + length (concat (concat (map entry_fields (tm_entries m))))) (replicate 1120 0)"])
    (use assms in \<open>simp add: manifest_bytes_def manifest_fields_def overlay_def add.commute\<close>)

lemma phase_frame_bytes_eq:
  assumes "length magic = 8" "length magic' = 8" "length (tm_nonce m) = 32" "cf_bytes f = manifest_bytes magic m"
  shows "phase_frame_bytes f magic' = Ok (manifest_bytes magic' m)"
proof -
  obtain mid tail where s: "length mid = 56" "manifest_bytes magic m = magic @ mid @ drop 4 magic @ tail"
    "manifest_bytes magic' m = magic' @ mid @ drop 4 magic' @ tail"
    using manifest_bytes_frame [OF assms(1-3)] by blast
  have "write_at (magic @ mid @ drop 4 magic @ tail) 0 magic' = magic' @ mid @ drop 4 magic @ tail"
    using assms by (simp add: write_at_def)
  moreover have "write_at (magic' @ mid @ drop 4 magic @ tail) 64 (drop 4 magic') =
      magic' @ mid @ drop 4 magic' @ tail"
    using assms s(1) by (simp add: write_at_def)
  ultimately show ?thesis
    using assms s by (simp add: phase_frame_bytes_def copy_from_slice_def slice_def read_at_def)
qed

definition phase_magics :: "bytes list" where
  "phase_magics =
     [CAPABILITY_MAGIC, COORDINATOR_CAPACITY_READY_MAGIC, COORDINATOR_CAPACITY_REJECT_MAGIC,
      COORDINATOR_PREPARATION_FAILED_MAGIC, RECEIVER_CAPACITY_READY_MAGIC,
      RECEIVER_CAPACITY_REJECT_MAGIC, IMPORTED_MAGIC, SEALED_MAGIC, READY_MAGIC, COMMIT_MAGIC]"

lemma length_phase_magic: "magic \<in> set phase_magics \<Longrightarrow> length magic = 8"
  by (auto simp: phase_magics_def magic_defs)

lemma length_CAPABILITY_MAGIC [simp]: "length CAPABILITY_MAGIC = 8"
  by (simp add: magic_defs)

lemma from_manifest_eq:
  assumes "manifest_valid m" "manifest_wf m"
  shows "from_manifest m =
    Ok \<lparr>cf_bytes = manifest_bytes CAPABILITY_MAGIC m, cf_capability_count = length (tm_entries m)\<rparr>"
  using assms encode_eq [of m CAPABILITY_MAGIC] by (simp add: from_manifest_def manifest_valid_def)

lemma phase_frame_of_manifest:
  assumes "manifest_valid m" "manifest_wf m" "from_manifest m = Ok f" "length magic = 8"
  shows "phase_frame_bytes f magic = Ok (manifest_bytes magic m)"
  using assms from_manifest_eq [OF assms(1,2)]
  by (intro phase_frame_bytes_eq [of CAPABILITY_MAGIC]) (auto simp: manifest_wf_def)

lemma decode_manifest_other_magic:
  assumes "manifest_wf m" "length magic = 8" "length magic' = 8" "magic' \<noteq> magic"
  shows "decode magic' (manifest_bytes magic m) = Err ()"
proof -
  have t: "take 8 (manifest_bytes g x) = g" if "length g = 8" for g x
    using that by (simp add: manifest_bytes_def manifest_fields_def overlay_def)
  have "decode magic' (manifest_bytes magic m) \<noteq> Ok m'" for m'
    using t [OF assms(2), of m] t [OF assms(3), of m'] assms(4) unfolding decode_Ok [OF assms(3)] by metis
  then show ?thesis
    using decode_Panic [OF assms(3)] by (cases "decode magic' (manifest_bytes magic m)") auto
qed

lemma decode_manifest_under:
  assumes "manifest_valid m" "manifest_wf m" "length magic = 8" "length magic' = 8"
  shows "decode magic' (manifest_bytes magic m) = (if magic' = magic then Ok m else Err ())"
  using assms decode_manifest_bytes decode_manifest_other_magic by simp

lemma sort_key_permute:
  assumes "mset es = mset es'" "distinct (map f es)"
  shows "sort_key f es = sort_key f (es' :: 'a list)"
proof (rule map_sorted_distinct_set_unique [where f = f])
  have set: "set es' = set es" using assms(1) by (metis set_mset_mset)
  have d: "distinct (map f (sort_key f xs))" if "mset xs = mset es" for xs
  proof -
    have "mset (map f (sort_key f xs)) = mset (map f es)" using that by simp
    then show ?thesis using assms(2) mset_eq_imp_distinct_iff by blast
  qed
  show "inj_on f (set (sort_key f es) \<union> set (sort_key f es'))"
    using assms(2) set by (simp add: distinct_map)
  show "distinct (map f (sort_key f es))" "distinct (map f (sort_key f es'))"
    using d assms(1) by simp_all
  show "set (sort_key f es) = set (sort_key f es')" using set by simp
qed simp_all

lemma new_with_authority_permute:
  assumes "mset es = mset es'" "new_with_authority nonce p c tid profile es = Ok m"
  shows "new_with_authority nonce p c tid profile es' = Ok m"
proof -
  have m: "manifest_valid m" "tm_entries m = with_ordinals 0 (sort_key me_region_id es)"
    using assms(2) by (simp_all add: new_with_authority_Ok)
  have "distinct (map me_region_id (tm_entries m))" using m(1) by (simp add: manifest_valid_def)
  then have "distinct (map me_region_id (sort_key me_region_id es))" by (simp add: m(2))
  moreover have "mset (map me_region_id (sort_key me_region_id es)) = mset (map me_region_id es)" by simp
  ultimately have "distinct (map me_region_id es)" using mset_eq_imp_distinct_iff by blast
  from sort_key_permute [OF assms(1) this] show ?thesis
    using assms(2) by (simp add: new_with_authority_Ok)
qed

section \<open>Properties\<close>

definition example_manifest :: TransferManifest where
  "example_manifest =
     \<lparr>tm_nonce = replicate 32 7, tm_parent_pid = 10, tm_child_pid = 11, tm_transfer_id = 1,
      tm_authority_profile = LinuxMdweV1, tm_total_logical = 164, tm_total_mapped = 8192,
      tm_entries =
        [\<lparr>me_region_id = 3, me_incarnation = replicate 16 1, me_writer = 0, me_access = ReadOnly,
          me_logical_len = 64, me_mapped_len = 4096, me_ordinal = 0, me_flags = 3\<rparr>,
         \<lparr>me_region_id = 5, me_incarnation = replicate 16 2, me_writer = 1, me_access = SoleWriter,
          me_logical_len = 100, me_mapped_len = 4096, me_ordinal = 1, me_flags = 3\<rparr>]\<rparr>"

lemma example_manifest_valid: "manifest_valid example_manifest" "manifest_wf example_manifest"
  by (simp_all add: manifest_valid_def manifest_wf_def example_manifest_def with_ordinals_def
      entry_rejected_def REQUIRED_ENTRY_FLAGS_def)

text \<open>C30: Decoding a capability frame never panics, whatever the bytes, and accepts exactly the canonical
  1120 bytes of a valid manifest (nonzero identities and transfer, one to sixteen entries with
  distinct ascending region identities, distinct incarnations, ordinals in order, required flags and
  exact overflow-free totals).  The decoded frame is that byte string again with as many
  capabilities as entries.
\<close>

theorem capability_decode_exact:
  "CapabilityFrame_decode b \<noteq> Panic \<and>
   (CapabilityFrame_decode b = Ok (f, m) \<longleftrightarrow>
      manifest_valid m \<and> manifest_wf m \<and> b = manifest_bytes CAPABILITY_MAGIC m \<and>
      f = \<lparr>cf_bytes = b, cf_capability_count = length (tm_entries m)\<rparr>)"
  using decode_Panic [of CAPABILITY_MAGIC b]
  by (auto simp: CapabilityFrame_decode_def outcome decode_Ok from_manifest_eq)

text \<open>C12: A phase frame made by patching the capability frame of a manifest is the manifest encoded from
  scratch under the phase's magic, and of the ten frame kinds the decoder accepts it as that kind
  only: a frame of one phase cannot be replayed as another.
\<close>

theorem phase_frames_separated:
  assumes "manifest_valid m" "manifest_wf m" "from_manifest m = Ok f"
    "magic \<in> set phase_magics" "magic' \<in> set phase_magics"
  shows "\<exists>b. phase_frame_bytes f magic = Ok b \<and> encode m magic = Ok b \<and>
    decode magic' b = (if magic' = magic then Ok m else Err ())"
proof -
  note l = length_phase_magic [OF assms(4)] length_phase_magic [OF assms(5)]
  have "encode m magic = Ok (manifest_bytes magic m)"
    using encode_eq [OF assms(2) _ l(1)] assms(1) by (simp add: manifest_valid_def)
  then show ?thesis
    using phase_frame_of_manifest [OF assms(1-3) l(1)] decode_manifest_under [OF assms(1,2) l] by simp
qed

theorem phase_frames_separated_witness:
  "\<exists>f b. from_manifest example_manifest = Ok f \<and> phase_frame_bytes f READY_MAGIC = Ok b \<and>
    encode example_manifest READY_MAGIC = Ok b \<and> decode COMMIT_MAGIC b = Err ()"
  using phase_frames_separated [OF example_manifest_valid from_manifest_eq [OF example_manifest_valid],
      of READY_MAGIC COMMIT_MAGIC] from_manifest_eq [OF example_manifest_valid]
  by (auto simp: phase_magics_def magic_defs)

text \<open>The receiver of a coordinator capacity frame recovers exactly the manifest, its capability
  frame and the status that was sent, for each of the three statuses.
\<close>

theorem coordinator_capacity_roundtrip:
  assumes "manifest_valid m" "manifest_wf m" "from_manifest m = Ok f"
  shows "\<exists>b. coordinator_capacity_frame f status = Ok b \<and> decode_coordinator_capacity b = Ok (f, m, status)"
proof -
  have l: "length (coordinator_capacity_magic s) = 8" for s by (cases s) (simp_all add: magic_defs)
  have m8: "length COORDINATOR_CAPACITY_READY_MAGIC = 8" "length COORDINATOR_CAPACITY_REJECT_MAGIC = 8"
    "length COORDINATOR_PREPARATION_FAILED_MAGIC = 8" by (simp_all add: magic_defs)
  have ne: "COORDINATOR_CAPACITY_READY_MAGIC \<noteq> COORDINATOR_CAPACITY_REJECT_MAGIC"
    "COORDINATOR_CAPACITY_READY_MAGIC \<noteq> COORDINATOR_PREPARATION_FAILED_MAGIC"
    "COORDINATOR_CAPACITY_REJECT_MAGIC \<noteq> COORDINATOR_PREPARATION_FAILED_MAGIC"
    by (simp_all add: magic_defs)
  have "decode_coordinator_capacity (manifest_bytes (coordinator_capacity_magic status) m) = Ok (f, m, status)"
    using ne ne [symmetric] assms
    by (cases status)
      (simp_all add: decode_coordinator_capacity_def decode_manifest_under [OF assms(1,2)] m8)
  then show ?thesis
    using phase_frame_of_manifest [OF assms l] by (simp add: coordinator_capacity_frame_def)
qed

theorem coordinator_capacity_roundtrip_witness:
  "\<exists>f b. from_manifest example_manifest = Ok f \<and> coordinator_capacity_frame f ActiveLimit = Ok b \<and>
    decode_coordinator_capacity b = Ok (f, example_manifest, ActiveLimit)"
  using coordinator_capacity_roundtrip [OF example_manifest_valid from_manifest_eq [OF example_manifest_valid]]
    from_manifest_eq [OF example_manifest_valid]
  by blast

text \<open>The manifest, or the rejection, does not depend on the order in which the regions are listed:
  both endpoints may list the same regions in different orders.
\<close>

theorem manifest_order_independent:
  assumes "mset es = mset es'"
  shows "new_with_authority nonce p c tid profile es = new_with_authority nonce p c tid profile es'"
proof -
  let ?r = "new_with_authority nonce p c tid profile es"
  let ?r' = "new_with_authority nonce p c tid profile es'"
  have same: "?r = Ok m \<longleftrightarrow> ?r' = Ok m" for m
    using new_with_authority_permute [OF assms] new_with_authority_permute [OF assms [symmetric]] by blast
  show ?thesis
  proof (cases ?r)
    case (Ok m)
    then show ?thesis using same [of m] by simp
  next
    case (Err u)
    then have "\<nexists>m. ?r' = Ok m" using same by simp
    moreover have "?r' \<noteq> Panic" by (rule new_with_authority_Panic)
    ultimately show ?thesis using Err by (cases ?r') simp_all
  qed (simp add: new_with_authority_Panic)
qed

theorem manifest_order_independent_witness:
  "new_with_authority (replicate 32 7) 10 11 1 LinuxMdweV1 (tm_entries example_manifest) =
   new_with_authority (replicate 32 7) 10 11 1 LinuxMdweV1 (rev (tm_entries example_manifest)) \<and>
   rev (tm_entries example_manifest) \<noteq> tm_entries example_manifest"
  using manifest_order_independent [of "tm_entries example_manifest" "rev (tm_entries example_manifest)"]
  by (simp add: example_manifest_def)

end
