(* ===== verification/Reaper.thy ===== *)
theory Reaper
  imports Ipc_Prelude
begin

text \<open>
  Ownership of a detached child reaper, \<^verbatim>\<open>native-ipc/src/backend/reaper_ownership.rs\<close>: external
  owners on several threads share a count and a termination latch.  A release is two atomic accesses,
  the subtraction and the store of the latch, which other owners may separate.
\<close>

section \<open>Definitions\<close>

record ReaperOwnershipState =
  external_owners :: usize
  terminate :: bool

text \<open>
  An owner handle: active, inactive after a subtraction from one and before the store of the latch,
  or released with the value that \<^verbatim>\<open>release\<close> returns.
\<close>

datatype Handle = Active | Latching | Released bool

record ReaperSystem =
  rs_shared :: ReaperOwnershipState
  rs_handles :: "Handle list"
  rs_requested :: bool

definition ReaperOwnership_new :: ReaperSystem where
  "ReaperOwnership_new =
     \<lparr>rs_shared = \<lparr>external_owners = 1, terminate = False\<rparr>, rs_handles = [Active], rs_requested = False\<rparr>"

text \<open>\<open>rs_requested\<close> records that a termination handle asked for termination.\<close>

definition request :: "ReaperSystem \<Rightarrow> ReaperSystem" where
  "request s = s\<lparr>rs_shared := (rs_shared s)\<lparr>terminate := True\<rparr>, rs_requested := True\<rparr>"

definition requested :: "ReaperSystem \<Rightarrow> bool" where
  "requested s = terminate (rs_shared s)"

definition release_count :: "nat \<Rightarrow> ReaperSystem \<Rightarrow> (ReaperSystem, unit) result" where
  "release_count i s =
     (if rs_handles s ! i \<noteq> Active then Ok s
      else if external_owners (rs_shared s) = 0 then Panic
      else
        let previous = external_owners (rs_shared s) in
        Ok (s\<lparr>rs_shared := (rs_shared s)\<lparr>external_owners := previous - 1\<rparr>,
              rs_handles := (rs_handles s)[i := if previous = 1 then Latching else Released False]\<rparr>))"

definition release_latch :: "nat \<Rightarrow> ReaperSystem \<Rightarrow> ReaperSystem" where
  "release_latch i s =
     (if rs_handles s ! i = Latching
      then s\<lparr>rs_shared := (rs_shared s)\<lparr>terminate := True\<rparr>, rs_handles := (rs_handles s)[i := Released True]\<rparr>
      else s)"

definition clone :: "nat \<Rightarrow> ReaperSystem \<Rightarrow> (ReaperSystem, unit) result" where
  "clone i s =
     (if rs_handles s ! i \<noteq> Active then Panic
      else
        case checked_add_usize (external_owners (rs_shared s)) 1 of
          None \<Rightarrow> Panic
        | Some n \<Rightarrow>
            Ok (s\<lparr>rs_shared := (rs_shared s)\<lparr>external_owners := n\<rparr>, rs_handles := rs_handles s @ [Active]\<rparr>))"

text \<open>One owner's release run without interruption, as \<^verbatim>\<open>drop\<close> and \<^verbatim>\<open>release\<close> do.\<close>

definition release :: "nat \<Rightarrow> ReaperSystem \<Rightarrow> (ReaperSystem \<times> bool, unit) result" where
  "release i s =
     (if rs_handles s ! i \<noteq> Active then Ok (s, False)
      else
        rbind (release_count i s) (\<lambda>s.
          let s = release_latch i s in Ok (s, rs_handles s ! i = Released True)))"

section \<open>Interleaved owners\<close>

text \<open>
  Clones need an owner that the type system still lets be used, so they start from an active handle;
  they stop at the counter's range.
\<close>

inductive reaper_run :: "ReaperSystem \<Rightarrow> bool" where
  new: "reaper_run ReaperOwnership_new"
| clone: "reaper_run s \<Longrightarrow> i < length (rs_handles s) \<Longrightarrow> rs_handles s ! i = Active \<Longrightarrow>
    clone i s = Ok s' \<Longrightarrow> reaper_run s'"
| release_count: "reaper_run s \<Longrightarrow> i < length (rs_handles s) \<Longrightarrow> release_count i s = Ok s' \<Longrightarrow> reaper_run s'"
| release_latch: "reaper_run s \<Longrightarrow> i < length (rs_handles s) \<Longrightarrow> reaper_run (release_latch i s)"
| request: "reaper_run s \<Longrightarrow> reaper_run (request s)"

definition owners :: "ReaperSystem \<Rightarrow> nat" where
  "owners s = count_list (rs_handles s) Active"

text \<open>The owner that took the count to zero, before or after it stores the latch.\<close>

definition last_owners :: "ReaperSystem \<Rightarrow> nat" where
  "last_owners s = count_list (rs_handles s) Latching + count_list (rs_handles s) (Released True)"

definition reaper_inv :: "ReaperSystem \<Rightarrow> bool" where
  "reaper_inv s \<longleftrightarrow>
     external_owners (rs_shared s) = owners s \<and>
     last_owners s = (if owners s = 0 then 1 else 0) \<and>
     (terminate (rs_shared s) \<longleftrightarrow> rs_requested s \<or> Released True \<in> set (rs_handles s))"

lemma count_list_update:
  assumes "i < length xs"
  shows "count_list (xs[i := y]) x + (if xs ! i = x then 1 else 0) = count_list xs x + (if y = x then 1 else 0)"
proof -
  have "count_list xs x = count_list (take i xs @ xs ! i # drop (Suc i) xs) x"
    using assms by (simp add: id_take_nth_drop [symmetric])
  then show ?thesis using assms by (simp add: upd_conv_take_nth_drop)
qed

lemma mem_update:
  assumes "i < length xs" "xs ! i \<noteq> x"
  shows "x \<in> set (xs[i := y]) \<longleftrightarrow> x \<in> set xs \<or> x = y"
proof -
  have "set xs = set (take i xs @ xs ! i # drop (Suc i) xs)"
    using assms(1) by (simp add: id_take_nth_drop [symmetric])
  then show ?thesis using assms by (auto simp: upd_conv_take_nth_drop)
qed

lemma owners_pos: "i < length (rs_handles s) \<Longrightarrow> rs_handles s ! i = Active \<Longrightarrow> 0 < owners s"
  by (simp add: owners_def count_list_0_iff [symmetric] nth_mem)
    (metis count_list_0_iff gr0I nth_mem)

lemma reaper_inv_release_count:
  assumes "reaper_inv s" "i < length (rs_handles s)" "release_count i s = Ok s'"
  shows "reaper_inv s'"
proof (cases "rs_handles s ! i = Active")
  case True
  let ?h = "if external_owners (rs_shared s) = 1 then Latching else Released False"
  have u: "count_list ((rs_handles s)[i := ?h]) x + (if Active = x then 1 else 0) =
      count_list (rs_handles s) x + (if ?h = x then 1 else 0)" for x
    using count_list_update [OF assms(2), of ?h x] True by simp
  have m: "Released True \<in> set ((rs_handles s)[i := ?h]) \<longleftrightarrow> Released True \<in> set (rs_handles s)"
    using mem_update [OF assms(2), of "Released True" ?h] True by auto
  show ?thesis
    using assms True u [of Active] u [of Latching] u [of "Released True"] m owners_pos [OF assms(2) True]
    by (auto simp: release_count_def Let_def reaper_inv_def owners_def last_owners_def split: if_splits)
qed (use assms in \<open>simp add: release_count_def\<close>)

lemma reaper_inv_release_latch:
  assumes "reaper_inv s" "i < length (rs_handles s)"
  shows "reaper_inv (release_latch i s)"
proof (cases "rs_handles s ! i = Latching")
  case True
  have u: "count_list ((rs_handles s)[i := Released True]) x + (if Latching = x then 1 else 0) =
      count_list (rs_handles s) x + (if Released True = x then 1 else 0)" for x
    using count_list_update [OF assms(2), of "Released True" x] True by simp
  have "Released True \<in> set ((rs_handles s)[i := Released True])" using assms(2) by (simp add: set_update_memI)
  then show ?thesis
    using assms True u [of Active] u [of Latching] u [of "Released True"]
    by (auto simp: release_latch_def reaper_inv_def owners_def last_owners_def)
qed (use assms in \<open>simp add: release_latch_def\<close>)

lemma reaper_run_inv: "reaper_run s \<Longrightarrow> reaper_inv s"
proof (induction rule: reaper_run.induct)
  case new
  then show ?case
    by (simp add: reaper_inv_def owners_def last_owners_def ReaperOwnership_new_def)
next
  case (clone s i s')
  then show ?case
    using owners_pos [of i s]
    by (auto simp: clone_def outcome reaper_inv_def owners_def last_owners_def split: option.splits)
next
  case (release_count s i s')
  then show ?case using reaper_inv_release_count by blast
next
  case (release_latch s i)
  then show ?case using reaper_inv_release_latch by blast
next
  case (request s)
  then show ?case by (simp add: request_def reaper_inv_def owners_def last_owners_def)
qed

lemma count_list_all_released:
  assumes "\<forall>h \<in> set hs. \<exists>b. h = Released b"
  shows "count_list hs Active = 0" "count_list hs Latching = 0"
  using assms by (auto simp: count_list_0_iff)

section \<open>Properties\<close>

text \<open>C14: However clones and releases of any number of owners interleave, the count is the number of
  active owners and no release underflows it.  Termination without an explicit request happens only
  after the last active owner is gone; at most one owner reports that it latched termination, and
  once every owner has finished releasing exactly one did and the worker is told to terminate.\<close>

theorem last_owner_latches_termination:
  assumes "reaper_run s"
  shows "external_owners (rs_shared s) = owners s \<and>
    (\<forall>i < length (rs_handles s). release_count i s \<noteq> Panic) \<and>
    (requested s \<and> \<not> rs_requested s \<longrightarrow> owners s = 0) \<and>
    count_list (rs_handles s) (Released True) \<le> 1 \<and>
    ((\<forall>h \<in> set (rs_handles s). \<exists>b. h = Released b) \<longrightarrow>
       count_list (rs_handles s) (Released True) = 1 \<and> requested s)"
proof -
  note inv = reaper_run_inv [OF assms, unfolded reaper_inv_def]
  have "release_count i s \<noteq> Panic" if "i < length (rs_handles s)" for i
    using inv owners_pos [OF that] by (auto simp: release_count_def Let_def)
  moreover have "owners s = 0" if "requested s" "\<not> rs_requested s"
  proof -
    have "Released True \<in> set (rs_handles s)" using that inv by (simp add: requested_def)
    then have "count_list (rs_handles s) (Released True) \<noteq> 0" by (simp add: count_list_0_iff)
    then show ?thesis using inv by (simp add: last_owners_def split: if_splits)
  qed
  moreover have "count_list (rs_handles s) (Released True) \<le> 1"
    using inv by (simp add: last_owners_def split: if_splits)
  moreover have "count_list (rs_handles s) (Released True) = 1 \<and> requested s"
    if "\<forall>h \<in> set (rs_handles s). \<exists>b. h = Released b"
  proof -
    have c: "count_list (rs_handles s) (Released True) = 1"
      using inv count_list_all_released [OF that] by (simp add: owners_def last_owners_def)
    then have "Released True \<in> set (rs_handles s)" by (metis count_list_0_iff zero_neq_one)
    with c inv show ?thesis by (simp add: requested_def)
  qed
  ultimately show ?thesis using inv by blast
qed

theorem last_owner_latches_termination_witness:
  "\<exists>s. reaper_run s \<and> rs_handles s = [Released False, Released True] \<and> requested s"
proof -
  let ?a = "ReaperOwnership_new\<lparr>rs_shared := \<lparr>external_owners = 2, terminate = False\<rparr>, rs_handles := [Active, Active]\<rparr>"
  let ?b = "?a\<lparr>rs_shared := \<lparr>external_owners = 1, terminate = False\<rparr>, rs_handles := [Released False, Active]\<rparr>"
  let ?c = "?b\<lparr>rs_shared := \<lparr>external_owners = 0, terminate = False\<rparr>, rs_handles := [Released False, Latching]\<rparr>"
  have a: "reaper_run ?a"
    by (rule reaper_run.clone [OF reaper_run.new, of 0])
      (simp_all add: ReaperOwnership_new_def clone_def checked_add_usize_def usize_max_def)
  have b: "reaper_run ?b"
    by (rule reaper_run.release_count [OF a, of 0]) (simp_all add: release_count_def)
  have c: "reaper_run ?c"
    by (rule reaper_run.release_count [OF b, of 1]) (simp_all add: release_count_def)
  let ?d = "release_latch 1 ?c"
  have d: "reaper_run ?d" by (rule reaper_run.release_latch [OF c]) simp
  have h: "rs_handles ?d = [Released False, Released True]" by (simp add: release_latch_def)
  have "\<forall>h \<in> set (rs_handles ?d). \<exists>b. h = Released b" unfolding h by auto
  then have "requested ?d" using last_owner_latches_termination [OF d] by blast
  with d h show ?thesis by blast
qed

end
