(* ===== verification/Memory.thy ===== *)
theory Memory
  imports Protocol
begin

text \<open>
  Private shared-memory regions before transfer, \<^verbatim>\<open>native-ipc/src/memory.rs\<close>, with the portable part
  of the Linux allocation, \<^verbatim>\<open>backend/linux.rs\<close>.  The native object of a region is the bytes of its
  mapping.  The system calls that create it are a parameter that says whether they succeed; the
  random incarnation is a parameter too.  Operations that give a mapping back return its last
  contents.
\<close>

unbundle bit_operations_syntax

section \<open>Policies\<close>

datatype WriterOwner = Creator | Peer

primrec writer_raw :: "WriterOwner \<Rightarrow> u32" where
  "writer_raw Creator = 0"
| "writer_raw Peer = 1"

datatype MemoryAccess = MemoryReadOnly | MemoryReadWrite

record PermissionPlan =
  pp_writer :: WriterOwner

definition creator_access :: "PermissionPlan \<Rightarrow> MemoryAccess" where
  "creator_access p = (case pp_writer p of Creator \<Rightarrow> MemoryReadWrite | Peer \<Rightarrow> MemoryReadOnly)"

definition peer_access :: "PermissionPlan \<Rightarrow> MemoryAccess" where
  "peer_access p = (case pp_writer p of Creator \<Rightarrow> MemoryReadOnly | Peer \<Rightarrow> MemoryReadWrite)"

datatype GrowthPolicy = Fixed | ReplaceBeforeShare usize
datatype CleanupPolicy = ReleaseOnDrop | ClearThenRelease
datatype SealPolicy = RequiredOnShare

record RegionOptions =
  ro_logical_len :: usize
  ro_growth :: GrowthPolicy
  ro_cleanup :: CleanupPolicy
  ro_permissions :: PermissionPlan
  ro_seal :: SealPolicy

definition fixed :: "usize \<Rightarrow> WriterOwner \<Rightarrow> RegionOptions" where
  "fixed logical_len writer =
     \<lparr>ro_logical_len = logical_len, ro_growth = Fixed, ro_cleanup = ClearThenRelease,
      ro_permissions = \<lparr>pp_writer = writer\<rparr>, ro_seal = RequiredOnShare\<rparr>"

definition growable :: "usize \<Rightarrow> usize \<Rightarrow> WriterOwner \<Rightarrow> RegionOptions" where
  "growable logical_len maximum_len writer =
     \<lparr>ro_logical_len = logical_len, ro_growth = ReplaceBeforeShare maximum_len,
      ro_cleanup = ClearThenRelease, ro_permissions = \<lparr>pp_writer = writer\<rparr>, ro_seal = RequiredOnShare\<rparr>"

definition with_cleanup :: "RegionOptions \<Rightarrow> CleanupPolicy \<Rightarrow> RegionOptions" where
  "with_cleanup options cleanup = options\<lparr>ro_cleanup := cleanup\<rparr>"

definition maximum_len :: "RegionOptions \<Rightarrow> usize" where
  "maximum_len options =
     (case ro_growth options of Fixed \<Rightarrow> ro_logical_len options | ReplaceBeforeShare n \<Rightarrow> n)"

datatype MemoryError =
    ZeroLength
  | MaximumBelowInitial usize usize
  | FixedSize
  | ShrinkUnsupported usize usize
  | MaximumExceeded usize usize
  | Platform
  | RandomnessUnavailable

definition validate_options :: "RegionOptions \<Rightarrow> (unit, MemoryError) result" where
  "validate_options options =
     (if ro_logical_len options = 0 then Err ZeroLength
      else if maximum_len options < ro_logical_len options
      then Err (MaximumBelowInitial (ro_logical_len options) (maximum_len options))
      else Ok ())"

section \<open>The Linux mapping\<close>

text \<open>
  \<^verbatim>\<open>sysconf\<close> gives the page size, or no positive number when it fails; \<open>isize::MAX\<close> bounds the
  length.  \<open>native n\<close> says whether the system calls succeed for a mapping of \<open>n\<close> bytes.
\<close>

definition page_align :: "int \<Rightarrow> usize \<Rightarrow> (usize, MemoryError) result" where
  "page_align page_size requested =
     (if requested = 0 then Err Platform
      else if page_size \<le> 0 then Err Platform
      else
        let page = nat page_size in
        case checked_add_usize requested (page - 1) of
          None \<Rightarrow> Err Platform
        | Some v \<Rightarrow>
            let v = unat ((word_of_nat v :: u64) AND NOT (word_of_nat (page - 1))) in
            if v \<le> 2 ^ 63 - 1 then Ok v else Err Platform)"

definition QuiescentRegion_new :: "int \<Rightarrow> (usize \<Rightarrow> bool) \<Rightarrow> usize \<Rightarrow> (bytes, MemoryError) result" where
  "QuiescentRegion_new page_size native logical_len =
     rbind (page_align page_size logical_len) (\<lambda>n.
       if native n then Ok (replicate n 0) else Err Platform)"

text \<open>Every byte is stored through the live mapping.\<close>

definition clear_mapping :: "bytes \<Rightarrow> bytes" where
  "clear_mapping b = map (\<lambda>_. 0) b"

section \<open>Regions\<close>

record NativeRegion =
  nr_inner :: "bytes option"
  nr_logical_len :: usize
  nr_options :: RegionOptions

type_synonym platform = "usize \<Rightarrow> (bytes, MemoryError) result"

definition allocate :: "platform \<Rightarrow> RegionOptions \<Rightarrow> (NativeRegion, MemoryError) result" where
  "allocate platform options =
     rbind (validate_options options) (\<lambda>_.
     rbind (platform (ro_logical_len options)) (\<lambda>inner.
       Ok \<lparr>nr_inner = Some inner, nr_logical_len = ro_logical_len options, nr_options = options\<rparr>))"

definition inner :: "NativeRegion \<Rightarrow> (bytes, MemoryError) result" where
  "inner r = expect (nr_inner r)"

record RegionStatus =
  st_logical_len :: usize
  st_mapped_len :: usize
  st_maximum_len :: usize
  st_can_grow :: bool
  st_permissions :: PermissionPlan
  st_cleanup :: CleanupPolicy
  st_seal :: SealPolicy

text \<open>A managed region is always quiescent, the only state there is.\<close>

definition status :: "NativeRegion \<Rightarrow> (RegionStatus, MemoryError) result" where
  "status r =
     rbind (inner r) (\<lambda>b.
       let maximum = maximum_len (nr_options r) in
       Ok \<lparr>st_logical_len = nr_logical_len r, st_mapped_len = length b, st_maximum_len = maximum,
           st_can_grow = (ro_growth (nr_options r) \<noteq> Fixed \<and> nr_logical_len r < maximum),
           st_permissions = ro_permissions (nr_options r), st_cleanup = ro_cleanup (nr_options r),
           st_seal = ro_seal (nr_options r)\<rparr>)"

text \<open>The caller's closure rewrites the logical bytes in place.\<close>

definition initialize :: "(bytes \<Rightarrow> bytes) \<Rightarrow> NativeRegion \<Rightarrow> (NativeRegion, MemoryError) result" where
  "initialize operation r =
     rbind (inner r) (\<lambda>b.
     rbind (slice b 0 (nr_logical_len r)) (\<lambda>logical.
       Ok (r\<lparr>nr_inner := Some (write_at b 0 (operation logical))\<rparr>)))"

definition clear :: "NativeRegion \<Rightarrow> (NativeRegion, MemoryError) result" where
  "clear r = rbind (inner r) (\<lambda>b. Ok (r\<lparr>nr_inner := Some (clear_mapping b)\<rparr>))"

definition grow :: "platform \<Rightarrow> usize \<Rightarrow> NativeRegion \<Rightarrow> (NativeRegion \<times> bytes list, MemoryError) result" where
  "grow platform requested r =
     (if requested = 0 then Err ZeroLength
      else if requested < nr_logical_len r then Err (ShrinkUnsupported (nr_logical_len r) requested)
      else if requested = nr_logical_len r then Ok (r, [])
      else
        case ro_growth (nr_options r) of
          Fixed \<Rightarrow> Err FixedSize
        | ReplaceBeforeShare maximum \<Rightarrow>
            if requested > maximum then Err (MaximumExceeded requested maximum)
            else
              rbind (platform requested) (\<lambda>replacement.
              rbind (inner r) (\<lambda>previous.
              rbind (slice previous 0 (nr_logical_len r)) (\<lambda>logical.
              rbind (copy_from_slice replacement 0 (nr_logical_len r) logical) (\<lambda>replacement.
                let previous =
                  (if ro_cleanup (nr_options r) = ClearThenRelease then clear_mapping previous
                   else previous) in
                Ok (r\<lparr>nr_inner := Some replacement, nr_logical_len := requested\<rparr>, [previous]))))))"

text \<open>\<open>close\<close> and dropping a region release it, \<open>destroy\<close> clears it whatever its policy.\<close>

definition release :: "NativeRegion \<Rightarrow> bytes list" where
  "release r =
     (case nr_inner r of
        None \<Rightarrow> []
      | Some b \<Rightarrow>
          [if ro_cleanup (nr_options r) = ClearThenRelease then clear_mapping b else b])"

definition destroy :: "NativeRegion \<Rightarrow> bytes list" where
  "destroy r = (case nr_inner r of None \<Rightarrow> [] | Some b \<Rightarrow> [clear_mapping b])"

section \<open>Share requests\<close>

record NativeShareRequest =
  sq_inner :: "bytes option"
  sq_incarnation :: bytes
  sq_logical_len :: usize
  sq_permissions :: PermissionPlan
  sq_seal :: SealPolicy
  sq_cleanup :: CleanupPolicy

text \<open>A failed preparation drops the region, which releases its mapping.\<close>

definition prepare_for_sharing ::
    "bytes option \<Rightarrow> NativeRegion \<Rightarrow> (NativeShareRequest, MemoryError) result \<times> bytes list" where
  "prepare_for_sharing incarnation r =
     (case incarnation of
        None \<Rightarrow> (Err RandomnessUnavailable, release r)
      | Some incarnation \<Rightarrow>
          (Ok \<lparr>sq_inner = nr_inner r, sq_incarnation = incarnation, sq_logical_len = nr_logical_len r,
             sq_permissions = ro_permissions (nr_options r), sq_seal = ro_seal (nr_options r),
             sq_cleanup = ro_cleanup (nr_options r)\<rparr>, []))"

definition prepare_with_writer ::
    "bytes option \<Rightarrow> WriterOwner \<Rightarrow> NativeRegion \<Rightarrow>
     (NativeShareRequest, MemoryError) result \<times> bytes list" where
  "prepare_with_writer incarnation writer r =
     prepare_for_sharing incarnation
       (r\<lparr>nr_options := (nr_options r)\<lparr>ro_permissions := \<lparr>pp_writer = writer\<rparr>\<rparr>\<rparr>)"

definition request_mapped_len :: "NativeShareRequest \<Rightarrow> (usize, unit) result" where
  "request_mapped_len q = rbind (expect (sq_inner q)) (\<lambda>b. Ok (length b))"

definition native_spec :: "NativeShareRequest \<Rightarrow> u128 \<Rightarrow> (NativeRegionSpec, unit) result" where
  "native_spec q region_id =
     rbind (request_mapped_len q) (\<lambda>mapped.
       ok_or ()
         (NativeRegionSpec_new region_id (sq_incarnation q) (writer_raw (pp_writer (sq_permissions q)))
           (sq_logical_len q) mapped))"

definition request_destroy :: "NativeShareRequest \<Rightarrow> bytes list" where
  "request_destroy q = (case sq_inner q of None \<Rightarrow> [] | Some b \<Rightarrow> [clear_mapping b])"

definition request_release :: "NativeShareRequest \<Rightarrow> bytes list" where
  "request_release q =
     (case sq_inner q of
        None \<Rightarrow> []
      | Some b \<Rightarrow> [if sq_cleanup q = ClearThenRelease then clear_mapping b else b])"

section \<open>Page alignment\<close>

lemma and_not_mask: "(a :: 'a::len word) AND NOT (mask k) = a - take_bit k a"
proof -
  have "a AND NOT (mask k) = push_bit k (drop_bit k a)"
    by (rule bit_eqI) (auto simp: bit_simps)
  then show ?thesis using bits_ident [of k a] by (simp add: eq_diff_eq)
qed

lemma unat_and_not_mask: "unat ((a :: 'a::len word) AND NOT (mask k)) = unat a - unat a mod 2 ^ k"
proof -
  have t: "unat (take_bit k a) = unat a mod 2 ^ k" unfolding unsigned_take_bit_eq by (rule take_bit_eq_mod)
  then have "take_bit k a \<le> a" by (simp add: word_le_nat_alt)
  then show ?thesis by (simp add: and_not_mask unat_sub t)
qed

lemma page_align_Ok:
  assumes "k < 63" "page_align (2 ^ k) n = Ok m"
  shows "0 < n" "n \<le> m" "m < n + 2 ^ k" "2 ^ k dvd m"
proof -
  let ?p = "2 ^ k :: nat"
  have m: "0 < n" "n + (?p - 1) \<le> usize_max"
    "m = unat ((word_of_nat (n + (?p - 1)) :: u64) AND NOT (word_of_nat (?p - 1)))"
    using assms(2) by (auto simp: page_align_def outcome nat_power_eq Let_def split: if_splits option.splits)
  let ?v = "n + (?p - 1)"
  have "(word_of_nat (?p - 1) :: u64) = mask k"
    by (simp add: mask_eq_exp_minus_1 of_nat_diff)
  moreover have "unat (word_of_nat ?v :: u64) = ?v"
    using m(2) by (simp add: unat_of_nat take_bit_nat_eq_self usize_max_def del: of_nat_add)
  ultimately have v: "m = ?v - ?v mod ?p" using m(3) by (simp add: unat_and_not_mask del: of_nat_add)
  have lt: "?v mod ?p < ?p" by simp
  show "0 < n" by (rule m(1))
  show "n \<le> m" "m < n + ?p" using v lt m(1) by linarith+
  show "?p dvd m" unfolding v by (rule dvd_minus_mod)
qed

lemma page_align_Panic: "page_align p n \<noteq> Panic"
  by (auto simp: page_align_def Let_def split: option.splits)

section \<open>What a platform promises\<close>

text \<open>
  A region owns a mapping at least as long as its logical length, whose padding is zero, and stays
  within its growth limit.
\<close>

definition region_ok :: "NativeRegion \<Rightarrow> bool" where
  "region_ok r \<longleftrightarrow>
     (\<exists>b. nr_inner r = Some b \<and> nr_logical_len r \<le> length b \<and> set (drop (nr_logical_len r) b) \<subseteq> {0}) \<and>
     0 < nr_logical_len r \<and> nr_logical_len r \<le> maximum_len (nr_options r) \<and>
     ro_logical_len (nr_options r) \<le> nr_logical_len r"


text \<open>
  A new mapping is zeroed and at least as long as asked for.  The lifecycle of regions rests on
  nothing else of the platform.
\<close>

locale platform_memory =
  fixes platform :: "usize \<Rightarrow> (bytes, MemoryError) result"
  assumes platform_zeroed: "platform n = Ok b \<Longrightarrow> set b \<subseteq> {0} \<and> n \<le> length b"
    and platform_no_panic: "platform n \<noteq> Panic"
begin

lemma allocate_ok: "allocate platform options = Ok r \<Longrightarrow> region_ok r"
  using platform_zeroed
  by (fastforce simp: allocate_def validate_options_def outcome region_ok_def
      split: if_splits dest: in_set_dropD)

lemma initialize_ok:
  assumes "region_ok r" "\<And>b. length (f b) = length b"
  shows "\<exists>r'. initialize f r = Ok r' \<and> region_ok r' \<and> nr_options r' = nr_options r"
proof -
  obtain b where b: "nr_inner r = Some b" "nr_logical_len r \<le> length b" "set (drop (nr_logical_len r) b) \<subseteq> {0}"
    using assms(1) by (auto simp: region_ok_def)
  have "write_at b 0 (f (take (nr_logical_len r) b)) =
      f (take (nr_logical_len r) b) @ drop (nr_logical_len r) b"
    using b(2) assms(2) by (simp add: write_at_def)
  then show ?thesis
    using assms b by (simp add: initialize_def inner_def slice_def read_at_def region_ok_def)
qed

lemma clear_ok:
  assumes "region_ok r"
  shows "\<exists>r'. clear r = Ok r' \<and> region_ok r' \<and> nr_options r' = nr_options r"
  using assms by (auto simp: clear_def inner_def clear_mapping_def region_ok_def drop_map)

lemma grow_ok:
  assumes "region_ok r" "grow platform n r = Ok (r', released)"
  shows "region_ok r' \<and> nr_options r' = nr_options r \<and>
    (\<exists>b b'. nr_inner r = Some b \<and> nr_inner r' = Some b' \<and> nr_logical_len r' = n \<and>
       take n b' = take (nr_logical_len r) b @ replicate (n - nr_logical_len r) 0) \<and>
    (ro_cleanup (nr_options r) = ClearThenRelease \<longrightarrow> set (concat released) \<subseteq> {0})"
proof (cases "n = nr_logical_len r")
  case True
  then show ?thesis using assms by (auto simp: grow_def region_ok_def split: if_splits)
next
  case False
  let ?l = "nr_logical_len r"
  obtain b where b: "nr_inner r = Some b" "?l \<le> length b" using assms(1) by (auto simp: region_ok_def)
  obtain m c where c: "ro_growth (nr_options r) = ReplaceBeforeShare m" "n \<le> m" "platform n = Ok c" "?l < n"
    and r': "r' = r\<lparr>nr_inner := Some (write_at c 0 (take ?l b)), nr_logical_len := n\<rparr>"
    and rel: "released = [if ro_cleanup (nr_options r) = ClearThenRelease then clear_mapping b else b]"
    using assms(2) False b
    by (auto simp: grow_def inner_def outcome Let_def copy_from_slice_def slice_def read_at_def not_less
        split: if_splits GrowthPolicy.splits)
  have z: "set c \<subseteq> {0}" "n \<le> length c" using platform_zeroed [OF c(3)] by simp_all
  then have "c = replicate (length c) 0" by (intro replicate_eqI) auto
  then have "drop ?l c = replicate (length c - ?l) 0" by (metis drop_replicate)
  then have w: "write_at c 0 (take ?l b) = take ?l b @ replicate (length c - ?l) 0"
    using b(2) by (simp add: write_at_def)
  have "region_ok r'"
    using assms(1) c z(2) b(2) unfolding r' w by (auto simp: region_ok_def maximum_len_def)
  moreover have "take n (take ?l b @ replicate (length c - ?l) 0) = take ?l b @ replicate (n - ?l) 0"
    using b(2) c(4) z(2) by (simp add: min_def)
  ultimately show ?thesis
    using b(1) by (auto simp: r' w rel clear_mapping_def)
qed

lemma grow_no_panic:
  assumes "region_ok r"
  shows "grow platform n r \<noteq> Panic"
proof -
  obtain b where b: "nr_inner r = Some b" "nr_logical_len r \<le> length b"
    using assms by (auto simp: region_ok_def)
  show ?thesis
  proof (cases "platform n")
    case (Ok c)
    then have "n \<le> length c" using platform_zeroed by blast
    with Ok b show ?thesis
      by (simp add: grow_def inner_def Let_def copy_from_slice_def slice_def read_at_def
          split: GrowthPolicy.split)
  next
    case (Err e)
    then show ?thesis by (simp add: grow_def split: GrowthPolicy.split)
  qed (simp add: platform_no_panic)
qed

end

lemma linux_platform_zeroed:
  assumes "k < 63" "QuiescentRegion_new (2 ^ k) native n = Ok b"
  shows "set b \<subseteq> {0} \<and> n \<le> length b \<and> 2 ^ k dvd length b \<and> length b < n + 2 ^ k"
  using assms(2) page_align_Ok [OF assms(1)]
  by (auto simp: QuiescentRegion_new_def outcome split: if_splits)

lemma linux_platform: "k < 63 \<Longrightarrow> platform_memory (QuiescentRegion_new (2 ^ k) native)"
  using linux_platform_zeroed
  by unfold_locales (auto simp: QuiescentRegion_new_def outcome page_align_Panic)

text \<open>The pages of the supported Linux targets.\<close>

interpretation linux_4k: platform_memory "QuiescentRegion_new 4096 native" for native
  using linux_platform [of 12 native] by simp

section \<open>Lifecycle\<close>

text \<open>
  The states of a region that was allocated from the platform, with the last contents of every
  mapping given back so far.  The caller's closures keep the length of the slice.
\<close>

inductive region_run :: "platform \<Rightarrow> RegionOptions \<Rightarrow> NativeRegion \<Rightarrow> bytes list \<Rightarrow> bool" for platform options where
  allocate: "allocate platform options = Ok r \<Longrightarrow> region_run platform options r []"
| initialize: "region_run platform options r released \<Longrightarrow> (\<And>b. length (f b) = length b) \<Longrightarrow>
    initialize f r = Ok r' \<Longrightarrow> region_run platform options r' released"
| clear: "region_run platform options r released \<Longrightarrow> clear r = Ok r' \<Longrightarrow>
    region_run platform options r' released"
| grow: "region_run platform options r released \<Longrightarrow> grow platform n r = Ok (r', gone) \<Longrightarrow>
    region_run platform options r' (released @ gone)"

context platform_memory
begin

lemma region_run_ok:
  assumes "region_run platform options r released"
  shows "region_ok r \<and> nr_options r = options \<and>
    (ro_cleanup options = ClearThenRelease \<longrightarrow> set (concat released) \<subseteq> {0})"
  using assms
proof (induction rule: region_run.induct)
  case (allocate r)
  then show ?case using allocate_ok by (auto simp: allocate_def outcome)
next
  case (initialize r released f r')
  then show ?case using initialize_ok [of r f] by auto
next
  case (clear r released r')
  then show ?case using clear_ok [of r] by auto
next
  case (grow r released n r' gone)
  then show ?case using grow_ok [of r n r' gone] by auto
qed

lemma region_run_grow:
  assumes "region_run platform options r released" "grow platform n r = Ok (r', gone)"
  shows "\<exists>b b'. nr_inner r = Some b \<and> nr_inner r' = Some b' \<and>
    take n b' = take (nr_logical_len r) b @ replicate (n - nr_logical_len r) 0"
  using grow_ok [OF _ assms(2)] region_run_ok [OF assms(1)] by blast

end

lemma release_zero: "ro_cleanup (nr_options r) = ClearThenRelease \<Longrightarrow> set (concat (release r)) \<subseteq> {0}"
  by (auto simp: release_def clear_mapping_def split: option.splits)

section \<open>Properties\<close>

text \<open>C35: A region allocated on Linux, through any sequence of initialisations, clears and growths, owns
  a mapping at least as long as its logical length, which stays within the growth limit, and the
  padding behind it is zero.  Growing keeps the logical bytes, extends them with zeros and never
  panics.  With the clearing policy every mapping given back, by growth or at the end, is all zero.\<close>

theorem region_lifecycle:
  assumes "k < 63" "region_run (QuiescentRegion_new (2 ^ k) native) options r released"
  shows "region_ok r \<and>
    (ro_cleanup options = ClearThenRelease \<longrightarrow> set (concat (released @ release r)) \<subseteq> {0}) \<and>
    grow (QuiescentRegion_new (2 ^ k) native) n r \<noteq> Panic \<and>
    (\<forall>r' gone. grow (QuiescentRegion_new (2 ^ k) native) n r = Ok (r', gone) \<longrightarrow>
       (\<exists>b b'. nr_inner r = Some b \<and> nr_inner r' = Some b' \<and>
          take n b' = take (nr_logical_len r) b @ replicate (n - nr_logical_len r) 0))"
proof -
  note linux = linux_platform [OF assms(1), of native]
  note ok = platform_memory.region_run_ok [OF linux assms(2)]
  show ?thesis
    using ok release_zero [of r] platform_memory.grow_no_panic [OF linux, of r n]
      platform_memory.region_run_grow [OF linux assms(2), of n]
    by auto
qed

lemma example_allocate:
  "platform 3 = Ok [0, 0, 0, 0] \<Longrightarrow>
     allocate platform (growable 3 9 Creator) =
     Ok \<lparr>nr_inner = Some [0, 0, 0, 0], nr_logical_len = 3, nr_options = growable 3 9 Creator\<rparr>"
  by (simp add: allocate_def validate_options_def growable_def maximum_len_def)

theorem region_lifecycle_witness:
  "\<exists>r r' gone. region_run (QuiescentRegion_new (2 ^ 2) (\<lambda>_. True)) (growable 3 9 Creator) r [] \<and>
     nr_inner r = Some [5, 6, 7, 0] \<and>
     grow (QuiescentRegion_new (2 ^ 2) (\<lambda>_. True)) 6 r = Ok (r', gone) \<and>
     (\<exists>b'. nr_inner r' = Some b' \<and> take 6 b' = [5, 6, 7, 0, 0, 0]) \<and> region_ok r"
proof -
  let ?p = "QuiescentRegion_new (2 ^ 2) (\<lambda>_. True)" and ?o = "growable 3 9 Creator"
  let ?f = "\<lambda>b :: bytes. if length b = 3 then [5, 6, 7] else b"
  let ?r0 = "\<lparr>nr_inner = Some [0, 0, 0, 0], nr_logical_len = 3, nr_options = ?o\<rparr>"
  let ?r = "?r0\<lparr>nr_inner := Some [5, 6, 7, 0]\<rparr>"
  have p: "?p 3 = Ok [0, 0, 0, 0]" "?p 6 = Ok [0, 0, 0, 0, 0, 0, 0, 0]"
  proof -
    have "page_align 4 3 = Ok 4" "page_align 4 6 = Ok 8"
      by (simp_all add: page_align_def checked_add_usize_def usize_max_def)
    then show "?p 3 = Ok [0, 0, 0, 0]" "?p 6 = Ok [0, 0, 0, 0, 0, 0, 0, 0]"
      by (simp_all add: QuiescentRegion_new_def numeral_eq_Suc)
  qed
  from region_run.initialize [OF region_run.allocate [OF example_allocate [of ?p, OF p(1)]], of ?f ?r]
  have run: "region_run ?p ?o ?r []"
    by (simp add: initialize_def inner_def slice_def read_at_def write_at_def)
  obtain r' gone where g: "grow ?p 6 ?r = Ok (r', gone)"
    using p(2) by (simp add: grow_def growable_def inner_def slice_def copy_from_slice_def read_at_def Let_def)
  have "region_ok ?r \<and> (\<exists>b'. nr_inner r' = Some b' \<and> take 6 b' = [5, 6, 7, 0, 0, 0])"
    using region_lifecycle [OF _ run, of 6] g by (simp add: numeral_eq_Suc)
  with run g show ?thesis by (intro exI [of _ ?r] exI [of _ r'] exI [of _ gone]) simp
qed

end
