(* ===== verification/Region.thy ===== *)
theory Region
  imports Memory
begin

text \<open>
  Private and prepared regions, \<^verbatim>\<open>native-ipc/src/region.rs\<close>: the identities, writer directions and guard
  policies that a transfer attaches to the native regions of theory Memory.
\<close>

section \<open>Identities and policies\<close>

datatype RegionId = RegionId u128

definition RegionId_new :: "u128 \<Rightarrow> RegionId option" where
  "RegionId_new v = (if v = 0 then None else Some (RegionId v))"

primrec RegionId_get :: "RegionId \<Rightarrow> u128" where
  "RegionId_get (RegionId v) = v"

text \<open>The derived order of the newtype.\<close>

instantiation RegionId :: linorder
begin

definition less_eq_RegionId :: "RegionId \<Rightarrow> RegionId \<Rightarrow> bool" where
  "a \<le> b \<longleftrightarrow> RegionId_get a \<le> RegionId_get b"

definition less_RegionId :: "RegionId \<Rightarrow> RegionId \<Rightarrow> bool" where
  "a < b \<longleftrightarrow> RegionId_get a < RegionId_get b"

instance
proof
  fix a b c :: RegionId
  show "a < b \<longleftrightarrow> a \<le> b \<and> \<not> b \<le> a" by (auto simp: less_eq_RegionId_def less_RegionId_def)
  show "a \<le> a" by (simp add: less_eq_RegionId_def)
  show "a \<le> b \<Longrightarrow> b \<le> c \<Longrightarrow> a \<le> c" by (simp add: less_eq_RegionId_def)
  show "a \<le> b \<Longrightarrow> b \<le> a \<Longrightarrow> a = b" by (cases a; cases b) (simp add: less_eq_RegionId_def)
  show "a \<le> b \<or> b \<le> a" by (simp add: less_eq_RegionId_def linear)
qed

end

datatype WriterEndpoint = Coordinator | Receiver

record RegionSpec =
  spec_id :: RegionId
  spec_writer :: WriterEndpoint

datatype GuardPolicy = BestEffort | Require | Disable

record GuardCapability =
  gc_requested :: GuardPolicy
  gc_installed :: bool

record RegionOptions =
  opt_logical_len :: usize
  opt_maximum_len :: usize
  opt_guard :: GuardPolicy

definition RegionOptions_fixed :: "usize \<Rightarrow> RegionOptions" where
  "RegionOptions_fixed logical_len =
     \<lparr>opt_logical_len = logical_len, opt_maximum_len = logical_len, opt_guard = BestEffort\<rparr>"

definition with_max_bytes :: "RegionOptions \<Rightarrow> usize \<Rightarrow> RegionOptions" where
  "with_max_bytes options n = options\<lparr>opt_maximum_len := n\<rparr>"

definition with_guard_policy :: "RegionOptions \<Rightarrow> GuardPolicy \<Rightarrow> RegionOptions" where
  "with_guard_policy options guard = options\<lparr>opt_guard := guard\<rparr>"

datatype RegionError = Memory MemoryError | GuardUnavailable

section \<open>Regions\<close>

record PrivateRegion =
  pr_inner :: NativeRegion
  pr_guard :: GuardPolicy

record PreparedRegion =
  pq_request :: NativeShareRequest
  pq_spec :: RegionSpec
  pq_guard :: GuardCapability

definition PrivateRegion_allocate :: "platform \<Rightarrow> RegionOptions \<Rightarrow> (PrivateRegion, RegionError) result" where
  "PrivateRegion_allocate platform options =
     (let native =
        (if opt_maximum_len options = opt_logical_len options
         then fixed (opt_logical_len options) Creator
         else growable (opt_logical_len options) (opt_maximum_len options) Creator) in
      rbind (map_err Memory (allocate platform native)) (\<lambda>inner.
        Ok \<lparr>pr_inner = inner, pr_guard = opt_guard options\<rparr>))"

definition PrivateRegion_initialize :: "(bytes \<Rightarrow> bytes) \<Rightarrow> PrivateRegion \<Rightarrow> (PrivateRegion, MemoryError) result" where
  "PrivateRegion_initialize operation r =
     rbind (initialize operation (pr_inner r)) (\<lambda>inner. Ok (r\<lparr>pr_inner := inner\<rparr>))"

definition prepare ::
    "bytes option \<Rightarrow> RegionSpec \<Rightarrow> PrivateRegion \<Rightarrow> (PreparedRegion, RegionError) result \<times> bytes list" where
  "prepare incarnation spec r =
     (let writer = (case spec_writer spec of Coordinator \<Rightarrow> Creator | Receiver \<Rightarrow> Peer) in
      case prepare_with_writer incarnation writer (pr_inner r) of
        (request, released) \<Rightarrow>
          (rbind (map_err Memory request) (\<lambda>request.
             Ok \<lparr>pq_request = request, pq_spec = spec,
                 pq_guard = \<lparr>gc_requested = pr_guard r, gc_installed = False\<rparr>\<rparr>),
           released))"

definition prepared_logical_len :: "PreparedRegion \<Rightarrow> usize" where
  "prepared_logical_len r = sq_logical_len (pq_request r)"

definition prepared_mapped_len :: "PreparedRegion \<Rightarrow> (usize, 'e) result" where
  "prepared_mapped_len r = rbind (expect (sq_inner (pq_request r))) (\<lambda>b. Ok (length b))"

text \<open>Preparation never turns a region that was allocated into anything but its own mapping.\<close>

lemma prepare_Ok:
  "fst (prepare incarnation spec r) = Ok q \<longleftrightarrow>
     (\<exists>i. incarnation = Some i \<and> snd (prepare incarnation spec r) = [] \<and>
        pq_spec q = spec \<and> pq_guard q = \<lparr>gc_requested = pr_guard r, gc_installed = False\<rparr> \<and>
        pq_request q =
          \<lparr>sq_inner = nr_inner (pr_inner r), sq_incarnation = i, sq_logical_len = nr_logical_len (pr_inner r),
           sq_permissions =
             \<lparr>pp_writer = (case spec_writer spec of Coordinator \<Rightarrow> Creator | Receiver \<Rightarrow> Peer)\<rparr>,
           sq_seal = ro_seal (nr_options (pr_inner r)), sq_cleanup = ro_cleanup (nr_options (pr_inner r))\<rparr>)"
  by (cases q; cases incarnation)
    (auto simp: prepare_def prepare_with_writer_def prepare_for_sharing_def Let_def)

end
