(* ===== verification/Liveness.thy ===== *)
theory Liveness
  imports Limits
begin

text \<open>
  The ledger of active regions, \<^verbatim>\<open>native-ipc/src/liveness.rs\<close>: one session owner reserves, poisons and
  closes while leases are dropped on other threads.  Every atomic access of the owner is preceded by
  the drop steps that a schedule puts there; a drop is the two atomic subtractions of the destructor,
  which a schedule may separate.  Read-modify-write loops of the atomics are single accesses.
\<close>

section \<open>Definitions\<close>

definition ACTIVE :: u8 where "ACTIVE = 0"
definition POISONED :: u8 where "POISONED = 1"
definition CLOSED :: u8 where "CLOSED = 2"

record SharedResources =
  sr_state :: u8
  sr_active_regions :: u32
  sr_active_bytes :: u64
  sr_maximum_regions :: u32
  sr_maximum_bytes :: u64

text \<open>A lease that is being dropped has returned its bytes but not yet its region.\<close>

record RegionLease =
  rl_bytes :: u64
  rl_bytes_returned :: bool

datatype LivenessState = Active | Poisoned | Closed

datatype LeaseFactsConsistency = Exact | ApproximateDuringConcurrentDrop

record ActiveLeaseFacts =
  lf_regions :: u32
  lf_bytes :: u64
  lf_consistency :: LeaseFactsConsistency

datatype ResourceError =
    InvalidLimits | ResourcePoisoned | ResourceClosed | ActiveLimit
  | MappedLengthMismatch u64 u64 | ActiveLeases ActiveLeaseFacts

text \<open>The ledger: the shared counters and the leases that still exist.\<close>

record Ledger =
  lg_shared :: SharedResources
  lg_leases :: "RegionLease list"

definition map_shared :: "(SharedResources \<Rightarrow> SharedResources) \<Rightarrow> Ledger \<Rightarrow> Ledger" where
  "map_shared f L = L\<lparr>lg_shared := f (lg_shared L)\<rparr>"

definition ResourceOwner_new :: "SessionLimits \<Rightarrow> (Ledger, ResourceError) result" where
  "ResourceOwner_new limits =
     rbind (map_err (\<lambda>_. InvalidLimits) (SessionLimits_validate limits)) (\<lambda>limits.
       Ok \<lparr>lg_shared =
             \<lparr>sr_state = ACTIVE, sr_active_regions = 0, sr_active_bytes = 0,
              sr_maximum_regions = max_active_regions limits,
              sr_maximum_bytes = max_active_bytes limits\<rparr>,
           lg_leases = []\<rparr>)"

definition decode_state :: "u8 \<Rightarrow> (LivenessState, 'e) result" where
  "decode_state s =
     (if s = ACTIVE then Ok Active else if s = POISONED then Ok Poisoned
      else if s = CLOSED then Ok Closed else Panic)"

definition state :: "Ledger \<Rightarrow> (LivenessState, 'e) result" where
  "state L = decode_state (sr_state (lg_shared L))"

definition ensure_active :: "Ledger \<Rightarrow> (unit, ResourceError) result" where
  "ensure_active L =
     rbind (state L) (\<lambda>s.
       case s of
         Active \<Rightarrow> Ok ()
       | Poisoned \<Rightarrow> Err ResourcePoisoned
       | Closed \<Rightarrow> Err ResourceClosed)"

text \<open>
  One atomic subtraction of a destructor, on the lease at the given position; the assertions of a
  debug build panic when a counter would go below zero.
\<close>

definition drop_step :: "nat \<Rightarrow> Ledger \<Rightarrow> Ledger \<times> (unit, 'e) result" where
  "drop_step i L =
     (if i < length (lg_leases L) then
        let lease = lg_leases L ! i; shared = lg_shared L in
        if \<not> rl_bytes_returned lease then
          (L\<lparr>lg_shared := shared\<lparr>sr_active_bytes := sr_active_bytes shared - rl_bytes lease\<rparr>,
             lg_leases := (lg_leases L)[i := lease\<lparr>rl_bytes_returned := True\<rparr>]\<rparr>,
           if sr_active_bytes shared \<ge> rl_bytes lease then Ok () else Panic)
        else
          (L\<lparr>lg_shared := shared\<lparr>sr_active_regions := sr_active_regions shared - 1\<rparr>,
             lg_leases := take i (lg_leases L) @ drop (Suc i) (lg_leases L)\<rparr>,
           if sr_active_regions shared \<ge> 1 then Ok () else Panic)
      else (L, Ok ()))"

primrec drops :: "nat list \<Rightarrow> Ledger \<Rightarrow> Ledger \<times> (unit, 'e) result" where
  "drops [] L = (L, Ok ())"
| "drops (i # is) L = sbind (drop_step i L) (\<lambda>L _. drops is L)"

text \<open>The two counters are charged one after the other, with the checks of the source around them.\<close>

definition charge_region :: "Ledger \<Rightarrow> Ledger \<times> (unit, ResourceError) result" where
  "charge_region L =
     (let regions = sr_active_regions (lg_shared L) in
      if regions = - 1 then (L, Panic)
      else if regions < sr_maximum_regions (lg_shared L)
      then (map_shared (\<lambda>s. s\<lparr>sr_active_regions := regions + 1\<rparr>) L, Ok ())
      else (L, Err ActiveLimit))"

definition charge_bytes :: "u64 \<Rightarrow> Ledger \<Rightarrow> Ledger option" where
  "charge_bytes bytes L =
     (case checked_add (sr_active_bytes (lg_shared L)) bytes of
        None \<Rightarrow> None
      | Some next \<Rightarrow>
          if next \<le> sr_maximum_bytes (lg_shared L)
          then Some (map_shared (\<lambda>s. s\<lparr>sr_active_bytes := next\<rparr>) L) else None)"

definition return_region :: "Ledger \<Rightarrow> Ledger" where
  "return_region L = map_shared (\<lambda>s. s\<lparr>sr_active_regions := sr_active_regions s - 1\<rparr>) L"

definition return_bytes :: "u64 \<Rightarrow> Ledger \<Rightarrow> Ledger" where
  "return_bytes bytes L = map_shared (\<lambda>s. s\<lparr>sr_active_bytes := sr_active_bytes s - bytes\<rparr>) L"

definition reserve ::
    "(nat \<Rightarrow> nat list) \<Rightarrow> u64 \<Rightarrow> Ledger \<Rightarrow> Ledger \<times> (RegionLease, ResourceError) result" where
  "reserve sched bytes L =
     (if bytes = 0 \<or> bytes > sr_maximum_bytes (lg_shared L) then (L, Err ActiveLimit)
      else
        sbind (drops (sched 0) L) (\<lambda>L _.
        sbind (L, ensure_active L) (\<lambda>L _.
        sbind (drops (sched 1) L) (\<lambda>L _.
        sbind (charge_region L) (\<lambda>L _.
        sbind (drops (sched 2) L) (\<lambda>L _.
        case charge_bytes bytes L of
          None \<Rightarrow>
            sbind (drops (sched 3) L) (\<lambda>L _. (return_region L, Err ActiveLimit))
        | Some L \<Rightarrow>
            sbind (drops (sched 3) L) (\<lambda>L _.
            case ensure_active L of
              Err e \<Rightarrow>
                sbind (drops (sched 4) L) (\<lambda>L _.
                sbind (drops (sched 5) (return_bytes bytes L)) (\<lambda>L _. (return_region L, Err e)))
            | Panic \<Rightarrow> (L, Panic)
            | Ok _ \<Rightarrow>
                let lease = \<lparr>rl_bytes = bytes, rl_bytes_returned = False\<rparr> in
                (L\<lparr>lg_leases := lg_leases L @ [lease]\<rparr>, Ok lease))))))))"

text \<open>Only the owner writes the state, so the exchange is one access.\<close>

definition poison :: "Ledger \<Rightarrow> Ledger" where
  "poison L =
     (if sr_state (lg_shared L) = ACTIVE then map_shared (\<lambda>s. s\<lparr>sr_state := POISONED\<rparr>) L else L)"

definition active_lease_facts ::
    "nat list \<Rightarrow> nat list \<Rightarrow> Ledger \<Rightarrow> Ledger \<times> (ActiveLeaseFacts, ResourceError) result" where
  "active_lease_facts d0 d1 L =
     sbind (drops d0 L) (\<lambda>L _.
     let regions = sr_active_regions (lg_shared L) in
     sbind (drops d1 L) (\<lambda>L _.
     let bytes = sr_active_bytes (lg_shared L) in
       (L, Ok \<lparr>lf_regions = regions, lf_bytes = bytes,
             lf_consistency =
               (if regions = 0 \<and> bytes = 0 then Exact else ApproximateDuringConcurrentDrop)\<rparr>)))"

text \<open>The exchange loop of \<^verbatim>\<open>try_close\<close>; a loop that never ends has no value.\<close>

partial_function (option) close_loop ::
    "(nat \<Rightarrow> nat list) \<Rightarrow> nat \<Rightarrow> Ledger \<Rightarrow> (Ledger \<times> (unit, ResourceError) result) option" where
  [code]: "close_loop sched k L =
     (case drops (sched k) L of
        (L, Ok _) \<Rightarrow>
          (let current = sr_state (lg_shared L) in
           if current = CLOSED then Some (L, Err ResourceClosed)
           else
             case drops (sched (Suc k)) L of
               (L, Ok _) \<Rightarrow>
                 if sr_state (lg_shared L) = current
                 then Some (map_shared (\<lambda>s. s\<lparr>sr_state := CLOSED\<rparr>) L, Ok ())
                 else close_loop sched (Suc (Suc k)) L
             | (L, Err e) \<Rightarrow> Some (L, Err e)
             | (L, Panic) \<Rightarrow> Some (L, Panic))
      | (L, Err e) \<Rightarrow> Some (L, Err e)
      | (L, Panic) \<Rightarrow> Some (L, Panic))"

definition try_close ::
    "(nat \<Rightarrow> nat list) \<Rightarrow> Ledger \<Rightarrow> (Ledger \<times> (unit, ResourceError) result) option" where
  "try_close sched L =
     (case active_lease_facts (sched 0) (sched 1) L of
        (L, Ok facts) \<Rightarrow>
          if lf_regions facts \<noteq> 0 \<or> lf_bytes facts \<noteq> 0 then Some (L, Err (ActiveLeases facts))
          else close_loop sched 2 L
      | (L, Err e) \<Rightarrow> Some (L, Err e)
      | (L, Panic) \<Rightarrow> Some (L, Panic))"

section \<open>Accounts\<close>

definition charged :: "RegionLease \<Rightarrow> nat" where
  "charged l = (if rl_bytes_returned l then 0 else unat (rl_bytes l))"

definition charged_bytes :: "RegionLease list \<Rightarrow> nat" where
  "charged_bytes ls = sum_list (map charged ls)"

text \<open>
  The counters are what the existing leases are charged, plus the charge in flight of the owner's
  current call.
\<close>

definition accounts :: "nat \<Rightarrow> nat \<Rightarrow> Ledger \<Rightarrow> bool" where
  "accounts regions bytes L \<longleftrightarrow>
     unat (sr_active_regions (lg_shared L)) = length (lg_leases L) + regions \<and>
     unat (sr_active_bytes (lg_shared L)) = charged_bytes (lg_leases L) + bytes \<and>
     sr_state (lg_shared L) \<in> {ACTIVE, POISONED, CLOSED}"

text \<open>What other threads may do to the ledger: leases and their charges only go away.\<close>

definition settles :: "Ledger \<Rightarrow> Ledger \<Rightarrow> bool" where
  "settles L L' \<longleftrightarrow>
     sr_state (lg_shared L') = sr_state (lg_shared L) \<and>
     sr_maximum_regions (lg_shared L') = sr_maximum_regions (lg_shared L) \<and>
     sr_maximum_bytes (lg_shared L') = sr_maximum_bytes (lg_shared L) \<and>
     length (lg_leases L') \<le> length (lg_leases L) \<and>
     charged_bytes (lg_leases L') \<le> charged_bytes (lg_leases L)"

lemma settles_refl [simp]: "settles L L"
  by (simp add: settles_def)

lemma settles_trans: "settles L L' \<Longrightarrow> settles L' L'' \<Longrightarrow> settles L L''"
  by (simp add: settles_def)

lemma charged_split:
  assumes "i < length ls"
  shows "charged_bytes ls = charged (ls ! i) + charged_bytes (take i ls @ drop (Suc i) ls)"
proof -
  have "ls = take i ls @ ls ! i # drop (Suc i) ls" using assms by (simp add: id_take_nth_drop)
  then have "charged_bytes ls = charged_bytes (take i ls @ ls ! i # drop (Suc i) ls)" by simp
  then show ?thesis by (simp add: charged_bytes_def)
qed

lemma charged_update:
  assumes "i < length ls"
  shows "charged_bytes (ls[i := l]) = charged l + charged_bytes (take i ls @ drop (Suc i) ls)"
  using assms charged_split [of i "ls[i := l]"] by simp

lemma drop_step_accounts:
  assumes "accounts dr db L"
  shows "\<exists>L'. drop_step i L = (L', Ok ()) \<and> accounts dr db L' \<and> settles L L'"
proof (cases "i < length (lg_leases L)")
  case True
  let ?l = "lg_leases L ! i"
  note split = charged_split [OF True] charged_update [OF True]
  show ?thesis
  proof (cases "rl_bytes_returned ?l")
    case False
    then have "rl_bytes ?l \<le> sr_active_bytes (lg_shared L)"
      using assms split(1) by (simp add: accounts_def charged_def word_le_nat_alt)
    then show ?thesis
      using assms True False split
      by (simp add: drop_step_def Let_def accounts_def settles_def charged_def unat_sub)
  next
    case returned: True
    have "1 \<le> sr_active_regions (lg_shared L)"
      using assms True by (simp add: accounts_def word_le_nat_alt)
    moreover have "length (take i (lg_leases L) @ drop (Suc i) (lg_leases L)) = length (lg_leases L) - 1"
      using True by simp
    ultimately show ?thesis
      using assms True returned split
      by (simp add: drop_step_def Let_def accounts_def settles_def charged_def unat_sub)
  qed
qed (use assms in \<open>simp add: drop_step_def\<close>)

lemma drops_accounts:
  assumes "accounts dr db L"
  shows "\<exists>L'. drops is L = (L', Ok ()) \<and> accounts dr db L' \<and> settles L L'"
  using assms
proof (induction "is" arbitrary: L)
  case (Cons i "is")
  obtain M where "drop_step i L = (M, Ok () :: (unit, 'a) result)" "accounts dr db M" "settles L M"
    using drop_step_accounts [OF Cons.prems] by blast
  with Cons.IH [of M] show ?case by (auto intro: settles_trans)
qed simp

section \<open>Reserving\<close>

definition ledger_ok :: "Ledger \<Rightarrow> bool" where
  "ledger_ok L \<longleftrightarrow>
     accounts 0 0 L \<and> length (lg_leases L) \<le> unat (sr_maximum_regions (lg_shared L)) \<and>
     charged_bytes (lg_leases L) \<le> unat (sr_maximum_bytes (lg_shared L)) \<and>
     unat (sr_maximum_regions (lg_shared L)) < 2 ^ 32 - 1"

lemma ledger_ok_settles: "ledger_ok L \<Longrightarrow> settles L L' \<Longrightarrow> accounts 0 0 L' \<Longrightarrow> ledger_ok L'"
  by (simp add: ledger_ok_def settles_def)

lemma ensure_active_settles: "settles L L' \<Longrightarrow> ensure_active L' = ensure_active L"
  by (simp add: settles_def ensure_active_def state_def)

lemma ensure_active_cases:
  "accounts dr db L \<Longrightarrow>
     ensure_active L = (if sr_state (lg_shared L) = ACTIVE then Ok ()
       else if sr_state (lg_shared L) = POISONED then Err ResourcePoisoned else Err ResourceClosed)"
  by (auto simp: accounts_def ensure_active_def state_def decode_state_def ACTIVE_def POISONED_def CLOSED_def)

lemma charge_region_accounts:
  assumes "ledger_ok L"
  shows "if length (lg_leases L) < unat (sr_maximum_regions (lg_shared L))
    then \<exists>L'. charge_region L = (L', Ok ()) \<and> accounts 1 0 L' \<and> settles L L' \<and> lg_leases L' = lg_leases L
    else charge_region L = (L, Err ActiveLimit)"
proof -
  let ?r = "sr_active_regions (lg_shared L)"
  have r: "unat ?r = length (lg_leases L)" "unat ?r < 2 ^ 32 - 1"
    using assms by (auto simp: ledger_ok_def accounts_def)
  have ne: "?r \<noteq> - 1" using r(2) by (auto simp: unsigned_minus_1_eq_mask mask_eq_exp_minus_1)
  have "unat (?r + 1) = unat ?r + 1" using r(2) by (simp add: unat_word_ariths)
  then show ?thesis
    using assms ne r(1)
    by (auto simp: charge_region_def Let_def word_less_nat_alt map_shared_def ledger_ok_def accounts_def
        settles_def)
qed

lemma charge_bytes_accounts:
  assumes "accounts 1 0 L"
  shows "if charged_bytes (lg_leases L) + unat bytes \<le> unat (sr_maximum_bytes (lg_shared L))
    then \<exists>L'. charge_bytes bytes L = Some L' \<and> accounts 1 (unat bytes) L' \<and> settles L L'
    else charge_bytes bytes L = None"
proof -
  let ?b = "sr_active_bytes (lg_shared L)" and ?m = "sr_maximum_bytes (lg_shared L)"
  have b: "unat ?b = charged_bytes (lg_leases L)" using assms by (simp add: accounts_def)
  show ?thesis
  proof (cases "unat ?b + unat bytes < 2 ^ 64")
    case True
    then have "unat (?b + bytes) = unat ?b + unat bytes" by (simp add: unat_word_ariths)
    then show ?thesis
      using assms b True
      by (simp add: charge_bytes_def checked_add_def word_le_nat_alt map_shared_def accounts_def settles_def)
  next
    case False
    moreover have "unat ?m < 2 ^ 64" using unat_lt_pow [of ?m] by simp
    ultimately show ?thesis using b by (simp add: charge_bytes_def checked_add_def)
  qed
qed

text \<open>What a reservation does to the ledger, whatever is dropped meanwhile.\<close>

definition same_limits :: "Ledger \<Rightarrow> Ledger \<Rightarrow> bool" where
  "same_limits L L' \<longleftrightarrow>
     sr_maximum_regions (lg_shared L') = sr_maximum_regions (lg_shared L) \<and>
     sr_maximum_bytes (lg_shared L') = sr_maximum_bytes (lg_shared L)"

lemma settles_same_limits: "settles L L' \<Longrightarrow> same_limits L L'"
  by (simp add: settles_def same_limits_def)

definition capacity :: "u64 \<Rightarrow> Ledger \<Rightarrow> bool" where
  "capacity bytes L \<longleftrightarrow>
     sr_state (lg_shared L) = ACTIVE \<and> bytes \<noteq> 0 \<and>
     length (lg_leases L) < unat (sr_maximum_regions (lg_shared L)) \<and>
     charged_bytes (lg_leases L) + unat bytes \<le> unat (sr_maximum_bytes (lg_shared L))"

definition reserved :: "u64 \<Rightarrow> Ledger \<Rightarrow> Ledger \<times> (RegionLease, ResourceError) result \<Rightarrow> bool" where
  "reserved bytes L out \<longleftrightarrow>
     ledger_ok (fst out) \<and> same_limits L (fst out) \<and> (capacity bytes L \<longrightarrow> is_ok (snd out)) \<and>
     (\<exists>M. settles L M \<and>
        (case snd out of
           Ok lease \<Rightarrow>
             sr_state (lg_shared L) = ACTIVE \<and> bytes \<noteq> 0 \<and>
             lease = \<lparr>rl_bytes = bytes, rl_bytes_returned = False\<rparr> \<and>
             lg_leases (fst out) = lg_leases M @ [lease] \<and>
             sr_state (lg_shared (fst out)) = ACTIVE
         | Err e \<Rightarrow> settles L (fst out)
         | Panic \<Rightarrow> False))"

lemma reserve_charged:
  assumes "ledger_ok L" "sr_state (lg_shared L) = ACTIVE" "bytes \<noteq> 0" "settles L M" "accounts 1 0 M"
    "length (lg_leases M) < unat (sr_maximum_regions (lg_shared M))"
  shows "reserved bytes L
    (case charge_bytes bytes M of
       None \<Rightarrow> sbind (drops (sched 3) M) (\<lambda>L _. (return_region L, Err ActiveLimit))
     | Some L \<Rightarrow>
         sbind (drops (sched 3) L) (\<lambda>L _.
         case ensure_active L of
           Err e \<Rightarrow>
             sbind (drops (sched 4) L) (\<lambda>L _.
             sbind (drops (sched 5) (return_bytes bytes L)) (\<lambda>L _. (return_region L, Err e)))
         | Panic \<Rightarrow> (L, Panic)
         | Ok _ \<Rightarrow>
             let lease = \<lparr>rl_bytes = bytes, rl_bytes_returned = False\<rparr> in
             (L\<lparr>lg_leases := lg_leases L @ [lease]\<rparr>, Ok lease)))"
proof (cases "charged_bytes (lg_leases M) + unat bytes \<le> unat (sr_maximum_bytes (lg_shared M))")
  case True
  then obtain N where n: "charge_bytes bytes M = Some N" "accounts 1 (unat bytes) N" "settles M N"
    using charge_bytes_accounts [OF assms(5), of bytes] by auto
  obtain P where p: "drops (sched 3) N = (P, Ok () :: (unit, ResourceError) result)"
    "accounts 1 (unat bytes) P" "settles N P"
    using drops_accounts [OF n(2)] by blast
  have lp: "settles L P" "settles M P" using assms(4) n(3) p(3) by (blast intro: settles_trans)+
  then have e: "ensure_active P = Ok ()"
    using ensure_active_cases [OF p(2)] assms(2) by (simp add: settles_def)
  let ?l = "\<lparr>rl_bytes = bytes, rl_bytes_returned = False\<rparr>"
  have "ledger_ok (P\<lparr>lg_leases := lg_leases P @ [?l]\<rparr>)"
    using p(2) lp assms(1,6) True
    by (simp add: ledger_ok_def accounts_def charged_bytes_def charged_def settles_def)
  then show ?thesis
    using n(1) p(1) e lp(1) assms(2,3) by (auto simp: reserved_def Let_def settles_def same_limits_def)
next
  case False
  then have c: "charge_bytes bytes M = None" using charge_bytes_accounts [OF assms(5), of bytes] by simp
  obtain P where p: "drops (sched 3) M = (P, Ok () :: (unit, ResourceError) result)"
    "accounts 1 0 P" "settles M P"
    using drops_accounts [OF assms(5)] by blast
  have lp: "settles L P" using assms(4) p(3) by (rule settles_trans)
  have "1 \<le> sr_active_regions (lg_shared P)" using p(2) by (simp add: accounts_def word_le_nat_alt)
  then have "accounts 0 0 (return_region P)" "settles L (return_region P)"
    using p(2) lp by (simp_all add: return_region_def map_shared_def accounts_def settles_def unat_sub)
  then show ?thesis
    using c p(1) False assms(4) ledger_ok_settles [OF assms(1)]
    by (auto simp: reserved_def capacity_def settles_def same_limits_def)
qed

lemma reserve_reserved:
  assumes "ledger_ok L"
  shows "reserved bytes L (reserve sched bytes L)"
proof (cases "bytes = 0 \<or> bytes > sr_maximum_bytes (lg_shared L)")
  case True
  then show ?thesis
    using assms
    by (auto simp: reserve_def reserved_def capacity_def same_limits_def word_less_nat_alt intro: settles_refl)
next
  case False
  have acc: "accounts 0 0 L" using assms by (simp add: ledger_ok_def)
  obtain M where m: "drops (sched 0) L = (M, Ok () :: (unit, ResourceError) result)" "accounts 0 0 M" "settles L M"
    using drops_accounts [OF acc] by blast
  obtain N where n: "drops (sched 1) M = (N, Ok () :: (unit, ResourceError) result)" "accounts 0 0 N" "settles M N"
    using drops_accounts [OF m(2)] by blast
  have ln: "settles L N" using m(3) n(3) by (rule settles_trans)
  have ok: "ledger_ok N" "ledger_ok M" using ledger_ok_settles [OF assms] m n ln by blast+
  show ?thesis
  proof (cases "sr_state (lg_shared L) = ACTIVE")
    case inactive: False
    obtain e where "ensure_active M = Err e"
      using ensure_active_cases [OF m(2)] inactive m(3) by (auto simp: settles_def split: if_splits)
    then show ?thesis
      using False m ok(2) inactive by (auto simp: reserve_def reserved_def capacity_def intro: settles_same_limits)
  next
    case active: True
    then have e: "ensure_active M = Ok ()"
      using ensure_active_cases [OF m(2)] m(3) by (simp add: settles_def)
    show ?thesis
    proof (cases "length (lg_leases N) < unat (sr_maximum_regions (lg_shared N))")
      case True
      then obtain P where p: "charge_region N = (P, Ok ())" "accounts 1 0 P" "settles N P" "lg_leases P = lg_leases N"
        using charge_region_accounts [OF ok(1)] by auto
      obtain Q where q: "drops (sched 2) P = (Q, Ok () :: (unit, ResourceError) result)" "accounts 1 0 Q" "settles P Q"
        using drops_accounts [OF p(2)] by blast
      have lq: "settles L Q" using ln p(3) q(3) by (blast intro: settles_trans)
      have "length (lg_leases Q) < unat (sr_maximum_regions (lg_shared Q))"
        using True p(3,4) q(3) by (simp add: settles_def)
      from reserve_charged [OF assms active _ lq q(2) this, of bytes sched] show ?thesis
        using False m(1) e n(1) p(1) q(1) by (simp add: reserve_def)
    next
      case full: False
      then show ?thesis
        using False m(1) e n(1) charge_region_accounts [OF ok(1)] ok(1) ln
        by (auto simp: reserve_def reserved_def capacity_def settles_def same_limits_def)
    qed
  qed
qed

section \<open>Closing\<close>

lemma charged_bytes_Nil [simp]: "charged_bytes [] = 0"
  by (simp add: charged_bytes_def)

lemma close_loop_returns:
  assumes "accounts 0 0 L"
  shows "\<exists>L'. settles L L' \<and> accounts 0 0 L' \<and>
    close_loop sched k L =
      (if sr_state (lg_shared L) = CLOSED then Some (L', Err ResourceClosed)
       else Some (map_shared (\<lambda>s. s\<lparr>sr_state := CLOSED\<rparr>) L', Ok ()))"
proof -
  obtain M where m: "drops (sched k) L = (M, Ok () :: (unit, ResourceError) result)" "accounts 0 0 M" "settles L M"
    using drops_accounts [OF assms] by blast
  obtain N where n: "drops (sched (Suc k)) M = (N, Ok () :: (unit, ResourceError) result)" "accounts 0 0 N" "settles M N"
    using drops_accounts [OF m(2)] by blast
  have "settles L N" using m(3) n(3) by (rule settles_trans)
  then show ?thesis
    using m n by (cases "sr_state (lg_shared L) = CLOSED")
      (auto simp: close_loop.simps [of sched k L] Let_def settles_def)
qed

lemma settles_empty: "settles L L' \<Longrightarrow> lg_leases L = [] \<Longrightarrow> lg_leases L' = []"
  by (simp add: settles_def)

lemma try_close_outcome:
  assumes "ledger_ok L"
  shows "\<exists>L' out. try_close sched L = Some (L', out) \<and> ledger_ok L' \<and> same_limits L L' \<and>
    (case out of
       Ok _ \<Rightarrow> lg_leases L' = [] \<and> sr_state (lg_shared L) \<noteq> CLOSED \<and> sr_state (lg_shared L') = CLOSED
     | Err (ActiveLeases facts) \<Rightarrow>
         settles L L' \<and> lg_leases L \<noteq> [] \<and> length (lg_leases L') \<le> unat (lf_regions facts) \<and>
         charged_bytes (lg_leases L') \<le> unat (lf_bytes facts)
     | Err e \<Rightarrow> e = ResourceClosed \<and> settles L L' \<and> lg_leases L' = [] \<and> sr_state (lg_shared L) = CLOSED
     | Panic \<Rightarrow> False)"
proof -
  have acc: "accounts 0 0 L" using assms by (simp add: ledger_ok_def)
  obtain M where m: "drops (sched 0) L = (M, Ok () :: (unit, ResourceError) result)" "accounts 0 0 M" "settles L M"
    using drops_accounts [OF acc] by blast
  obtain N where n: "drops (sched 1) M = (N, Ok () :: (unit, ResourceError) result)" "accounts 0 0 N" "settles M N"
    using drops_accounts [OF m(2)] by blast
  let ?r = "sr_active_regions (lg_shared M)" and ?b = "sr_active_bytes (lg_shared N)"
  have c: "unat ?r = length (lg_leases M)" "unat ?b = charged_bytes (lg_leases N)"
    using m(2) n(2) by (simp_all add: accounts_def)
  have ln: "settles L N" using m(3) n(3) by (rule settles_trans)
  show ?thesis
  proof (cases "?r = 0 \<and> ?b = 0")
    case True
    then have "lg_leases M = []" using c(1) by simp
    then have e: "lg_leases N = []" using settles_empty [OF n(3)] by simp
    obtain P where p: "settles N P" "accounts 0 0 P" "close_loop sched 2 N =
      (if sr_state (lg_shared N) = CLOSED then Some (P, Err ResourceClosed)
       else Some (map_shared (\<lambda>s. s\<lparr>sr_state := CLOSED\<rparr>) P, Ok ()))"
      using close_loop_returns [OF n(2)] by blast
    have lp: "settles L P" "lg_leases P = []" "ledger_ok P"
      using ln p(1,2) settles_empty [OF p(1) e] ledger_ok_settles [OF assms]
      by (blast intro: settles_trans)+
    then have "ledger_ok (map_shared (\<lambda>s. s\<lparr>sr_state := CLOSED\<rparr>) P)"
      by (simp add: ledger_ok_def accounts_def map_shared_def)
    with lp show ?thesis
      using m(1) n(1) ln p(3) True
      by (simp add: try_close_def active_lease_facts_def Let_def settles_def same_limits_def)
        (auto simp: map_shared_def)
  next
    case False
    have "lg_leases L \<noteq> []"
    proof
      assume "lg_leases L = []"
      then have "lg_leases M = []" "lg_leases N = []" using settles_empty m(3) ln by blast+
      then show False using False c by (simp add: unat_eq_zero)
    qed
    moreover have "ledger_ok N" using ledger_ok_settles [OF assms ln n(2)] .
    ultimately show ?thesis
      using m(1) n(1) ln False c n(3)
      by (auto simp: try_close_def active_lease_facts_def Let_def settles_def same_limits_def)
  qed
qed

section \<open>Reachable ledgers\<close>

inductive reachable :: "SessionLimits \<Rightarrow> Ledger \<Rightarrow> bool" for limits where
  new: "ResourceOwner_new limits = Ok L \<Longrightarrow> reachable limits L"
| reserve: "reachable limits L \<Longrightarrow> reserve sched bytes L = (L', r) \<Longrightarrow> reachable limits L'"
| poison: "reachable limits L \<Longrightarrow> reachable limits (poison L)"
| try_close: "reachable limits L \<Longrightarrow> try_close sched L = Some (L', r) \<Longrightarrow> reachable limits L'"
| drop_step: "reachable limits L \<Longrightarrow> drop_step i L = (L', r :: (unit, ResourceError) result) \<Longrightarrow> reachable limits L'"

definition ledger_inv :: "SessionLimits \<Rightarrow> Ledger \<Rightarrow> bool" where
  "ledger_inv limits L \<longleftrightarrow>
     ledger_ok L \<and> (sr_state (lg_shared L) = CLOSED \<longrightarrow> lg_leases L = []) \<and>
     sr_maximum_regions (lg_shared L) = max_active_regions limits \<and>
     sr_maximum_bytes (lg_shared L) = max_active_bytes limits"

lemma ledger_inv_settles:
  "ledger_inv limits L \<Longrightarrow> settles L L' \<Longrightarrow> ledger_ok L' \<Longrightarrow> ledger_inv limits L'"
  by (auto simp: ledger_inv_def settles_def)

lemma new_ledger_inv:
  assumes "ResourceOwner_new limits = Ok L"
  shows "ledger_inv limits L"
proof -
  have "limits_valid limits" using assms by (auto simp: ResourceOwner_new_def outcome)
  then have "unat (max_active_regions limits) < 2 ^ 32 - 1"
    by (simp add: limits_valid_def hard_max_defs word_le_nat_alt)
  then show ?thesis
    using assms
    by (auto simp: ResourceOwner_new_def outcome ledger_inv_def ledger_ok_def accounts_def ACTIVE_def CLOSED_def)
qed

lemma reachable_ledger_inv: "reachable limits L \<Longrightarrow> ledger_inv limits L"
proof (induction rule: reachable.induct)
  case (new L)
  then show ?case by (rule new_ledger_inv)
next
  case (reserve L sched bytes L' r)
  then have "reserved bytes L (L', r)" using reserve_reserved [of L bytes sched] by (simp add: ledger_inv_def)
  then show ?case
    using reserve.IH
    by (cases r) (auto simp: reserved_def ledger_inv_def same_limits_def settles_def ACTIVE_def CLOSED_def)
next
  case (poison L)
  then show ?case
    by (auto simp: poison_def map_shared_def ledger_inv_def ledger_ok_def accounts_def POISONED_def CLOSED_def)
next
  case (try_close L sched L' r)
  then have "ledger_ok L" by (simp add: ledger_inv_def)
  from try_close_outcome [OF this, of sched] try_close show ?case
    by (auto simp: ledger_inv_def same_limits_def settles_def split: result.splits ResourceError.splits)
next
  case (drop_step L i L' r)
  then have "accounts 0 0 L" by (simp add: ledger_inv_def ledger_ok_def)
  then have "accounts 0 0 L'" "settles L L'"
    using drop_step_accounts [of 0 0 L i, where 'a = ResourceError] drop_step.hyps(2) by auto
  then show ?case
    using drop_step.IH ledger_ok_settles [of L L'] by (auto simp: ledger_inv_def settles_def)
qed

section \<open>Properties\<close>

text \<open>C33: In every reachable ledger, whatever drops ran between the owner's accesses, the two counters
  are exactly the number of leases that exist and the bytes they still hold, neither exceeds the
  negotiated maximum, the state byte is canonical, and a closed session has no leases.\<close>

theorem ledger_counters_exact:
  assumes "reachable limits L"
  shows "unat (sr_active_regions (lg_shared L)) = length (lg_leases L) \<and>
    unat (sr_active_bytes (lg_shared L)) = charged_bytes (lg_leases L) \<and>
    sr_active_regions (lg_shared L) \<le> max_active_regions limits \<and>
    sr_active_bytes (lg_shared L) \<le> max_active_bytes limits \<and>
    (\<exists>s. state L = (Ok s :: (LivenessState, ResourceError) result)) \<and>
    (state L = (Ok Closed :: (LivenessState, ResourceError) result) \<longrightarrow> lg_leases L = [])"
  using reachable_ledger_inv [OF assms]
  by (auto simp: ledger_inv_def ledger_ok_def accounts_def word_le_nat_alt state_def decode_state_def
      ACTIVE_def POISONED_def CLOSED_def)

definition example_session_limits :: SessionLimits where
  "example_session_limits =
     \<lparr>max_regions_per_batch = 4, max_region_bytes = 4096, max_batch_bytes = 8192, max_active_regions = 2,
      max_active_bytes = 10000, max_transactions = 8, max_bootstrap_payload_bytes = 64,
      max_control_payload_bytes = 64\<rparr>"

definition example_ledger :: Ledger where
  "example_ledger =
     \<lparr>lg_shared = \<lparr>sr_state = ACTIVE, sr_active_regions = 1, sr_active_bytes = 4096,
        sr_maximum_regions = 2, sr_maximum_bytes = 10000\<rparr>,
      lg_leases = [\<lparr>rl_bytes = 4096, rl_bytes_returned = False\<rparr>]\<rparr>"

lemma example_ledger_reachable: "reachable example_session_limits example_ledger"
proof -
  obtain L where l: "ResourceOwner_new example_session_limits = Ok L"
    and e: "reserve (\<lambda>_. []) 4096 L = (example_ledger, Ok \<lparr>rl_bytes = 4096, rl_bytes_returned = False\<rparr>)"
    by (simp add: ResourceOwner_new_def outcome limits_valid_def example_session_limits_def
        example_ledger_def reserve_def ensure_active_def state_def decode_state_def charge_region_def
        charge_bytes_def checked_add_def map_shared_def Let_def)
  show ?thesis by (rule reachable.reserve [OF reachable.new [OF l] e])
qed

theorem ledger_counters_exact_witness:
  "reachable example_session_limits example_ledger \<and>
   unat (sr_active_bytes (lg_shared example_ledger)) = charged_bytes (lg_leases example_ledger)"
  using ledger_counters_exact [OF example_ledger_reachable] example_ledger_reachable by simp

text \<open>C10: A reservation in a reachable ledger never panics and never leaks: when it fails, only leases
  dropped meanwhile are gone; when it succeeds the session is active and exactly one lease of the
  requested size is added to what the drops left.  It succeeds whenever the session is active and
  the request fits the ledger it started from, whatever drops run between its accesses.\<close>

theorem reserve_never_leaks:
  assumes "reachable limits L" "reserve sched bytes L = (L', r)"
  shows "(capacity bytes L \<longrightarrow> is_ok r) \<and>
    (case r of
       Ok lease \<Rightarrow>
         (\<exists>M. settles L M \<and> lg_leases L' = lg_leases M @ [lease]) \<and>
         lease = \<lparr>rl_bytes = bytes, rl_bytes_returned = False\<rparr> \<and> bytes \<noteq> 0 \<and>
         state L' = (Ok Active :: (LivenessState, ResourceError) result)
     | Err e \<Rightarrow> settles L L' \<and> ledger_ok L'
     | Panic \<Rightarrow> False)"
proof -
  have "reserved bytes L (L', r)"
    using reserve_reserved [of L bytes sched] reachable_ledger_inv [OF assms(1)] assms(2)
    by (simp add: ledger_inv_def)
  then show ?thesis
    by (cases r) (auto simp: reserved_def state_def decode_state_def)
qed

theorem reserve_never_leaks_witness:
  "capacity 5000 example_ledger \<and> is_ok (snd (reserve (\<lambda>i. if i = 2 then [0, 0] else []) 5000 example_ledger))"
proof -
  have "capacity 5000 example_ledger"
    by (simp add: capacity_def example_ledger_def charged_bytes_def charged_def)
  then show ?thesis
    using reserve_never_leaks [OF example_ledger_reachable surjective_pairing] by blast
qed

text \<open>C34: Closing returns after its first exchange under every schedule.  It reports success only with
  no lease left, and then the session is closed; when leases are reported the counts are upper
  bounds of what is left and the session is as it was; a session without leases that is not yet
  closed is closed.\<close>

theorem try_close_returns:
  assumes "reachable limits L"
  shows "\<exists>L' r. try_close sched L = Some (L', r) \<and>
    (lg_leases L = [] \<and> sr_state (lg_shared L) \<noteq> CLOSED \<longrightarrow> r = Ok ()) \<and>
    (case r of
       Ok _ \<Rightarrow> lg_leases L' = [] \<and> state L' = (Ok Closed :: (LivenessState, ResourceError) result)
     | Err (ActiveLeases facts) \<Rightarrow>
         settles L L' \<and> length (lg_leases L') \<le> unat (lf_regions facts) \<and>
         charged_bytes (lg_leases L') \<le> unat (lf_bytes facts)
     | Err e \<Rightarrow> e = ResourceClosed \<and> state L = (Ok Closed :: (LivenessState, ResourceError) result)
     | Panic \<Rightarrow> False)"
proof -
  have "ledger_ok L" using reachable_ledger_inv [OF assms] by (simp add: ledger_inv_def)
  then obtain L' out where c: "try_close sched L = Some (L', out)" "case out of
       Ok _ \<Rightarrow> lg_leases L' = [] \<and> sr_state (lg_shared L) \<noteq> CLOSED \<and> sr_state (lg_shared L') = CLOSED
     | Err (ActiveLeases facts) \<Rightarrow>
         settles L L' \<and> lg_leases L \<noteq> [] \<and> length (lg_leases L') \<le> unat (lf_regions facts) \<and>
         charged_bytes (lg_leases L') \<le> unat (lf_bytes facts)
     | Err e \<Rightarrow> e = ResourceClosed \<and> settles L L' \<and> lg_leases L' = [] \<and> sr_state (lg_shared L) = CLOSED
     | Panic \<Rightarrow> False"
    using try_close_outcome by blast
  then show ?thesis
    by (auto simp: state_def decode_state_def ACTIVE_def POISONED_def CLOSED_def
        split: result.splits ResourceError.splits)
qed

theorem try_close_returns_witness:
  "\<exists>L' r. try_close (\<lambda>i. if i < 2 then [0] else []) example_ledger = Some (L', r) \<and> r \<noteq> Panic"
proof -
  obtain L' r where c: "try_close (\<lambda>i. if i < 2 then [0] else []) example_ledger = Some (L', r)"
    and r: "case r of
       Ok _ \<Rightarrow> lg_leases L' = [] \<and> state L' = (Ok Closed :: (LivenessState, ResourceError) result)
     | Err (ActiveLeases facts) \<Rightarrow>
         settles example_ledger L' \<and> length (lg_leases L') \<le> unat (lf_regions facts) \<and>
         charged_bytes (lg_leases L') \<le> unat (lf_bytes facts)
     | Err e \<Rightarrow> e = ResourceClosed \<and> state example_ledger = (Ok Closed :: (LivenessState, ResourceError) result)
     | Panic \<Rightarrow> False"
    using try_close_returns [OF example_ledger_reachable, of "\<lambda>i. if i < 2 then [0] else []"] by blast
  from r have "r \<noteq> Panic" by (cases r) simp_all
  with c show ?thesis by blast
qed

end
