(* ===== verification/Active.thy ===== *)
theory Active
  imports Region Liveness
begin

text \<open>
  Active mappings after commit, \<^verbatim>\<open>native-ipc/src/active.rs\<close>.  A native owner is its base addresses,
  length, page size and guard outcome; the bytes behind it are kept apart, because a peer may change
  them between any two accesses of a reader.  An access outside the owner's bytes would be undefined
  behaviour and is modelled as a panic.  The retaining lease is read through the session state that
  is passed in; an owner without a lease has none.
\<close>

section \<open>Owners\<close>

datatype AccessError = OutOfBounds | InvalidRange | SessionInactive

record PrefaultResult =
  pf_requested_bytes :: usize
  pf_pages_touched :: usize

record ActiveOwner =
  ow_ptr :: nat
  ow_mut_ptr :: nat
  ow_len :: usize
  ow_page_size :: usize
  ow_guard_installed :: bool

record ActiveReader =
  ar_owner :: ActiveOwner
  ar_lease :: "RegionLease option"
  ar_logical_len :: usize
  ar_guard_requested :: GuardPolicy

record ActiveWriter =
  aw_owner :: ActiveOwner
  aw_lease :: "RegionLease option"
  aw_logical_len :: usize
  aw_guard_requested :: GuardPolicy

datatype ActivationError = Access AccessError | Resource ResourceError | MappingLengthOverflow

text \<open>The same check for readers and writers, on what the lease reports.\<close>

definition ensure_session :: "LivenessState option \<Rightarrow> (unit, AccessError) result" where
  "ensure_session live =
     (case live of
        None \<Rightarrow> Ok ()
      | Some Liveness.Active \<Rightarrow> Ok ()
      | Some _ \<Rightarrow> Err SessionInactive)"

definition ActiveReader_from_owner :: "ActiveOwner \<Rightarrow> usize \<Rightarrow> (ActiveReader, AccessError) result" where
  "ActiveReader_from_owner ow logical_len =
     (if logical_len = 0 \<or> logical_len > ow_len ow \<or> ow_page_size ow = 0 \<or>
        \<not> ow_page_size ow dvd ow_ptr ow
      then Err OutOfBounds
      else Ok \<lparr>ar_owner = ow, ar_lease = None, ar_logical_len = logical_len,
             ar_guard_requested = BestEffort\<rparr>)"

definition ActiveWriter_from_owner :: "ActiveOwner \<Rightarrow> usize \<Rightarrow> (ActiveWriter, AccessError) result" where
  "ActiveWriter_from_owner ow logical_len =
     (if logical_len = 0 \<or> logical_len > ow_len ow \<or> ow_page_size ow = 0 \<or>
        \<not> ow_page_size ow dvd ow_ptr ow \<or> ow_ptr ow \<noteq> ow_mut_ptr ow
      then Err OutOfBounds
      else Ok \<lparr>aw_owner = ow, aw_lease = None, aw_logical_len = logical_len,
             aw_guard_requested = BestEffort\<rparr>)"

text \<open>
  Completing a reservation checks the charge against the mapping and the session state.  The lease
  stays in the ledger; a failed completion drops it there.
\<close>

definition complete :: "LivenessState \<Rightarrow> RegionLease \<Rightarrow> u64 \<Rightarrow> (RegionLease, ResourceError) result" where
  "complete live lease actual_mapped_len =
     (if rl_bytes lease \<noteq> actual_mapped_len
      then Err (MappedLengthMismatch (rl_bytes lease) actual_mapped_len)
      else
        case live of
          Liveness.Active \<Rightarrow> Ok lease
        | Poisoned \<Rightarrow> Err ResourcePoisoned
        | Closed \<Rightarrow> Err ResourceClosed)"

definition ActiveReader_new_leased ::
    "LivenessState \<Rightarrow> ActiveOwner \<Rightarrow> usize \<Rightarrow> RegionLease \<Rightarrow> GuardPolicy \<Rightarrow>
     (ActiveReader, ActivationError) result" where
  "ActiveReader_new_leased live ow logical_len reservation guard =
     rbind (map_err Access (ActiveReader_from_owner ow logical_len)) (\<lambda>r.
     rbind (ok_or MappingLengthOverflow (try_from_usize (ow_len ow))) (\<lambda>mapped_len.
     rbind (map_err Resource (complete live reservation mapped_len)) (\<lambda>lease.
       Ok (r\<lparr>ar_guard_requested := guard, ar_lease := Some lease\<rparr>))))"

definition ActiveWriter_new_leased ::
    "LivenessState \<Rightarrow> ActiveOwner \<Rightarrow> usize \<Rightarrow> RegionLease \<Rightarrow> GuardPolicy \<Rightarrow>
     (ActiveWriter, ActivationError) result" where
  "ActiveWriter_new_leased live ow logical_len reservation guard =
     rbind (map_err Access (ActiveWriter_from_owner ow logical_len)) (\<lambda>w.
     rbind (ok_or MappingLengthOverflow (try_from_usize (ow_len ow))) (\<lambda>mapped_len.
     rbind (map_err Resource (complete live reservation mapped_len)) (\<lambda>lease.
       Ok (w\<lparr>aw_guard_requested := guard, aw_lease := Some lease\<rparr>))))"

definition guard_capability :: "ActiveReader \<Rightarrow> GuardCapability" where
  "guard_capability r =
     \<lparr>gc_requested = ar_guard_requested r, gc_installed = ow_guard_installed (ar_owner r)\<rparr>"

section \<open>Ranges\<close>

definition checked_end :: "usize \<Rightarrow> usize \<Rightarrow> usize \<Rightarrow> (usize, AccessError) result" where
  "checked_end off len limit =
     rbind (ok_or OutOfBounds (checked_add_usize off len)) (\<lambda>e.
       if e > limit then Err OutOfBounds else Ok e)"

text \<open>A range is its start and end.\<close>

definition validate_range :: "usize \<times> usize \<Rightarrow> usize \<Rightarrow> (unit, AccessError) result" where
  "validate_range rng limit =
     (if fst rng > snd rng then Err InvalidRange
      else rbind (checked_end (fst rng) (snd rng - fst rng) limit) (\<lambda>_. Ok ()))"

section \<open>Accesses\<close>

text \<open>
  The volatile loads of a read: the peer may store between any two, so the \<open>j\<close>-th load sees the
  \<open>j\<close>-th contents.
\<close>

definition external_read :: "ActiveOwner \<Rightarrow> (nat \<Rightarrow> bytes) \<Rightarrow> usize \<Rightarrow> usize \<Rightarrow> (bytes, AccessError) result" where
  "external_read ow mem off n =
     (if off + n \<le> ow_len ow then Ok (map (\<lambda>j. mem j ! (off + j)) [0..<n]) else Panic)"

definition external_write :: "ActiveOwner \<Rightarrow> bytes \<Rightarrow> usize \<Rightarrow> bytes \<Rightarrow> (bytes, AccessError) result" where
  "external_write ow mem off xs = (if off + length xs \<le> ow_len ow then Ok (write_at mem off xs) else Panic)"

definition read_into ::
    "LivenessState option \<Rightarrow> ActiveReader \<Rightarrow> (nat \<Rightarrow> bytes) \<Rightarrow> usize \<Rightarrow> usize \<Rightarrow> (bytes, AccessError) result" where
  "read_into live r mem off n =
     rbind (ensure_session live) (\<lambda>_.
     rbind (checked_end off n (ar_logical_len r)) (\<lambda>_.
       external_read (ar_owner r) mem off n))"

definition write_from ::
    "LivenessState option \<Rightarrow> ActiveWriter \<Rightarrow> bytes \<Rightarrow> usize \<Rightarrow> bytes \<Rightarrow> (bytes, AccessError) result" where
  "write_from live w mem off source =
     rbind (ensure_session live) (\<lambda>_.
     rbind (checked_end off (length source) (aw_logical_len w)) (\<lambda>_.
       external_write (aw_owner w) mem off source))"

definition ActiveWriter_fill ::
    "LivenessState option \<Rightarrow> ActiveWriter \<Rightarrow> bytes \<Rightarrow> usize \<times> usize \<Rightarrow> u8 \<Rightarrow> (bytes, AccessError) result" where
  "ActiveWriter_fill live w mem rng v =
     rbind (ensure_session live) (\<lambda>_.
     rbind (validate_range rng (aw_logical_len w)) (\<lambda>_.
       external_write (aw_owner w) mem (fst rng) (replicate (snd rng - fst rng) v)))"

subsection \<open>Prefaulting\<close>

text \<open>
  The loop over pages: the offsets touched from \<open>off\<close> on.  Division by a zero page size panics.
\<close>

function touch_loop :: "ActiveOwner \<Rightarrow> usize \<Rightarrow> usize \<Rightarrow> (usize list, AccessError) result" where
  "touch_loop ow e off =
     (if ow_len ow \<le> off then Panic
      else if ow_page_size ow = 0 then Panic
      else
        case checked_add_usize (off div ow_page_size ow) 1 of
          None \<Rightarrow> Err OutOfBounds
        | Some page \<Rightarrow>
            if page * ow_page_size ow > usize_max then Err OutOfBounds
            else
              let next = page * ow_page_size ow in
              if next \<ge> e then Ok [off]
              else rbind (touch_loop ow e next) (\<lambda>rest. Ok (off # rest)))"
  by pat_completeness auto

lemma next_page_above: "0 < (p :: nat) \<Longrightarrow> off < Suc (off div p) * p"
  by (metis dividend_less_div_times mult_Suc add.commute)

lemma next_page_closer:
  "0 < (p :: nat) \<Longrightarrow> \<not> e \<le> p + off div p * p \<Longrightarrow> e - (p + off div p * p) < e - off"
  using next_page_above [of p off] by (intro diff_less_mono2) simp_all

termination touch_loop
  by (relation "measure (\<lambda>(ow, e, off). e - off)")
    (auto simp: checked_add_usize_def next_page_closer split: if_splits)

declare touch_loop.simps [simp del]

definition prefault_read :: "ActiveOwner \<Rightarrow> usize \<Rightarrow> usize \<times> usize \<Rightarrow> (usize list \<times> PrefaultResult, AccessError) result" where
  "prefault_read ow logical_len rng =
     rbind (validate_range rng logical_len) (\<lambda>_.
     let requested = snd rng - fst rng in
     if requested = 0 then Ok ([], \<lparr>pf_requested_bytes = 0, pf_pages_touched = 0\<rparr>)
     else
       rbind (touch_loop ow (snd rng) (fst rng)) (\<lambda>touched.
         Ok (touched, \<lparr>pf_requested_bytes = requested, pf_pages_touched = length touched\<rparr>)))"

definition ActiveReader_prefault ::
    "LivenessState option \<Rightarrow> ActiveReader \<Rightarrow> usize \<times> usize \<Rightarrow> (usize list \<times> PrefaultResult, AccessError) result" where
  "ActiveReader_prefault live r rng =
     rbind (ensure_session live) (\<lambda>_. prefault_read (ar_owner r) (ar_logical_len r) rng)"

text \<open>A writer then stores each touched byte's own value again.\<close>

definition ActiveWriter_prefault ::
    "LivenessState option \<Rightarrow> ActiveWriter \<Rightarrow> bytes \<Rightarrow> usize \<times> usize \<Rightarrow>
     (bytes \<times> usize list \<times> PrefaultResult, AccessError) result" where
  "ActiveWriter_prefault live w mem rng =
     rbind (ensure_session live) (\<lambda>_.
     rbind (prefault_read (aw_owner w) (aw_logical_len w) rng) (\<lambda>res.
     if fst rng < snd rng then
       rbind (touch_loop (aw_owner w) (snd rng) (fst rng)) (\<lambda>touched.
         Ok (fold (\<lambda>off mem. mem[off := mem ! off]) touched mem, touched, snd res))
     else Ok (mem, [], snd res)))"

section \<open>Ranges and accesses\<close>

lemma ensure_session_Ok [outcome]:
  "ensure_session live = Ok () \<longleftrightarrow> live \<in> {None, Some Liveness.Active}"
  by (auto simp: ensure_session_def split: option.splits LivenessState.splits)

lemma ensure_session_cases:
  "ensure_session live = (if live \<in> {None, Some Liveness.Active} then Ok () else Err SessionInactive)"
  by (auto simp: ensure_session_def split: option.splits LivenessState.splits)

lemma checked_end_eq:
  "limit \<le> usize_max \<Longrightarrow>
     checked_end off n limit = (if off + n \<le> limit then Ok (off + n) else Err OutOfBounds)"
  by (auto simp: checked_end_def checked_add_usize_def)

lemma validate_range_eq:
  "limit \<le> usize_max \<Longrightarrow>
     validate_range rng limit =
     (if fst rng > snd rng then Err InvalidRange else if snd rng \<le> limit then Ok () else Err OutOfBounds)"
  by (auto simp: validate_range_def checked_end_eq)

section \<open>Prefaulting\<close>

lemma next_page_fits:
  assumes "off < 2 ^ 63" "0 < p" "p \<le> 2 ^ 63"
  shows "Suc (off div p) * p \<le> usize_max" "Suc (off div p) \<le> usize_max"
proof -
  have "off div p * p < 2 ^ 63" by (rule le_less_trans [OF _ assms(1)]) simp
  then have "off div p * p + p < 2 ^ 63 + 2 ^ 63" using assms(3) by (rule add_less_le_mono)
  then show "Suc (off div p) * p \<le> usize_max" by (simp add: usize_max_def)
  have "off div p < 2 ^ 63" by (rule le_less_trans [OF _ assms(1)]) simp
  then show "Suc (off div p) \<le> usize_max" by (simp add: usize_max_def)
qed

lemma touch_loop_step:
  assumes "off < ow_len ow" "ow_len ow < 2 ^ 63" "0 < ow_page_size ow" "ow_page_size ow \<le> 2 ^ 63"
  shows "touch_loop ow e off =
    (let next = Suc (off div ow_page_size ow) * ow_page_size ow in
     if next \<ge> e then Ok [off] else rbind (touch_loop ow e next) (\<lambda>rest. Ok (off # rest)))"
  using assms next_page_fits [of off "ow_page_size ow"]
  by (subst touch_loop.simps) (simp add: checked_add_usize_def not_less)

lemma touched_pages:
  assumes "off < e" "e \<le> ow_len ow" "ow_len ow < 2 ^ 63" "0 < ow_page_size ow" "ow_page_size ow \<le> 2 ^ 63"
  shows "\<exists>ts. touch_loop ow e off = Ok ts \<and> (\<forall>t \<in> set ts. off \<le> t \<and> t < e) \<and>
    map (\<lambda>t. t div ow_page_size ow) ts = [off div ow_page_size ow..<Suc ((e - 1) div ow_page_size ow)]"
  using assms(1)
proof (induction "e - off" arbitrary: off rule: less_induct)
  case less
  define p nx where "p = ow_page_size ow" and "nx = Suc (off div p) * p"
  have above: "off < nx" unfolding nx_def using assms(4) by (intro next_page_above) (simp add: p_def)
  have step: "touch_loop ow e off =
      (if nx \<ge> e then Ok [off] else rbind (touch_loop ow e nx) (\<lambda>rest. Ok (off # rest)))"
    using touch_loop_step [of off ow e] less.prems assms by (simp add: Let_def nx_def p_def)
  show ?case
  proof (cases "nx \<ge> e")
    case True
    moreover have "off div p * p \<le> e - 1"
      using less.prems div_times_less_eq_dividend [of off p] by linarith
    ultimately have "(e - 1) div p = off div p"
      using less.prems by (intro div_nat_eqI) (auto simp: mult.commute nx_def)
    then show ?thesis using True step less.prems by (simp add: p_def)
  next
    case False
    then have n: "nx < e" by simp
    have page: "nx div p = Suc (off div p)" using assms(4) by (simp add: nx_def p_def del: mult_Suc)
    obtain ts where ts: "touch_loop ow e nx = Ok ts" "\<forall>t \<in> set ts. nx \<le> t \<and> t < e"
      "map (\<lambda>t. t div p) ts = [nx div p..<Suc ((e - 1) div p)]"
      using less.hyps [of nx] above n unfolding p_def by (meson diff_less_mono2 less_trans)
    have "nx div p \<le> (e - 1) div p" using n by (intro div_le_mono) simp
    then have "map (\<lambda>t. t div p) (off # ts) = [off div p..<Suc ((e - 1) div p)]"
      using ts(3) page by (simp add: upt_conv_Cons)
    moreover have "touch_loop ow e off = Ok (off # ts)" using False step ts(1) by simp
    moreover have "\<forall>t \<in> set (off # ts). off \<le> t \<and> t < e" using ts(2) above n by fastforce
    ultimately show ?thesis unfolding p_def by blast
  qed
qed

lemma prefault_read_pages:
  assumes "a < e" "e \<le> n" "n \<le> ow_len ow" "ow_len ow < 2 ^ 63" "0 < ow_page_size ow" "ow_page_size ow \<le> 2 ^ 63"
  obtains ts where
    "prefault_read ow n (a, e) = Ok (ts, \<lparr>pf_requested_bytes = e - a, pf_pages_touched = length ts\<rparr>)"
    "touch_loop ow e a = Ok ts"
    "\<forall>t \<in> set ts. a \<le> t \<and> t < e"
    "map (\<lambda>t. t div ow_page_size ow) ts = [a div ow_page_size ow..<Suc ((e - 1) div ow_page_size ow)]"
proof -
  obtain ts where ts: "touch_loop ow e a = Ok ts" "\<forall>t \<in> set ts. a \<le> t \<and> t < e"
    "map (\<lambda>t. t div ow_page_size ow) ts = [a div ow_page_size ow..<Suc ((e - 1) div ow_page_size ow)]"
    using touched_pages [of a e ow] assms by auto
  have "n \<le> usize_max" using assms(3,4) by (simp add: usize_max_def)
  then have "prefault_read ow n (a, e) = Ok (ts, \<lparr>pf_requested_bytes = e - a, pf_pages_touched = length ts\<rparr>)"
    using ts(1) assms(1,2) by (simp add: prefault_read_def validate_range_eq Let_def)
  then show thesis using ts by (rule that)
qed

lemma same_value_stores: "fold (\<lambda>off mem. mem) ts mem = mem"
  by (induction ts) auto

lemma new_leased_reader:
  assumes "ActiveReader_new_leased live ow n lease g = Ok r"
  shows "ar_owner r = ow" "ar_logical_len r = n" "0 < n" "n \<le> ow_len ow" "0 < ow_page_size ow"
    "live = Liveness.Active" "unat (rl_bytes lease) = ow_len ow" "n \<le> usize_max"
  using assms
  by (auto simp: usize_max_def ActiveReader_new_leased_def ActiveReader_from_owner_def complete_def outcome
      split: if_splits LivenessState.splits)

lemma new_leased_writer:
  assumes "ActiveWriter_new_leased live ow n lease g = Ok w"
  shows "aw_owner w = ow" "aw_logical_len w = n" "0 < n" "n \<le> ow_len ow" "0 < ow_page_size ow"
    "live = Liveness.Active" "unat (rl_bytes lease) = ow_len ow" "n \<le> usize_max"
  using assms
  by (auto simp: usize_max_def ActiveWriter_new_leased_def ActiveWriter_from_owner_def complete_def outcome
      split: if_splits LivenessState.splits)

lemma leased_write:
  "ActiveWriter_new_leased live ow n lease g = Ok w \<Longrightarrow>
     write_from (Some now) w mem off xs =
      (if now \<noteq> Liveness.Active then Err SessionInactive
       else if n < off + length xs then Err OutOfBounds else Ok (write_at mem off xs))"
  using new_leased_writer [of live ow n lease g w]
  by (simp add: write_from_def ensure_session_cases checked_end_eq external_write_def)

lemma leased_fill:
  "ActiveWriter_new_leased live ow n lease g = Ok w \<Longrightarrow>
     ActiveWriter_fill (Some now) w mem (a, e) v =
      (if now \<noteq> Liveness.Active then Err SessionInactive
       else if e < a then Err InvalidRange
       else if n < e then Err OutOfBounds else Ok (write_at mem a (replicate (e - a) v)))"
  using new_leased_writer [of live ow n lease g w]
  by (simp add: ActiveWriter_fill_def ensure_session_cases validate_range_eq external_write_def)

lemma leased_read:
  "ActiveReader_new_leased live ow n lease g = Ok r \<Longrightarrow> length mem = ow_len ow \<Longrightarrow>
     read_into (Some now) r (\<lambda>_. mem) off k =
      (if now \<noteq> Liveness.Active then Err SessionInactive
       else if n < off + k then Err OutOfBounds else Ok (take k (drop off mem)))"
  using new_leased_reader [of live ow n lease g r]
  by (auto simp: read_into_def ensure_session_cases checked_end_eq external_read_def
      list_eq_iff_nth_eq)

section \<open>Properties\<close>

text \<open>C36: Every access to a committed region is decided by the session state and the bounds alone: a
  poisoned or closed session refuses it, a range past the logical length is out of bounds, a range
  that starts after its end is invalid, and everything else succeeds without touching a byte outside
  the mapping.  A write changes exactly the bytes of its range, and a reader of the same region that
  is not raced reads them back.\<close>

theorem leased_access_exact:
  assumes w: "ActiveWriter_new_leased live ow n lease g = Ok w"
    and r: "ActiveReader_new_leased live' ow' n lease' g' = Ok r"
    and mem: "length mem = ow_len ow" "ow_len ow' = ow_len ow"
  shows "write_from (Some now) w mem off xs =
      (if now \<noteq> Liveness.Active then Err SessionInactive
       else if n < off + length xs then Err OutOfBounds else Ok (write_at mem off xs)) \<and>
    ActiveWriter_fill (Some now) w mem (a, e) v =
      (if now \<noteq> Liveness.Active then Err SessionInactive
       else if e < a then Err InvalidRange
       else if n < e then Err OutOfBounds else Ok (write_at mem a (replicate (e - a) v))) \<and>
    read_into (Some now) r (\<lambda>_. mem) off k =
      (if now \<noteq> Liveness.Active then Err SessionInactive
       else if n < off + k then Err OutOfBounds else Ok (take k (drop off mem))) \<and>
    (\<forall>mem'. write_from (Some now) w mem off xs = Ok mem' \<longrightarrow>
      length mem' = length mem \<and> read_into (Some now) r (\<lambda>_. mem') off (length xs) = Ok xs \<and>
      (\<forall>i. i < off \<or> off + length xs \<le> i \<longrightarrow> mem' ! i = mem ! i))"
proof -
  note stored = leased_write [OF w] and read = leased_read [OF r]
  have "length mem' = length mem \<and> read_into (Some now) r (\<lambda>_. mem') off (length xs) = Ok xs \<and>
      (\<forall>i. i < off \<or> off + length xs \<le> i \<longrightarrow> mem' ! i = mem ! i)"
    if "write_from (Some now) w mem off xs = Ok mem'" for mem'
  proof -
    have ok: "now = Liveness.Active" "off + length xs \<le> n" "mem' = write_at mem off xs"
      using that by (auto simp: stored split: if_splits)
    then have "off + length xs \<le> length mem" using mem(1) new_leased_writer(4) [OF w] by simp
    then show ?thesis using ok mem by (auto simp: read write_at_def nth_append)
  qed
  then show ?thesis
    by (intro conjI stored leased_fill [OF w] read) (use mem in auto)
qed

definition example_owner :: ActiveOwner where
  "example_owner =
     \<lparr>ow_ptr = 8192, ow_mut_ptr = 8192, ow_len = 8, ow_page_size = 4, ow_guard_installed = False\<rparr>"

definition example_lease :: RegionLease where
  "example_lease = \<lparr>rl_bytes = 8, rl_bytes_returned = False\<rparr>"

definition example_writer :: ActiveWriter where
  "example_writer =
     \<lparr>aw_owner = example_owner, aw_lease = Some example_lease, aw_logical_len = 6, aw_guard_requested = BestEffort\<rparr>"

definition example_reader :: ActiveReader where
  "example_reader =
     \<lparr>ar_owner = example_owner, ar_lease = Some example_lease, ar_logical_len = 6, ar_guard_requested = BestEffort\<rparr>"

lemma example_mapping:
  "ActiveWriter_new_leased Liveness.Active example_owner 6 example_lease BestEffort = Ok example_writer"
  "ActiveReader_new_leased Liveness.Active example_owner 6 example_lease BestEffort = Ok example_reader"
  "ow_len example_owner = 8" "ow_page_size example_owner = 4"
  by (simp_all add: ActiveWriter_new_leased_def ActiveWriter_from_owner_def ActiveReader_new_leased_def
      ActiveReader_from_owner_def complete_def example_owner_def example_lease_def example_writer_def
      example_reader_def try_from_usize_def)

theorem leased_access_exact_witness:
  "write_from (Some Liveness.Active) example_writer (replicate 8 0) 2 [7, 9] = Ok [0, 0, 7, 9, 0, 0, 0, 0] \<and>
   read_into (Some Liveness.Active) example_reader (\<lambda>_. replicate 8 1) 5 2 = Err OutOfBounds \<and>
   ActiveWriter_fill (Some Liveness.Active) example_writer (replicate 8 0) (4, 3) 1 = Err InvalidRange"
  using leased_access_exact [OF example_mapping(1,2), of "replicate 8 0" Liveness.Active 2 "[7, 9]" 4 3 1]
    leased_access_exact [OF example_mapping(1,2), of "replicate 8 1" Liveness.Active 5 "[]" 4 3 1 2]
  by (simp add: example_mapping(3) write_at_def numeral_eq_Suc)

lemma prefault_branches:
  assumes w: "ActiveWriter_new_leased live ow n lease g = Ok w"
  shows "now \<noteq> Liveness.Active \<Longrightarrow> ActiveWriter_prefault (Some now) w mem (a, e) = Err SessionInactive"
    and "e < a \<Longrightarrow> ActiveWriter_prefault (Some Liveness.Active) w mem (a, e) = Err InvalidRange"
    and "a \<le> e \<Longrightarrow> n < e \<Longrightarrow> ActiveWriter_prefault (Some Liveness.Active) w mem (a, e) = Err OutOfBounds"
    and "a \<le> n \<Longrightarrow> ActiveWriter_prefault (Some Liveness.Active) w mem (a, a) =
        Ok (mem, [], \<lparr>pf_requested_bytes = 0, pf_pages_touched = 0\<rparr>)"
  using new_leased_writer [OF w]
  by (simp_all add: ActiveWriter_prefault_def ensure_session_cases prefault_read_def validate_range_eq)

text \<open>C37: Prefaulting returns for every range of an active region: one that starts after its end or
  leaves the logical length is refused, an empty one touches nothing, and every other touches
  exactly one byte of each page it covers, in order and inside the range, reports that count, and
  leaves the contents unchanged.\<close>

theorem prefault_touches_each_page:
  assumes w: "ActiveWriter_new_leased live ow n lease g = Ok w"
    and sizes: "ow_len ow < 2 ^ 63" "ow_page_size ow \<le> 2 ^ 63"
  shows "if e < a then ActiveWriter_prefault (Some Liveness.Active) w mem (a, e) = Err InvalidRange
    else if n < e then ActiveWriter_prefault (Some Liveness.Active) w mem (a, e) = Err OutOfBounds
    else if a = e then ActiveWriter_prefault (Some Liveness.Active) w mem (a, e) =
        Ok (mem, [], \<lparr>pf_requested_bytes = 0, pf_pages_touched = 0\<rparr>)
    else \<exists>ts. ActiveWriter_prefault (Some Liveness.Active) w mem (a, e) =
          Ok (mem, ts, \<lparr>pf_requested_bytes = e - a, pf_pages_touched = length ts\<rparr>) \<and>
        map (\<lambda>t. t div ow_page_size ow) ts =
          [a div ow_page_size ow..<Suc ((e - 1) div ow_page_size ow)] \<and>
        (\<forall>t \<in> set ts. a \<le> t \<and> t < e)"
proof (cases "a < e \<and> e \<le> n")
  case True
  note owner = new_leased_writer [OF w]
  obtain ts where ts: "prefault_read ow n (a, e) = Ok (ts, \<lparr>pf_requested_bytes = e - a, pf_pages_touched = length ts\<rparr>)"
    "touch_loop ow e a = Ok ts" "\<forall>t \<in> set ts. a \<le> t \<and> t < e"
    "map (\<lambda>t. t div ow_page_size ow) ts = [a div ow_page_size ow..<Suc ((e - 1) div ow_page_size ow)]"
    using prefault_read_pages [of a e n ow] True owner sizes by blast
  then have "ActiveWriter_prefault (Some Liveness.Active) w mem (a, e) =
      Ok (mem, ts, \<lparr>pf_requested_bytes = e - a, pf_pages_touched = length ts\<rparr>)"
    using True owner by (simp add: ActiveWriter_prefault_def ensure_session_cases same_value_stores)
  then show ?thesis using True ts by auto
next
  case False
  then consider "e < a" | "a \<le> e" "n < e" | "a = e" "e \<le> n" by linarith
  then show ?thesis by cases (simp_all add: prefault_branches [OF w])
qed

theorem prefault_touches_each_page_witness:
  "\<exists>ts. ActiveWriter_prefault (Some Liveness.Active) example_writer (replicate 8 0) (1, 6) =
      Ok (replicate 8 0, ts, \<lparr>pf_requested_bytes = 5, pf_pages_touched = length ts\<rparr>) \<and>
    map (\<lambda>t. t div 4) ts = [0, 1]"
  using prefault_touches_each_page [OF example_mapping(1), of 6 1 "replicate 8 0"]
  by (auto simp: example_mapping(3,4) upt_rec)

end
