(* ===== verification/Batch.thy ===== *)
theory Batch
  imports Active Protocol_Correct
begin

text \<open>
  Transfer transactions and the keyed set of committed regions, \<^verbatim>\<open>native-ipc/src/batch.rs\<close>.  The ordered
  map of committed regions is its list of entries in key order.
\<close>

section \<open>Errors and expectations\<close>

datatype BatchError =
    InvalidLimits
  | Empty
  | TooManyRegions
  | DuplicateRegionId RegionId
  | BatchBytesExceeded
  | InvalidRegionLength
  | UnknownRegion RegionId
  | WrongDirection RegionId
  | CommitMismatch

record TransferBatch =
  tb_regions :: "PreparedRegion list"
  tb_max_regions :: usize
  tb_max_region_bytes :: u64
  tb_max_batch_bytes :: u64
  tb_total_logical :: u64
  tb_total_mapped :: u64

record ExpectedRegion =
  er_id :: RegionId
  er_writer :: WriterEndpoint
  er_logical_len :: usize

record ExpectedBatch =
  eb_regions :: "ExpectedRegion list"
  eb_total_logical :: u64

text \<open>The first identity that equals its successor in a sorted list.\<close>

fun first_duplicate :: "RegionId list \<Rightarrow> RegionId option" where
  "first_duplicate (a # b # ids) = (if a = b then Some a else first_duplicate (b # ids))"
| "first_duplicate _ = None"

definition add_expected :: "ExpectedRegion \<Rightarrow> u64 \<Rightarrow> (u64, BatchError) result" where
  "add_expected region so_far =
     (case try_from_usize (er_logical_len region) of
        None \<Rightarrow> Err InvalidRegionLength
      | Some logical \<Rightarrow>
          if logical = 0 then Err InvalidRegionLength
          else ok_or BatchBytesExceeded (checked_add so_far logical))"

text \<open>The sort need not be stable: equal identities are rejected right after it.\<close>

definition try_from_regions :: "ExpectedRegion list \<Rightarrow> (ExpectedBatch, BatchError) result" where
  "try_from_regions regions =
     (if regions = [] then Err Empty
      else if length regions > 16 then Err TooManyRegions
      else
        let regions = sort_key er_id regions in
        case first_duplicate (map er_id regions) of
          Some duplicate \<Rightarrow> Err (DuplicateRegionId duplicate)
        | None \<Rightarrow>
            rbind (for_each add_expected regions 0) (\<lambda>total_logical.
              Ok \<lparr>eb_regions = regions, eb_total_logical = total_logical\<rparr>))"

section \<open>Building a transfer\<close>

definition TransferBatch_new :: "u16 \<Rightarrow> u64 \<Rightarrow> u64 \<Rightarrow> (TransferBatch, BatchError) result" where
  "TransferBatch_new max_regions region_bytes batch_bytes =
     (let max_regions = unat max_regions in
      if max_regions = 0 \<or> max_regions > 16 then Err TooManyRegions
      else if region_bytes = 0 \<or> batch_bytes = 0 then Err InvalidLimits
      else
        Ok \<lparr>tb_regions = [], tb_max_regions = max_regions, tb_max_region_bytes = region_bytes,
            tb_max_batch_bytes = batch_bytes, tb_total_logical = 0, tb_total_mapped = 0\<rparr>)"

text \<open>A rejected region is dropped and the batch stays as it was.\<close>

definition add :: "TransferBatch \<Rightarrow> PreparedRegion \<Rightarrow> (TransferBatch, BatchError) result" where
  "add t region =
     (if length (tb_regions t) = tb_max_regions t then Err TooManyRegions
      else
        let id = spec_id (pq_spec region) in
        if list_ex (\<lambda>existing. spec_id (pq_spec existing) = id) (tb_regions t)
        then Err (DuplicateRegionId id)
        else
          rbind (ok_or BatchBytesExceeded (try_from_usize (prepared_logical_len region))) (\<lambda>logical.
          rbind (prepared_mapped_len region) (\<lambda>mapped_len.
          rbind (ok_or BatchBytesExceeded (try_from_usize mapped_len)) (\<lambda>mapped.
          if logical > tb_max_region_bytes t then Err InvalidRegionLength
          else
            rbind (ok_or BatchBytesExceeded (checked_add (tb_total_logical t) logical)) (\<lambda>total_logical.
            rbind (ok_or BatchBytesExceeded (checked_add (tb_total_mapped t) mapped)) (\<lambda>total_mapped.
            if total_logical > tb_max_batch_bytes t \<or> total_mapped > tb_max_batch_bytes t
            then Err BatchBytesExceeded
            else
              Ok (t\<lparr>tb_total_logical := total_logical, tb_total_mapped := total_mapped,
                   tb_regions := tb_regions t @ [region]\<rparr>)))))))"

definition keyed_length :: "PreparedRegion \<Rightarrow> (RegionId \<times> u64) list \<Rightarrow> ((RegionId \<times> u64) list, BatchError) result" where
  "keyed_length region done_so_far =
     rbind (prepared_mapped_len region) (\<lambda>n.
     rbind (expect (try_from_usize n)) (\<lambda>mapped.
       Ok (done_so_far @ [(spec_id (pq_spec region), mapped)])))"

definition reservation_lengths :: "TransferBatch \<Rightarrow> (u64 list, BatchError) result" where
  "reservation_lengths t =
     rbind (for_each keyed_length (tb_regions t) []) (\<lambda>lengths.
       Ok (map snd (sort_key fst lengths)))"

definition manifest_entry :: "PreparedRegion \<Rightarrow> ManifestEntry list \<Rightarrow> (ManifestEntry list, unit) result" where
  "manifest_entry region done_so_far =
     (let access = (case spec_writer (pq_spec region) of
        Coordinator \<Rightarrow> PeerAccess.ReadOnly | Receiver \<Rightarrow> SoleWriter) in
      rbind (native_spec (pq_request region) (RegionId_get (spec_id (pq_spec region)))) (\<lambda>spec.
        Ok (done_so_far @ [from_native spec access])))"

definition manifest_entries :: "PreparedRegion list \<Rightarrow> (ManifestEntry list, unit) result" where
  "manifest_entries regions = for_each manifest_entry regions []"

record PendingBatch =
  pb_regions :: "PreparedRegion list"
  pb_total_logical :: u64
  pb_total_mapped :: u64

definition into_pending :: "TransferBatch \<Rightarrow> (PendingBatch, BatchError) result" where
  "into_pending t =
     (if tb_regions t = [] then Err Empty
      else
        Ok \<lparr>pb_regions = tb_regions t, pb_total_logical = tb_total_logical t,
            pb_total_mapped = tb_total_mapped t\<rparr>)"

section \<open>Committed regions\<close>

datatype CommittedRegion = Reader ActiveReader | Writer ActiveWriter

datatype LocalRegionAuthority = LocalReader | LocalWriter

type_synonym ActiveRegionSet = "(RegionId \<times> CommittedRegion) list"

definition insert_region ::
    "RegionId \<times> CommittedRegion \<Rightarrow> ActiveRegionSet \<Rightarrow> (ActiveRegionSet, BatchError) result" where
  "insert_region entry keyed =
     (case map_of keyed (fst entry) of
        Some _ \<Rightarrow> Err (DuplicateRegionId (fst entry))
      | None \<Rightarrow> Ok (insort_key fst entry keyed))"

definition check_authority ::
    "ActiveRegionSet \<Rightarrow> RegionId \<times> LocalRegionAuthority \<Rightarrow> (unit, BatchError) result" where
  "check_authority keyed e =
     (case (snd e, map_of keyed (fst e)) of
        (LocalWriter, Some (Writer _)) \<Rightarrow> Ok ()
      | (LocalReader, Some (Reader _)) \<Rightarrow> Ok ()
      | _ \<Rightarrow> Err CommitMismatch)"

definition from_local_committed ::
    "(RegionId \<times> LocalRegionAuthority) list \<Rightarrow> (RegionId \<times> CommittedRegion) list \<Rightarrow>
     (ActiveRegionSet, BatchError) result" where
  "from_local_committed expected regions =
     (if length expected > 16 then Err CommitMismatch
      else
        let expected = sort_key fst expected in
        case first_duplicate (map fst expected) of
          Some duplicate \<Rightarrow> Err (DuplicateRegionId duplicate)
        | None \<Rightarrow>
            rbind (for_each insert_region regions []) (\<lambda>keyed.
            if length keyed \<noteq> length expected \<or> length keyed > 16 then Err CommitMismatch
            else
              rbind (for_each (\<lambda>e _. check_authority keyed e) expected ()) (\<lambda>_.
                Ok keyed)))"

definition local_authority :: "PreparedRegion \<Rightarrow> RegionId \<times> LocalRegionAuthority" where
  "local_authority region =
     (spec_id (pq_spec region),
      case spec_writer (pq_spec region) of Coordinator \<Rightarrow> LocalWriter | Receiver \<Rightarrow> LocalReader)"

definition from_committed ::
    "PendingBatch \<Rightarrow> (RegionId \<times> CommittedRegion) list \<Rightarrow> (ActiveRegionSet, BatchError) result" where
  "from_committed pending regions = from_local_committed (map local_authority (pb_regions pending)) regions"

definition take_writer :: "ActiveRegionSet \<Rightarrow> RegionId \<Rightarrow> ActiveRegionSet \<times> (ActiveWriter, BatchError) result" where
  "take_writer regions ident =
     (case map_of regions ident of
        None \<Rightarrow> (regions, Err (UnknownRegion ident))
      | Some (Reader _) \<Rightarrow> (regions, Err (WrongDirection ident))
      | Some (Writer w) \<Rightarrow> (filter (\<lambda>e. fst e \<noteq> ident) regions, Ok w))"

definition take_reader :: "ActiveRegionSet \<Rightarrow> RegionId \<Rightarrow> ActiveRegionSet \<times> (ActiveReader, BatchError) result" where
  "take_reader regions ident =
     (case map_of regions ident of
        None \<Rightarrow> (regions, Err (UnknownRegion ident))
      | Some (Writer _) \<Rightarrow> (regions, Err (WrongDirection ident))
      | Some (Reader r) \<Rightarrow> (filter (\<lambda>e. fst e \<noteq> ident) regions, Ok r))"

section \<open>Sorted identities\<close>

lemma first_duplicate_None:
  assumes "sorted ids"
  shows "first_duplicate ids = None \<longleftrightarrow> distinct ids"
  using assms
proof (induction ids rule: first_duplicate.induct)
  case (1 a b ids)
  have "a < b \<Longrightarrow> a \<notin> set (b # ids)" using 1(2) by auto
  then show ?case using 1 by (cases "a = b") (auto simp: order.strict_iff_order)
qed simp_all

lemma distinct_map_sort: "distinct (map f (sort_key g xs)) \<longleftrightarrow> distinct (map f xs)"
  by (rule mset_eq_imp_distinct_iff) simp

lemma first_duplicate_sort:
  "first_duplicate (map f (sort_key f xs)) = None \<longleftrightarrow> distinct (map f xs)"
  by (simp add: first_duplicate_None distinct_map_sort)

section \<open>Building a transfer\<close>

text \<open>What allocation and preparation give every prepared region.\<close>

definition prepared_ok :: "PreparedRegion \<Rightarrow> bool" where
  "prepared_ok q \<longleftrightarrow>
     (\<exists>b. sq_inner (pq_request q) = Some b \<and> sq_logical_len (pq_request q) \<le> length b \<and>
        length b < 2 ^ 64) \<and>
     0 < sq_logical_len (pq_request q) \<and> RegionId_get (spec_id (pq_spec q)) \<noteq> 0 \<and>
     sq_incarnation (pq_request q) \<noteq> replicate 16 0"

lemma prepare_prepared_ok:
  assumes "region_ok (pr_inner r)" "nr_inner (pr_inner r) = Some b" "length b < 2 ^ 64"
    and "i \<noteq> replicate 16 0" "RegionId_new v = Some (spec_id spec)" "fst (prepare (Some i) spec r) = Ok q"
  shows "prepared_ok q"
proof -
  have "RegionId_get (spec_id spec) \<noteq> 0"
    using assms(5) by (metis RegionId_get.simps RegionId_new_def option.distinct(1) option.inject)
  then show ?thesis using assms by (auto simp: prepare_Ok region_ok_def prepared_ok_def)
qed

definition mapped_of :: "PreparedRegion \<Rightarrow> nat" where
  "mapped_of q = length (the (sq_inner (pq_request q)))"

definition batch_ok :: "TransferBatch \<Rightarrow> bool" where
  "batch_ok t \<longleftrightarrow>
     tb_max_regions t \<le> 16 \<and> length (tb_regions t) \<le> tb_max_regions t \<and>
     distinct (map (\<lambda>q. spec_id (pq_spec q)) (tb_regions t)) \<and>
     (\<forall>q \<in> set (tb_regions t). prepared_ok q \<and> sq_logical_len (pq_request q) \<le> unat (tb_max_region_bytes t)) \<and>
     unat (tb_total_logical t) = sum_list (map (\<lambda>q. sq_logical_len (pq_request q)) (tb_regions t)) \<and>
     unat (tb_total_mapped t) = sum_list (map mapped_of (tb_regions t)) \<and>
     tb_total_logical t \<le> tb_max_batch_bytes t \<and> tb_total_mapped t \<le> tb_max_batch_bytes t"

lemma TransferBatch_new_ok:
  "TransferBatch_new n region batch = Ok t \<Longrightarrow>
     batch_ok t \<and> tb_max_regions t = unat n \<and> tb_max_region_bytes t = region \<and> tb_max_batch_bytes t = batch"
  by (auto simp: TransferBatch_new_def batch_ok_def Let_def split: if_splits)

lemma checked_add_u64: "checked_add x y = Some (z :: u64) \<longleftrightarrow> unat z = unat x + unat y"
  using unat_lt_pow [of z] by (auto simp: checked_add_def word_unat_eq_iff unat_word_ariths)

lemma unat_word_of_nat: "n < 2 ^ 64 \<Longrightarrow> unat (word_of_nat n :: u64) = n"
  by (simp add: unat_of_nat take_bit_nat_eq_self)

lemma unat_add_word_of_nat: "unat (x :: u64) + n < 2 ^ 64 \<Longrightarrow> unat (x + word_of_nat n) = unat x + n"
  by (simp add: unat_word_ariths unat_of_nat take_bit_nat_eq_self)

lemma add_Ok:
  assumes "add t q = Ok t'"
  obtains b where "sq_inner (pq_request q) = Some b" "length (tb_regions t) \<noteq> tb_max_regions t"
    "\<forall>q' \<in> set (tb_regions t). spec_id (pq_spec q') \<noteq> spec_id (pq_spec q)"
    "sq_logical_len (pq_request q) \<le> unat (tb_max_region_bytes t)"
    "unat (tb_total_logical t') = unat (tb_total_logical t) + sq_logical_len (pq_request q)"
    "unat (tb_total_mapped t') = unat (tb_total_mapped t) + length b"
    "tb_total_logical t' \<le> tb_max_batch_bytes t" "tb_total_mapped t' \<le> tb_max_batch_bytes t"
    "tb_regions t' = tb_regions t @ [q]" "tb_max_regions t' = tb_max_regions t"
    "tb_max_region_bytes t' = tb_max_region_bytes t" "tb_max_batch_bytes t' = tb_max_batch_bytes t"
proof -
  obtain b where "sq_inner (pq_request q) = Some b"
    using assms by (auto simp: add_def Let_def outcome prepared_mapped_len_def split: if_splits)
  then show thesis
    using assms that [of b]
    by (auto simp: add_def Let_def outcome prepared_mapped_len_def prepared_logical_len_def list_ex_iff
        checked_add_u64 not_less word_le_nat_alt unat_word_of_nat unat_add_word_of_nat split: if_splits)
qed

lemma add_ok:
  assumes "batch_ok t" "prepared_ok q" "add t q = Ok t'"
  shows "batch_ok t' \<and> tb_regions t' = tb_regions t @ [q] \<and> tb_max_regions t' = tb_max_regions t \<and>
    tb_max_region_bytes t' = tb_max_region_bytes t \<and> tb_max_batch_bytes t' = tb_max_batch_bytes t"
proof -
  obtain b where b: "sq_inner (pq_request q) = Some b" "length (tb_regions t) \<noteq> tb_max_regions t"
    "\<forall>q' \<in> set (tb_regions t). spec_id (pq_spec q') \<noteq> spec_id (pq_spec q)"
    "sq_logical_len (pq_request q) \<le> unat (tb_max_region_bytes t)"
    "unat (tb_total_logical t') = unat (tb_total_logical t) + sq_logical_len (pq_request q)"
    "unat (tb_total_mapped t') = unat (tb_total_mapped t) + length b"
    "tb_total_logical t' \<le> tb_max_batch_bytes t" "tb_total_mapped t' \<le> tb_max_batch_bytes t"
    "tb_regions t' = tb_regions t @ [q]" "tb_max_regions t' = tb_max_regions t"
    "tb_max_region_bytes t' = tb_max_region_bytes t" "tb_max_batch_bytes t' = tb_max_batch_bytes t"
    using add_Ok [OF assms(3)] .
  have "spec_id (pq_spec q) \<notin> (\<lambda>q. spec_id (pq_spec q)) ` set (tb_regions t)"
    using b(3) by (metis imageE)
  then show ?thesis using assms(1,2) b unfolding batch_ok_def by (auto simp: mapped_of_def)
qed

lemma add_no_panic: "prepared_ok q \<Longrightarrow> add t q \<noteq> Panic"
  by (auto simp: add_def Let_def outcome prepared_ok_def prepared_mapped_len_def)

text \<open>The batches an application can build.\<close>

inductive batch_run :: "u16 \<Rightarrow> u64 \<Rightarrow> u64 \<Rightarrow> TransferBatch \<Rightarrow> bool" for n region batch where
  new: "TransferBatch_new n region batch = Ok t \<Longrightarrow> batch_run n region batch t"
| add: "batch_run n region batch t \<Longrightarrow> prepared_ok q \<Longrightarrow> add t q = Ok t' \<Longrightarrow> batch_run n region batch t'"

lemma batch_run_ok:
  "batch_run n region batch t \<Longrightarrow>
     batch_ok t \<and> tb_max_regions t = unat n \<and> tb_max_region_bytes t = region \<and> tb_max_batch_bytes t = batch"
proof (induction rule: batch_run.induct)
  case (new t)
  then show ?case by (rule TransferBatch_new_ok)
next
  case (add t q t')
  then show ?case using add_ok [of t q t'] by auto
qed

definition entry_of :: "PreparedRegion \<Rightarrow> ManifestEntry" where
  "entry_of q =
     \<lparr>me_region_id = RegionId_get (spec_id (pq_spec q)), me_incarnation = sq_incarnation (pq_request q),
      me_writer = writer_raw (pp_writer (sq_permissions (pq_request q))),
      me_access = (case spec_writer (pq_spec q) of Coordinator \<Rightarrow> PeerAccess.ReadOnly | Receiver \<Rightarrow> SoleWriter),
      me_logical_len = word_of_nat (sq_logical_len (pq_request q)), me_mapped_len = word_of_nat (mapped_of q),
      me_ordinal = 0, me_flags = REQUIRED_ENTRY_FLAGS\<rparr>"

lemma manifest_entry_eq: "prepared_ok q \<Longrightarrow> manifest_entry q es = Ok (es @ [entry_of q])"
  by (auto simp: manifest_entry_def native_spec_def request_mapped_len_def NativeRegionSpec_new_def prepared_ok_def
      try_from_usize_def Let_def from_native_def entry_of_def mapped_of_def word_less_nat_alt word_unat_eq_iff
      unat_word_of_nat)

lemma manifest_entries_eq:
  assumes "\<forall>q \<in> set qs. prepared_ok q"
  shows "manifest_entries qs = Ok (map entry_of qs)"
proof -
  have "for_each manifest_entry qs es = Ok (es @ map entry_of qs)" for es
    using assms by (induction qs arbitrary: es) (simp_all add: manifest_entry_eq)
  then show ?thesis by (simp add: manifest_entries_def)
qed

lemma reservation_lengths_eq:
  assumes "\<forall>q \<in> set (tb_regions t). prepared_ok q"
  shows "reservation_lengths t =
    Ok (map snd (sort_key fst (map (\<lambda>q. (spec_id (pq_spec q), word_of_nat (mapped_of q))) (tb_regions t))))"
proof -
  have step: "keyed_length q xs = Ok (xs @ [(spec_id (pq_spec q), word_of_nat (mapped_of q))])"
    if "prepared_ok q" for q xs
    using that
    by (auto simp: keyed_length_def prepared_mapped_len_def prepared_ok_def try_from_usize_def mapped_of_def)
  have "for_each keyed_length qs xs =
      Ok (xs @ map (\<lambda>q. (spec_id (pq_spec q), word_of_nat (mapped_of q))) qs)"
    if "\<forall>q \<in> set qs. prepared_ok q" for qs xs
    using that by (induction qs arbitrary: xs) (simp_all add: step)
  from this [OF assms, of "[]"] show ?thesis by (simp add: reservation_lengths_def)
qed

lemma insort_key_map: "insort_key f (g x) (map g xs) = map g (insort_key (\<lambda>x. f (g x)) x xs)"
  by (induction xs) simp_all

lemma sort_key_map: "sort_key f (map g xs) = map g (sort_key (\<lambda>x. f (g x)) xs)"
  by (induction xs) (simp_all add: insort_key_map)

lemma insort_key_RegionId: "insort_key (\<lambda>x. RegionId_get (f x)) x xs = insort_key f x xs"
  by (induction xs) (simp_all add: less_eq_RegionId_def)

lemma sort_key_RegionId: "sort_key (\<lambda>x. RegionId_get (f x)) xs = sort_key f xs"
  by (induction xs) (simp_all add: insort_key_RegionId)

lemma entry_of_sel [simp]:
  "me_region_id (entry_of q) = RegionId_get (spec_id (pq_spec q))"
  "me_incarnation (entry_of q) = sq_incarnation (pq_request q)"
  "me_logical_len (entry_of q) = word_of_nat (sq_logical_len (pq_request q))"
  "me_mapped_len (entry_of q) = word_of_nat (mapped_of q)"
  by (simp_all add: entry_of_def)

lemma entry_of_accepted: "prepared_ok q \<Longrightarrow> \<not> entry_rejected (entry_of q)"
  by (auto simp: prepared_ok_def entry_rejected_def entry_of_def mapped_of_def word_less_nat_alt
      word_unat_eq_iff unat_word_of_nat)

lemma entry_of_lengths:
  "prepared_ok q \<Longrightarrow> unat (me_logical_len (entry_of q)) = sq_logical_len (pq_request q)"
  "prepared_ok q \<Longrightarrow> unat (me_mapped_len (entry_of q)) = mapped_of q"
  by (auto simp: prepared_ok_def mapped_of_def unat_word_of_nat)

lemma RegionId_get_inject [simp]: "RegionId_get a = RegionId_get b \<longleftrightarrow> a = b"
  by (cases a; cases b) simp

lemma batch_entries_sums:
  assumes "\<forall>q \<in> set qs. prepared_ok q"
  shows "sum_list (map (\<lambda>e. unat (me_logical_len e)) (map entry_of qs)) =
      sum_list (map (\<lambda>q. sq_logical_len (pq_request q)) qs)"
    and "sum_list (map (\<lambda>e. unat (me_mapped_len e)) (map entry_of qs)) = sum_list (map mapped_of qs)"
  using assms by (induction qs) (simp_all add: entry_of_lengths del: entry_of_sel)

lemma batch_manifest:
  assumes ok: "batch_ok t" and ne: "tb_regions t \<noteq> []"
    and fresh: "distinct (map (\<lambda>q. sq_incarnation (pq_request q)) (tb_regions t))"
    and session: "nonce \<noteq> replicate 32 0" "p \<noteq> 0" "c \<noteq> 0" "tid \<noteq> 0" "tid \<noteq> - 1"
  obtains m where "new_with_authority nonce p c tid profile (map entry_of (tb_regions t)) = Ok m"
    "tm_total_logical m = tb_total_logical t" "tm_total_mapped m = tb_total_mapped t"
    "tm_entries m = with_ordinals 0 (map entry_of (sort_key (\<lambda>q. spec_id (pq_spec q)) (tb_regions t)))"
proof -
  let ?qs = "sort_key (\<lambda>q. spec_id (pq_spec q)) (tb_regions t)"
  let ?m = "\<lparr>tm_nonce = nonce, tm_parent_pid = p, tm_child_pid = c, tm_transfer_id = tid,
    tm_authority_profile = profile, tm_total_logical = tb_total_logical t,
    tm_total_mapped = tb_total_mapped t, tm_entries = with_ordinals 0 (map entry_of ?qs)\<rparr>"
  have sorted: "sort_key me_region_id (map entry_of (tb_regions t)) = map entry_of ?qs"
    by (simp add: sort_key_map sort_key_RegionId)
  have prep: "\<forall>q \<in> set ?qs. prepared_ok q" using ok by (simp add: batch_ok_def)
  have "\<forall>e \<in> set (map entry_of ?qs). \<not> entry_rejected e" using prep entry_of_accepted by auto
  then have accepted: "\<forall>e \<in> set (with_ordinals 0 (map entry_of ?qs)). \<not> entry_rejected e"
    by (simp add: with_ordinals_rejected)
  have "distinct (map (\<lambda>q. RegionId_get (spec_id (pq_spec q))) (tb_regions t))"
    using ok by (auto simp: batch_ok_def distinct_map inj_on_def)
  then have ids: "distinct (map me_region_id (map entry_of ?qs))"
    and incs: "distinct (map me_incarnation (map entry_of ?qs))"
    using fresh by (simp_all add: comp_def distinct_map_sort)
  have "sorted (map me_region_id (map entry_of ?qs))"
    using sorted_sort_key [of me_region_id "map entry_of (tb_regions t)"] by (simp only: sorted)
  moreover have "with_ordinals 0 (map entry_of ?qs) \<noteq> []"
    using ne with_ordinals_sel(5) [of 0 "map entry_of ?qs"] by (metis length_0_conv length_map length_sort)
  ultimately have "manifest_valid ?m"
    using ok ne session ids incs accepted batch_entries_sums [OF prep] with_ordinals_idem
      [of 0 "map entry_of ?qs"]
    by (simp add: manifest_valid_def batch_ok_def sum_with_ordinals sum_map_sort del: entry_of_sel map_map)
  then have "new_with_authority nonce p c tid profile (map entry_of (tb_regions t)) = Ok ?m"
    unfolding new_with_authority_Ok sorted by simp
  then show thesis by (rule that) simp_all
qed

section \<open>Committed regions\<close>

lemma insert_region_Ok:
  "insert_region e keyed = Ok keyed' \<longleftrightarrow> fst e \<notin> fst ` set keyed \<and> keyed' = insort_key fst e keyed"
  using map_of_eq_None_iff [of keyed "fst e"] by (auto simp: insert_region_def split: option.splits)

lemma insert_region_Panic: "insert_region e keyed \<noteq> Panic"
  by (simp add: insert_region_def split: option.split)

lemma insert_regions_Ok:
  "sorted (map fst keyed) \<Longrightarrow> distinct (map fst keyed) \<Longrightarrow>
     for_each insert_region regions keyed = Ok keyed' \<longleftrightarrow>
     distinct (map fst regions) \<and> fst ` set regions \<inter> fst ` set keyed = {} \<and>
     sorted (map fst keyed') \<and> distinct (map fst keyed') \<and> set keyed' = set regions \<union> set keyed"
proof (induction regions arbitrary: keyed)
  case Nil
  have "keyed' = keyed" if "sorted (map fst keyed')" "distinct (map fst keyed')" "set keyed' = set keyed"
    using that Nil map_sorted_distinct_set_unique [of fst keyed' keyed]
    by (metis inj_on_Un_image_eq_iff distinct_map Un_absorb)
  then show ?case using Nil by auto
next
  case (Cons e regions)
  show ?case
  proof (cases "fst e \<in> fst ` set keyed")
    case True
    then show ?thesis by (auto simp: insert_region_Ok outcome)
  next
    case False
    have "distinct (map fst (insort_key fst e keyed))"
      using False Cons.prems(2) by (simp add: distinct_insort_key)
    then show ?thesis
      using Cons.IH [of "insort_key fst e keyed"] False Cons.prems
      by (auto simp: insert_region_Ok outcome sorted_insort_key set_insort_key)
  qed
qed

primrec authority_of :: "CommittedRegion \<Rightarrow> LocalRegionAuthority" where
  "authority_of (Reader r) = LocalReader"
| "authority_of (Writer w) = LocalWriter"

abbreviation authorities :: "(RegionId \<times> CommittedRegion) list \<Rightarrow> (RegionId \<times> LocalRegionAuthority) set" where
  "authorities regions \<equiv> (\<lambda>e. (fst e, authority_of (snd e))) ` set regions"

lemma check_authority_lookup:
  "check_authority keyed e = Ok () \<longleftrightarrow> (\<exists>r. map_of keyed (fst e) = Some r \<and> authority_of r = snd e)"
  by (auto simp: check_authority_def split: option.splits LocalRegionAuthority.splits CommittedRegion.splits)

lemma check_authority_Ok:
  "distinct (map fst keyed) \<Longrightarrow> check_authority keyed e = Ok () \<longleftrightarrow> e \<in> authorities keyed"
  by (cases e) (force simp: check_authority_lookup map_of_eq_Some_iff)

lemma check_authority_Panic: "check_authority keyed e \<noteq> Panic"
  by (simp add: check_authority_def split: option.split LocalRegionAuthority.split CommittedRegion.split)

lemma authorities_exact:
  assumes "distinct (map fst expected)" "distinct (map fst regions)" "length regions = length expected"
  shows "set expected \<subseteq> authorities regions \<longleftrightarrow> set expected = authorities regions"
proof
  assume sub: "set expected \<subseteq> authorities regions"
  have "card (set expected) = length expected"
    using assms(1) by (intro distinct_card) (simp add: distinct_map)
  moreover have "card (authorities regions) \<le> length regions"
    using card_image_le [of "set regions"] card_length [of regions] by (meson List.finite_set le_trans)
  ultimately show "set expected = authorities regions"
    using sub assms(3) by (intro card_seteq) simp_all
qed simp

lemma from_local_committed_Ok:
  "from_local_committed expected regions = Ok keyed \<longleftrightarrow>
     length expected \<le> 16 \<and> distinct (map fst expected) \<and> distinct (map fst regions) \<and>
     set expected = authorities regions \<and>
     sorted (map fst keyed) \<and> distinct (map fst keyed) \<and> set keyed = set regions"
  (is "?L \<longleftrightarrow> ?R")
proof -
  have size: "length keyed = length regions"
    if "distinct (map fst keyed)" "distinct (map fst regions)" "set keyed = set regions"
    using that by (metis distinct_card distinct_map)
  have "length expected = length regions"
    if "distinct (map fst expected)" "distinct (map fst regions)" "set expected = authorities regions"
  proof -
    have "length expected = card (fst ` set expected)" using that(1) by (metis distinct_card length_map set_map)
    also have "fst ` set expected = fst ` set regions" by (simp add: that(3) image_image)
    also have "card \<dots> = length regions" using that(2) by (metis distinct_card length_map set_map)
    finally show ?thesis .
  qed
  note len = this
  note dup = first_duplicate_sort [of fst expected] and ins = insert_regions_Ok [of "[]" regions keyed]
  show ?thesis
  proof
    assume ?L
    then have L: "length expected \<le> 16" "distinct (map fst expected)" "length keyed = length expected"
      "for_each insert_region regions [] = Ok keyed"
      "\<forall>e \<in> set expected. check_authority keyed e = Ok ()"
      using dup
      by (auto simp: from_local_committed_def Let_def outcome for_each_unit_Ok split: option.splits if_splits)
    then have K: "distinct (map fst regions)" "sorted (map fst keyed)" "distinct (map fst keyed)"
      "set keyed = set regions" using ins by auto
    then have "set expected \<subseteq> authorities regions" using L(5) by (auto simp: check_authority_Ok)
    then show ?R using authorities_exact [of expected regions] L K size by auto
  next
    assume R: ?R
    then have "for_each insert_region regions [] = Ok keyed" "length keyed = length expected"
      using ins size len by auto
    moreover have "for_each (\<lambda>e _. check_authority keyed e) (sort_key fst expected) () = Ok ()"
      using R by (simp add: for_each_unit_Ok check_authority_Ok)
    ultimately show ?L
      using R dup by (auto simp: from_local_committed_def Let_def split: option.splits)
  qed
qed

lemma from_local_committed_Panic: "from_local_committed expected regions \<noteq> Panic"
proof -
  have "for_each insert_region regions keyed \<noteq> Panic" for keyed
    using insert_region_Panic by (induction regions arbitrary: keyed) (auto simp: outcome)
  then show ?thesis
    using for_each_unit_Panic check_authority_Panic
    by (fastforce simp: from_local_committed_def Let_def outcome split: option.splits if_splits)
qed

lemma taken_entry:
  assumes "distinct (map fst keyed)"
  shows "(i, Writer w) \<in> set keyed \<Longrightarrow>
      take_writer keyed i = (filter (\<lambda>e. fst e \<noteq> i) keyed, Ok w) \<and>
      take_reader keyed i = (keyed, Err (WrongDirection i))"
    and "(i, Reader r) \<in> set keyed \<Longrightarrow>
      take_reader keyed i = (filter (\<lambda>e. fst e \<noteq> i) keyed, Ok r) \<and>
      take_writer keyed i = (keyed, Err (WrongDirection i))"
  using map_of_is_SomeI [OF assms] by (simp_all add: take_writer_def take_reader_def)

lemma taken_unknown:
  "take_writer (filter (\<lambda>e. fst e \<noteq> i) keyed) i = (filter (\<lambda>e. fst e \<noteq> i) keyed, Err (UnknownRegion i))"
  "take_reader (filter (\<lambda>e. fst e \<noteq> i) keyed) i = (filter (\<lambda>e. fst e \<noteq> i) keyed, Err (UnknownRegion i))"
proof -
  have "map_of (filter (\<lambda>e. fst e \<noteq> i) keyed) i = None" by (induction keyed) auto
  then show "take_writer (filter (\<lambda>e. fst e \<noteq> i) keyed) i = (filter (\<lambda>e. fst e \<noteq> i) keyed, Err (UnknownRegion i))"
    "take_reader (filter (\<lambda>e. fst e \<noteq> i) keyed) i = (filter (\<lambda>e. fst e \<noteq> i) keyed, Err (UnknownRegion i))"
    by (simp_all add: take_writer_def take_reader_def)
qed

lemma removed_entry:
  "distinct (map fst keyed) \<Longrightarrow> (i, r) \<in> set keyed \<Longrightarrow> set (filter (\<lambda>e. fst e \<noteq> i) keyed) = set keyed - {(i, r)}"
  by (auto dest: eq_key_imp_eq_value)

section \<open>Properties\<close>

text \<open>C38: Every nonempty batch built under the negotiated limits from prepared regions with fresh
  incarnations yields a manifest: its entries are produced, construction accepts them for every
  session identity and transfer number, the manifest fits the limits, its totals are the batch's
  totals, and the mapped lengths charged to the ledger are those of the manifest, in its order.\<close>

theorem batch_manifest_accepted:
  assumes "batch_run (max_regions_per_batch limits) (max_region_bytes limits) (max_batch_bytes limits) t"
    and "tb_regions t \<noteq> []" "distinct (map (\<lambda>q. sq_incarnation (pq_request q)) (tb_regions t))"
    and "nonce \<noteq> replicate 32 0" "p \<noteq> 0" "c \<noteq> 0" "tid \<noteq> 0" "tid \<noteq> - 1"
  shows "\<exists>es m. manifest_entries (tb_regions t) = Ok es \<and>
    new_with_authority nonce p c tid profile es = Ok m \<and> fits_limits m limits \<and>
    tm_total_logical m = tb_total_logical t \<and> tm_total_mapped m = tb_total_mapped t \<and>
    reservation_lengths t = Ok (map me_mapped_len (tm_entries m))"
proof -
  note run = batch_run_ok [OF assms(1)]
  then have prep: "\<forall>q \<in> set (tb_regions t). prepared_ok q" by (simp add: batch_ok_def)
  let ?qs = "sort_key (\<lambda>q. spec_id (pq_spec q)) (tb_regions t)"
  obtain m where m: "new_with_authority nonce p c tid profile (map entry_of (tb_regions t)) = Ok m"
    "tm_total_logical m = tb_total_logical t" "tm_total_mapped m = tb_total_mapped t"
    "tm_entries m = with_ordinals 0 (map entry_of ?qs)"
    using batch_manifest [OF _ assms(2-8)] run by metis
  have "length (tm_entries m) = length (tb_regions t)" by (simp add: m(4))
  moreover have "\<forall>l \<in> set (map me_logical_len (tm_entries m)). l \<le> max_region_bytes limits"
    using run entry_of_lengths(1) by (auto simp: m(4) comp_def batch_ok_def word_le_nat_alt)
  ultimately have "fits_limits m limits"
    using run m(2,3) by (auto simp: fits_limits_def batch_ok_def list_all_iff)
  moreover have "reservation_lengths t = Ok (map me_mapped_len (tm_entries m))"
    using reservation_lengths_eq [OF prep] by (simp add: m(4) sort_key_map comp_def)
  ultimately show ?thesis
    using manifest_entries_eq [OF prep] m by blast
qed

text \<open>C39: The committed set is built exactly when the mapped regions are, one each, the expected identities
  with the expected local authority.  It then holds precisely those regions: taking one by its
  identity and direction returns it and leaves all others, a second attempt finds nothing, and the
  wrong direction is refused.\<close>

theorem committed_set_exact:
  "((\<exists>keyed. from_local_committed expected regions = Ok keyed) \<longleftrightarrow>
      length expected \<le> 16 \<and> distinct (map fst expected) \<and> distinct (map fst regions) \<and>
      set expected = (\<lambda>e. (fst e, authority_of (snd e))) ` set regions) \<and>
   (\<forall>keyed i. from_local_committed expected regions = Ok keyed \<longrightarrow>
      set keyed = set regions \<and> sorted (map fst keyed) \<and>
      (\<forall>w. (i, Writer w) \<in> set regions \<longrightarrow>
         (\<exists>rest. take_writer keyed i = (rest, Ok w) \<and> set rest = set regions - {(i, Writer w)} \<and>
            take_writer rest i = (rest, Err (UnknownRegion i))) \<and>
         take_reader keyed i = (keyed, Err (WrongDirection i))) \<and>
      (\<forall>r. (i, Reader r) \<in> set regions \<longrightarrow>
         (\<exists>rest. take_reader keyed i = (rest, Ok r) \<and> set rest = set regions - {(i, Reader r)} \<and>
            take_reader rest i = (rest, Err (UnknownRegion i))) \<and>
         take_writer keyed i = (keyed, Err (WrongDirection i)))) \<and>
   from_local_committed expected regions \<noteq> Panic"
proof -
  have exact: "(\<exists>keyed. from_local_committed expected regions = Ok keyed) \<longleftrightarrow>
      length expected \<le> 16 \<and> distinct (map fst expected) \<and> distinct (map fst regions) \<and>
      set expected = authorities regions" (is "?L \<longleftrightarrow> ?R")
  proof
    assume ?R
    then have "from_local_committed expected regions = Ok (sort_key fst regions)"
      by (simp add: from_local_committed_Ok distinct_map_sort)
    then show ?L ..
  next
    assume ?L
    then obtain keyed where "from_local_committed expected regions = Ok keyed" ..
    then show ?R by (simp add: from_local_committed_Ok)
  qed
  have contents: "set keyed = set regions \<and> sorted (map fst keyed) \<and>
      (\<forall>w. (i, Writer w) \<in> set regions \<longrightarrow>
         (\<exists>rest. take_writer keyed i = (rest, Ok w) \<and> set rest = set regions - {(i, Writer w)} \<and>
            take_writer rest i = (rest, Err (UnknownRegion i))) \<and>
         take_reader keyed i = (keyed, Err (WrongDirection i))) \<and>
      (\<forall>r. (i, Reader r) \<in> set regions \<longrightarrow>
         (\<exists>rest. take_reader keyed i = (rest, Ok r) \<and> set rest = set regions - {(i, Reader r)} \<and>
            take_reader rest i = (rest, Err (UnknownRegion i))) \<and>
         take_writer keyed i = (keyed, Err (WrongDirection i)))"
    if "from_local_committed expected regions = Ok keyed" for keyed i
  proof -
    have keyed: "sorted (map fst keyed)" "distinct (map fst keyed)" "set keyed = set regions"
      using that by (auto simp: from_local_committed_Ok)
    note taken = taken_entry [OF keyed(2), unfolded keyed(3)] and left = removed_entry [OF keyed(2), unfolded keyed(3)]
    show ?thesis
    proof (intro conjI allI impI)
      fix w assume "(i, Writer w) \<in> set regions"
      then show "\<exists>rest. take_writer keyed i = (rest, Ok w) \<and> set rest = set regions - {(i, Writer w)} \<and>
          take_writer rest i = (rest, Err (UnknownRegion i))"
        "take_reader keyed i = (keyed, Err (WrongDirection i))"
        using taken(1) left taken_unknown by blast+
    next
      fix r assume "(i, Reader r) \<in> set regions"
      then show "\<exists>rest. take_reader keyed i = (rest, Ok r) \<and> set rest = set regions - {(i, Reader r)} \<and>
          take_reader rest i = (rest, Err (UnknownRegion i))"
        "take_writer keyed i = (keyed, Err (WrongDirection i))"
        using taken(2) left taken_unknown by blast+
    qed (rule keyed)+
  qed
  show ?thesis
    by (intro conjI exact from_local_committed_Panic) (intro allI impI contents)
qed

definition example_prepared :: "u128 \<Rightarrow> WriterEndpoint \<Rightarrow> u8 \<Rightarrow> PreparedRegion" where
  "example_prepared i writer k =
     \<lparr>pq_request = \<lparr>sq_inner = Some [0, 0, 0, 0], sq_incarnation = replicate 16 k, sq_logical_len = 3,
        sq_permissions = \<lparr>pp_writer = Creator\<rparr>, sq_seal = RequiredOnShare, sq_cleanup = ClearThenRelease\<rparr>,
      pq_spec = \<lparr>spec_id = RegionId i, spec_writer = writer\<rparr>,
      pq_guard = \<lparr>gc_requested = BestEffort, gc_installed = False\<rparr>\<rparr>"

definition example_batch :: TransferBatch where
  "example_batch =
     \<lparr>tb_regions = [example_prepared 9 Coordinator 1, example_prepared 4 Receiver 2], tb_max_regions = 4,
      tb_max_region_bytes = 4096, tb_max_batch_bytes = 8192, tb_total_logical = 6, tb_total_mapped = 8\<rparr>"

lemma example_batch_run: "batch_run 4 4096 8192 example_batch"
proof -
  let ?t = "\<lparr>tb_regions = [], tb_max_regions = 4, tb_max_region_bytes = 4096, tb_max_batch_bytes = 8192,
    tb_total_logical = 0, tb_total_mapped = 0\<rparr>"
  let ?t1 = "?t\<lparr>tb_total_logical := 3, tb_total_mapped := 4, tb_regions := [example_prepared 9 Coordinator 1]\<rparr>"
  have ok: "prepared_ok (example_prepared 9 Coordinator 1)" "prepared_ok (example_prepared 4 Receiver 2)"
    by (simp_all add: prepared_ok_def example_prepared_def replicate_eq_replicate)
  have "batch_run 4 4096 8192 ?t" by (intro batch_run.new) (simp add: TransferBatch_new_def)
  then have "batch_run 4 4096 8192 ?t1"
    by (rule batch_run.add [OF _ ok(1)])
      (simp add: add_def example_prepared_def prepared_mapped_len_def prepared_logical_len_def checked_add_def
        try_from_usize_def)
  then show ?thesis
    by (rule batch_run.add [OF _ ok(2)])
      (simp add: add_def example_prepared_def example_batch_def prepared_mapped_len_def
        prepared_logical_len_def checked_add_def try_from_usize_def)
qed

theorem batch_manifest_accepted_witness:
  "\<exists>es m. manifest_entries (tb_regions example_batch) = Ok es \<and>
    new_with_authority (replicate 32 1) 7 8 1 LinuxMdweV1 es = Ok m \<and>
    fits_limits m example_session_limits \<and> tm_total_mapped m = 8 \<and>
    reservation_lengths example_batch = Ok (map me_mapped_len (tm_entries m))"
  using batch_manifest_accepted [of example_session_limits example_batch "replicate 32 1" 7 8 1 LinuxMdweV1]
    example_batch_run
  by (auto simp: example_session_limits_def example_batch_def example_prepared_def replicate_eq_replicate)

theorem committed_set_exact_witness:
  "\<exists>keyed rest.
     from_local_committed [(RegionId 4, LocalReader), (RegionId 2, LocalWriter)]
       [(RegionId 4, Reader example_reader), (RegionId 2, Writer example_writer)] = Ok keyed \<and>
     take_writer keyed (RegionId 2) = (rest, Ok example_writer) \<and>
     set rest = {(RegionId 4, Reader example_reader)} \<and>
     take_writer rest (RegionId 2) = (rest, Err (UnknownRegion (RegionId 2)))"
proof -
  let ?expected = "[(RegionId 4, LocalReader), (RegionId 2, LocalWriter)]"
  let ?regions = "[(RegionId 4, Reader example_reader), (RegionId 2, Writer example_writer)]"
  note exact = committed_set_exact [of ?expected ?regions]
  have "\<exists>keyed. from_local_committed ?expected ?regions = Ok keyed"
    using exact [THEN conjunct1] by simp
  then obtain keyed where keyed: "from_local_committed ?expected ?regions = Ok keyed" ..
  have "(RegionId 2, Writer example_writer) \<in> set ?regions" by simp
  with exact [THEN conjunct2, THEN conjunct1] keyed obtain rest where
    "take_writer keyed (RegionId 2) = (rest, Ok example_writer)"
    "set rest = set ?regions - {(RegionId 2, Writer example_writer)}"
    "take_writer rest (RegionId 2) = (rest, Err (UnknownRegion (RegionId 2)))"
    by blast
  then show ?thesis using keyed by auto
qed

end
