(* ===== verification/Control.thy ===== *)
theory Control
  imports Limits "HOL-Library.Sublist"
begin

text \<open>
  Application control records, \<^verbatim>\<open>native-ipc/src/control.rs\<close>: the per-session sequence state, the
  canonical record encoder and the receiver.  A \<^verbatim>\<open>PendingControlReceive\<close> borrows the state, so it is
  the validated header next to the state that it borrows; dropping it without committing is
  \<open>drop_pending\<close>.
\<close>

section \<open>Definitions\<close>

text \<open>\<^verbatim>\<open>NIPCAPP1\<close>\<close>

definition MAGIC :: bytes where
  "MAGIC = [0x4E, 0x49, 0x50, 0x43, 0x41, 0x50, 0x50, 0x31]"

definition VERSION_MAJOR :: u16 where "VERSION_MAJOR = 1"
definition VERSION_MINOR :: u16 where "VERSION_MINOR = 0"
definition CONTROL_HEADER_LEN :: usize where "CONTROL_HEADER_LEN = 72"
definition APPLICATION_CONTROL_KIND_MIN :: u32 where "APPLICATION_CONTROL_KIND_MIN = 0x80000000"

definition control_wire_len :: "usize \<Rightarrow> usize option" where
  "control_wire_len payload_len = checked_add_usize CONTROL_HEADER_LEN payload_len"

datatype ControlError =
    Poisoned | Truncated | BadMagic | BadVersion | NonCanonical | WrongSession | ReservedKind
  | PayloadTooLarge | ReplayOrReorder | TransactionConflict | SequenceExhausted | LengthOverflow
  | AllocationFailed | DestinationTooSmall

record ControlFrame =
  cf_kind :: u32
  cf_payload :: bytes

record ControlState =
  cs_nonce :: bytes
  cs_maximum_payload :: u32
  cs_next_send :: u64
  cs_next_receive :: u64
  cs_transaction_open :: bool
  cs_poisoned :: bool
  cs_pending_receive :: bool

record ValidatedControlHeader =
  vh_kind :: u32
  vh_payload_len :: u32

definition ControlState_new :: "bytes \<Rightarrow> u32 \<Rightarrow> ControlState option" where
  "ControlState_new nonce maximum_payload =
     (if nonce = replicate 32 0 \<or> maximum_payload = 0 \<or>
        maximum_payload > HARD_MAX_CONTROL_PAYLOAD_BYTES
      then None
      else
        Some \<lparr>cs_nonce = nonce, cs_maximum_payload = maximum_payload, cs_next_send = 1,
          cs_next_receive = 1, cs_transaction_open = False, cs_poisoned = False,
          cs_pending_receive = False\<rparr>)"

subsection \<open>Sending\<close>

definition check_local_parts :: "ControlState \<Rightarrow> u32 \<Rightarrow> usize \<Rightarrow> (unit, ControlError) result" where
  "check_local_parts s kind payload_len =
     (if cs_poisoned s then Err Poisoned
      else if cs_transaction_open s then Err TransactionConflict
      else if kind < APPLICATION_CONTROL_KIND_MIN then Err ReservedKind
      else
        rbind (ok_or LengthOverflow (try_from_usize payload_len)) (\<lambda>payload_len.
        if payload_len > cs_maximum_payload s \<or> payload_len > HARD_MAX_CONTROL_PAYLOAD_BYTES
        then Err PayloadTooLarge
        else if cs_next_send s = - 1 then Err SequenceExhausted
        else Ok ()))"

definition encoded_len_parts :: "ControlState \<Rightarrow> u32 \<Rightarrow> usize \<Rightarrow> (usize, ControlError) result" where
  "encoded_len_parts s kind payload_len =
     rbind (check_local_parts s kind payload_len) (\<lambda>_.
       ok_or LengthOverflow (control_wire_len payload_len))"

text \<open>The bytes written into a destination that is long enough for the record.\<close>

definition write_record ::
    "ControlState \<Rightarrow> u32 \<Rightarrow> bytes \<Rightarrow> usize \<Rightarrow> bytes \<Rightarrow> (bytes, ControlError) result" where
  "write_record s kind payload required destination =
     rbind (fill destination 28 32 0) (\<lambda>d.
     rbind (copy_from_slice d 0 8 MAGIC) (\<lambda>d.
     rbind (put_u16 d 8 VERSION_MAJOR) (\<lambda>d.
     rbind (put_u16 d 10 VERSION_MINOR) (\<lambda>d.
     rbind (put_u32 d 12 (word_of_nat CONTROL_HEADER_LEN)) (\<lambda>d.
     rbind (ok_or LengthOverflow (try_from_usize required)) (\<lambda>frame_len.
     rbind (put_u32 d 16 frame_len) (\<lambda>d.
     rbind (ok_or LengthOverflow (try_from_usize (length payload))) (\<lambda>payload_len.
     rbind (put_u32 d 20 payload_len) (\<lambda>d.
     rbind (put_u32 d 24 kind) (\<lambda>d.
     rbind (copy_from_slice d 32 64 (cs_nonce s)) (\<lambda>d.
     rbind (put_u64 d 64 (cs_next_send s)) (\<lambda>d.
       copy_from_slice d CONTROL_HEADER_LEN required payload))))))))))))"

definition encode_parts_into ::
    "ControlState \<Rightarrow> u32 \<Rightarrow> bytes \<Rightarrow> bytes \<Rightarrow> ControlState \<times> (bytes \<times> usize, ControlError) result" where
  "encode_parts_into s kind payload destination =
     (if cs_transaction_open s \<or> cs_pending_receive s
      then (s\<lparr>cs_poisoned := True\<rparr>, Err TransactionConflict)
      else if cs_next_send s = - 1 then (s\<lparr>cs_poisoned := True\<rparr>, Err SequenceExhausted)
      else
        sbind (s, encoded_len_parts s kind (length payload)) (\<lambda>s required.
        if length destination < required then (s, Err DestinationTooSmall)
        else
          sbind (s, write_record s kind payload required destination) (\<lambda>s d.
          sbind (s, ok_or SequenceExhausted (checked_add (cs_next_send s) 1)) (\<lambda>s next.
            (s\<lparr>cs_next_send := next\<rparr>, Ok (d, required))))))"

subsection \<open>Receiving\<close>

definition validate_header_inner ::
    "ControlState \<Rightarrow> bytes \<Rightarrow> (ValidatedControlHeader, ControlError) result" where
  "validate_header_inner s source =
     (if cs_poisoned s then Err Poisoned
      else if cs_transaction_open s then Err TransactionConflict
      else if cs_pending_receive s then Err ReplayOrReorder
      else if length source \<noteq> CONTROL_HEADER_LEN then Err Truncated
      else
        rbind (slice source 0 8) (\<lambda>magic.
        if magic \<noteq> MAGIC then Err BadMagic
        else
        rbind (get_u16 source 8) (\<lambda>major.
        rbind (get_u16 source 10) (\<lambda>minor.
        if major \<noteq> VERSION_MAJOR \<or> minor \<noteq> VERSION_MINOR then Err BadVersion
        else
        rbind (get_u32 source 12) (\<lambda>header_len.
        rbind (get_u32 source 28) (\<lambda>reserved.
        if header_len \<noteq> word_of_nat CONTROL_HEADER_LEN \<or> reserved \<noteq> 0 then Err NonCanonical
        else
        rbind (get_u32 source 16) (\<lambda>frame_len.
        rbind (get_u32 source 20) (\<lambda>payload_len.
        rbind (ok_or LengthOverflow (control_wire_len (unat payload_len))) (\<lambda>expected_len.
        if unat frame_len \<noteq> expected_len then Err NonCanonical
        else if payload_len > cs_maximum_payload s \<or> payload_len > HARD_MAX_CONTROL_PAYLOAD_BYTES
        then Err PayloadTooLarge
        else
        rbind (get_u32 source 24) (\<lambda>kind.
        if kind < APPLICATION_CONTROL_KIND_MIN then Err ReservedKind
        else
        rbind (slice source 32 64) (\<lambda>nonce.
        if nonce \<noteq> cs_nonce s then Err WrongSession
        else
        rbind (get_u64 source 64) (\<lambda>sequence.
        if sequence \<noteq> cs_next_receive s then Err ReplayOrReorder
        else if cs_next_receive s = - 1 then Err SequenceExhausted
        else Ok \<lparr>vh_kind = kind, vh_payload_len = payload_len\<rparr>))))))))))))"

definition validate_header ::
    "ControlState \<Rightarrow> bytes \<Rightarrow> ControlState \<times> (ValidatedControlHeader, ControlError) result" where
  "validate_header s source =
     (case validate_header_inner s source of
        Ok header \<Rightarrow> (s\<lparr>cs_pending_receive := True\<rparr>, Ok header)
      | Err e \<Rightarrow> (s\<lparr>cs_poisoned := True\<rparr>, Err e)
      | Panic \<Rightarrow> (s, Panic))"

definition drop_pending :: "ControlState \<Rightarrow> ControlState" where
  "drop_pending s = s\<lparr>cs_pending_receive := False, cs_poisoned := True\<rparr>"

definition finish_owned ::
    "ControlState \<Rightarrow> ValidatedControlHeader \<Rightarrow> bytes \<Rightarrow>
     ControlState \<times> (ControlFrame, ControlError) result" where
  "finish_owned s header payload =
     (if length payload \<noteq> unat (vh_payload_len header) then (drop_pending s, Err NonCanonical)
      else
        case checked_add (cs_next_receive s) 1 of
          None \<Rightarrow> (drop_pending s, Err SequenceExhausted)
        | Some next \<Rightarrow>
            (s\<lparr>cs_next_receive := next, cs_pending_receive := False\<rparr>,
             Ok \<lparr>cf_kind = vh_kind header, cf_payload = payload\<rparr>))"

text \<open>\<^verbatim>\<open>copy_within\<close> panics when the source range is not inside the vector.\<close>

definition copy_within :: "bytes \<Rightarrow> usize \<Rightarrow> usize \<Rightarrow> usize \<Rightarrow> (bytes, 'e) result" where
  "copy_within b i j dest = rbind (slice b i j) (\<lambda>s. copy_from_slice b dest (dest + (j - i)) s)"

definition decode_owned ::
    "ControlState \<Rightarrow> bytes \<Rightarrow> ControlState \<times> (ControlFrame, ControlError) result" where
  "decode_owned s source =
     (if length source < CONTROL_HEADER_LEN then (s\<lparr>cs_poisoned := True\<rparr>, Err Truncated)
      else
        sbind (s, slice source 0 CONTROL_HEADER_LEN) (\<lambda>s head.
        sbind (validate_header s head) (\<lambda>s header.
        let payload_len = unat (vh_payload_len header) in
        case control_wire_len payload_len of
          None \<Rightarrow> (drop_pending s, Err LengthOverflow)
        | Some expected \<Rightarrow>
            if length source \<noteq> expected then (drop_pending s, Err NonCanonical)
            else
              sbind (s, copy_within source CONTROL_HEADER_LEN expected 0) (\<lambda>s source.
                finish_owned s header (take payload_len source)))))"

subsection \<open>Native transactions and poisoning\<close>

definition begin_transaction :: "ControlState \<Rightarrow> ControlState \<times> (unit, ControlError) result" where
  "begin_transaction s =
     (if cs_poisoned s then (s, Err Poisoned)
      else if cs_transaction_open s \<or> cs_pending_receive s
      then (s\<lparr>cs_poisoned := True\<rparr>, Err TransactionConflict)
      else (s\<lparr>cs_transaction_open := True\<rparr>, Ok ()))"

definition end_transaction :: "ControlState \<Rightarrow> ControlState \<times> (unit, ControlError) result" where
  "end_transaction s =
     (if cs_poisoned s then (s, Err Poisoned)
      else if \<not> cs_transaction_open s then (s\<lparr>cs_poisoned := True\<rparr>, Err TransactionConflict)
      else (s\<lparr>cs_transaction_open := False\<rparr>, Ok ()))"

definition poison :: "ControlState \<Rightarrow> ControlState" where
  "poison s = s\<lparr>cs_poisoned := True\<rparr>"

section \<open>The canonical record\<close>

definition record_header :: "bytes \<Rightarrow> u64 \<Rightarrow> u32 \<Rightarrow> nat \<Rightarrow> bytes list" where
  "record_header nonce sequence kind n =
     [MAGIC, to_le_bytes 2 VERSION_MAJOR, to_le_bytes 2 VERSION_MINOR, to_le_bytes 4 (72 :: u32),
      to_le_bytes 4 (word_of_nat (72 + n) :: u32), to_le_bytes 4 (word_of_nat n :: u32),
      to_le_bytes 4 kind, to_le_bytes 4 (0 :: u32), nonce, to_le_bytes 8 sequence]"

definition record_bytes :: "bytes \<Rightarrow> u64 \<Rightarrow> u32 \<Rightarrow> bytes \<Rightarrow> bytes" where
  "record_bytes nonce sequence kind payload =
     concat (record_header nonce sequence kind (length payload)) @ payload"

definition admissible :: "u32 \<Rightarrow> u32 \<Rightarrow> bytes \<Rightarrow> bool" where
  "admissible maximum kind payload \<longleftrightarrow>
     kind \<ge> APPLICATION_CONTROL_KIND_MIN \<and> length payload \<le> unat maximum \<and>
     length payload \<le> unat HARD_MAX_CONTROL_PAYLOAD_BYTES"

lemma length_control_MAGIC [simp]: "length MAGIC = 8"
  by (simp add: MAGIC_def)

lemma length_record_header:
  "length nonce = 32 \<Longrightarrow> length (concat (record_header nonce q k n)) = 72"
  by (simp add: record_header_def)

lemma length_record_bytes:
  "length nonce = 32 \<Longrightarrow> length (record_bytes nonce q k p) = 72 + length p"
  by (simp add: record_bytes_def length_record_header del: length_concat)

lemma overlay_skip:
  assumes "length (concat ps) = i" "read_at b i (length z) = z"
  shows "overlay ps b = overlay (ps @ [z]) b"
proof -
  have "drop i b = z @ drop (i + length z) b"
    using assms(2) append_take_drop_id [of "length z" "drop i b"] by (simp add: read_at_def add.commute)
  then show ?thesis using assms(1) by (simp add: overlay_def)
qed

lemma hard_max_control: "unat HARD_MAX_CONTROL_PAYLOAD_BYTES = 16777216"
  by (simp add: HARD_MAX_CONTROL_PAYLOAD_BYTES_def)

lemma write_record_eq:
  assumes n: "length (cs_nonce s) = 32" and r: "required = 72 + length payload"
    and fits: "required \<le> length d" and small: "length payload \<le> 16777216"
  shows "write_record s kind payload required d =
    Ok (record_bytes (cs_nonce s) (cs_next_send s) kind payload @ drop required d)"
proof -
  let ?n = "length payload"
  define b where "b = write_at d 28 (replicate 4 0)"
  have b: "length b = length d" "read_at b 28 (length (to_le_bytes 4 (0 :: u32))) = to_le_bytes 4 (0 :: u32)"
    using fits r by (simp_all add: b_def read_at_def write_at_def to_le_bytes_def numeral_eq_Suc)
  have f: "(fill d 28 32 0 :: (bytes, ControlError) result) = Ok b"
    using fits r by (simp add: fill_def copy_from_slice_def b_def)
  let ?ps = "take 7 (record_header (cs_nonce s) (cs_next_send s) kind ?n)"
  have start: "(copy_from_slice b 0 8 MAGIC :: (bytes, ControlError) result) = Ok (overlay [MAGIC] b)"
    using copy_from_slice_overlay [of "[]" 0 MAGIC 8 b] b(1) fits r by (simp add: overlay_start)
  have skip: "overlay (?ps @ [to_le_bytes 4 (0 :: u32)]) b = overlay ?ps b"
    by (rule overlay_skip [OF _ b(2), symmetric]) (simp add: record_header_def)
  have tail: "drop required b = drop required d" using r fits by (simp add: b_def write_at_def)
  have head: "write_record s kind payload required d =
      rbind (copy_from_slice (overlay ?ps b) 32 64 (cs_nonce s)) (\<lambda>d.
      rbind (put_u64 d 64 (cs_next_send s)) (\<lambda>d. copy_from_slice d CONTROL_HEADER_LEN required payload))"
    using r fits small b(1)
    by (simp add: write_record_def f start record_write try_from_usize_def CONTROL_HEADER_LEN_def
        record_header_def)
  have "write_record s kind payload required d =
      Ok (overlay (record_header (cs_nonce s) (cs_next_send s) kind ?n @ [payload]) b)"
    unfolding head skip [symmetric]
    using n r fits b(1)
    by (simp add: record_write record_header_def CONTROL_HEADER_LEN_def)
  then show ?thesis
    using tail r length_record_header [OF n]
    by (simp add: overlay_def record_bytes_def del: length_concat)
qed

section \<open>Sending\<close>

lemma next_send_sequence: "(q :: u64) \<noteq> - 1 \<Longrightarrow> checked_add q 1 = Some (q + 1)"
proof -
  assume "q \<noteq> - 1"
  then have "unat q + 1 < 2 ^ 64"
    using unat_lt_pow [of q] by (simp add: word_unat_eq_iff unsigned_minus_1_eq_mask mask_eq_exp_minus_1)
  then show ?thesis by (simp add: checked_add_def)
qed

lemma unat_next_send: "(q :: u64) \<noteq> - 1 \<Longrightarrow> unat (q + 1) = unat q + 1"
  using next_send_sequence [of q] by (simp add: outcome unat_word_ariths)

lemma check_local_parts_Ok:
  "check_local_parts s kind (length payload) = Ok () \<longleftrightarrow>
     \<not> cs_poisoned s \<and> \<not> cs_transaction_open s \<and> cs_next_send s \<noteq> - 1 \<and>
     admissible (cs_maximum_payload s) kind payload"
proof -
  have "length payload < 2 ^ 32 \<Longrightarrow> unat (word_of_nat (length payload) :: u32) = length payload"
    by (simp add: unat_of_nat take_bit_nat_eq_self)
  then show ?thesis
    using hard_max_control
    by (auto simp: check_local_parts_def admissible_def outcome try_from_usize_def word_le_nat_alt
        word_less_nat_alt not_less split: if_splits)
qed

lemma encode_parts_into_Ok:
  assumes "length (cs_nonce s) = 32"
  shows "encode_parts_into s kind payload d = (s', Ok (d', n)) \<longleftrightarrow>
    \<not> cs_poisoned s \<and> \<not> cs_transaction_open s \<and> \<not> cs_pending_receive s \<and> cs_next_send s \<noteq> - 1 \<and>
    admissible (cs_maximum_payload s) kind payload \<and> n = 72 + length payload \<and> n \<le> length d \<and>
    d' = record_bytes (cs_nonce s) (cs_next_send s) kind payload @ drop n d \<and>
    s' = s\<lparr>cs_next_send := cs_next_send s + 1\<rparr>"
proof -
  let ?ok = "\<not> cs_poisoned s \<and> \<not> cs_transaction_open s \<and> cs_next_send s \<noteq> - 1 \<and>
    admissible (cs_maximum_payload s) kind payload"
  show ?thesis
  proof (cases "?ok \<and> \<not> cs_pending_receive s \<and> 72 + length payload \<le> length d")
    case True
    then have small: "length payload \<le> 16777216" using hard_max_control by (simp add: admissible_def)
    then have "control_wire_len (length payload) = Some (72 + length payload)"
      by (simp add: control_wire_len_def CONTROL_HEADER_LEN_def checked_add_usize_def usize_max_def)
    moreover have "check_local_parts s kind (length payload) = Ok ()" using True by (simp add: check_local_parts_Ok)
    ultimately show ?thesis
      using True write_record_eq [OF assms refl _ small, of d kind]
      by (auto simp: encode_parts_into_def encoded_len_parts_def next_send_sequence)
  next
    case False
    have "encoded_len_parts s kind (length payload) = Ok m \<Longrightarrow> ?ok \<and> m = 72 + length payload" for m
      by (auto simp: encoded_len_parts_def outcome check_local_parts_Ok control_wire_len_def
          CONTROL_HEADER_LEN_def checked_add_usize_def split: if_splits)
    with False show ?thesis by (auto simp: encode_parts_into_def outcome split: if_splits)
  qed
qed

section \<open>Receiving\<close>

lemmas control_get_eq = u16_field.get_eq_Ok u32_field.get_eq_Ok u64_field.get_eq_Ok

lemma le_bytes_inj:
  "to_le_bytes 2 (v :: u16) = to_le_bytes 2 v' \<longleftrightarrow> v = v'"
  "to_le_bytes 4 (w :: u32) = to_le_bytes 4 w' \<longleftrightarrow> w = w'"
  "to_le_bytes 8 (x :: u64) = to_le_bytes 8 x' \<longleftrightarrow> x = x'"
  by (metis u16_field.dec_enc, metis u32_field.dec_enc, metis u64_field.dec_enc)

lemma unat_frame_len:
  assumes "n \<le> (16777216 :: u32)"
  shows "unat (word_of_nat (72 + unat n) :: u32) = 72 + unat n"
proof -
  have "unat n \<le> 16777216" using assms by (simp add: word_le_nat_alt)
  then show ?thesis by (simp add: unat_of_nat take_bit_nat_eq_self del: of_nat_add)
qed

lemma frame_len_exact:
  "n \<le> (16777216 :: u32) \<Longrightarrow> (l :: u32) = word_of_nat (72 + unat n) \<longleftrightarrow> unat l = 72 + unat n"
  by (metis unat_frame_len word_unat_eq_iff)

lemma control_wire_len_u32: "control_wire_len (unat (n :: u32)) = Some (72 + unat n)"
  using unat_lt_pow [of n]
  by (simp add: control_wire_len_def CONTROL_HEADER_LEN_def checked_add_usize_def usize_max_def)

lemma header_fields:
  assumes "length b = 72"
  obtains magic major minor hl fl pl kind res nonce q where
    "pieces b 0 [8, 2, 2, 4, 4, 4, 4, 4, 32, 8] =
      [magic, to_le_bytes 2 (major :: u16), to_le_bytes 2 (minor :: u16), to_le_bytes 4 (hl :: u32),
       to_le_bytes 4 (fl :: u32), to_le_bytes 4 (pl :: u32), to_le_bytes 4 (kind :: u32),
       to_le_bytes 4 (res :: u32), nonce, to_le_bytes 8 (q :: u64)]"
    "(slice b 0 8 :: (bytes, ControlError) result) = Ok magic"
    "(get_u16 b 8 :: (u16, ControlError) result) = Ok major"
    "(get_u16 b 10 :: (u16, ControlError) result) = Ok minor"
    "(get_u32 b 12 :: (u32, ControlError) result) = Ok hl"
    "(get_u32 b 16 :: (u32, ControlError) result) = Ok fl"
    "(get_u32 b 20 :: (u32, ControlError) result) = Ok pl"
    "(get_u32 b 24 :: (u32, ControlError) result) = Ok kind"
    "(get_u32 b 28 :: (u32, ControlError) result) = Ok res"
    "(slice b 32 64 :: (bytes, ControlError) result) = Ok nonce"
    "(get_u64 b 64 :: (u64, ControlError) result) = Ok q"
proof
  show "pieces b 0 [8, 2, 2, 4, 4, 4, 4, 4, 32, 8] =
    [read_at b 0 8, to_le_bytes 2 (from_le_bytes (read_at b 8 2) :: u16),
     to_le_bytes 2 (from_le_bytes (read_at b 10 2) :: u16),
     to_le_bytes 4 (from_le_bytes (read_at b 12 4) :: u32),
     to_le_bytes 4 (from_le_bytes (read_at b 16 4) :: u32),
     to_le_bytes 4 (from_le_bytes (read_at b 20 4) :: u32),
     to_le_bytes 4 (from_le_bytes (read_at b 24 4) :: u32),
     to_le_bytes 4 (from_le_bytes (read_at b 28 4) :: u32), read_at b 32 32,
     to_le_bytes 8 (from_le_bytes (read_at b 64 8) :: u64)]"
    using assms by (simp add: u16_field.enc_dec u32_field.enc_dec u64_field.enc_dec)
qed (use assms in \<open>simp_all add: wire\<close>)

lemma validate_header_inner_Ok:
  "validate_header_inner s b = Ok h \<longleftrightarrow>
     \<not> cs_poisoned s \<and> \<not> cs_transaction_open s \<and> \<not> cs_pending_receive s \<and> cs_next_receive s \<noteq> - 1 \<and>
     vh_kind h \<ge> APPLICATION_CONTROL_KIND_MIN \<and> vh_payload_len h \<le> cs_maximum_payload s \<and>
     vh_payload_len h \<le> HARD_MAX_CONTROL_PAYLOAD_BYTES \<and> length b = 72 \<and>
     pieces b 0 [8, 2, 2, 4, 4, 4, 4, 4, 32, 8] =
       record_header (cs_nonce s) (cs_next_receive s) (vh_kind h) (unat (vh_payload_len h))"
proof (cases "length b = 72")
  case False
  then show ?thesis by (simp add: validate_header_inner_def CONTROL_HEADER_LEN_def)
next
  case True
  obtain magic major minor hl fl pl kind res nonce q where f: "pieces b 0 [8, 2, 2, 4, 4, 4, 4, 4, 32, 8] =
      [magic, to_le_bytes 2 (major :: u16), to_le_bytes 2 (minor :: u16), to_le_bytes 4 (hl :: u32),
       to_le_bytes 4 (fl :: u32), to_le_bytes 4 (pl :: u32), to_le_bytes 4 (kind :: u32),
       to_le_bytes 4 (res :: u32), nonce, to_le_bytes 8 (q :: u64)]"
    and reads: "(slice b 0 8 :: (bytes, ControlError) result) = Ok magic"
    "(get_u16 b 8 :: (u16, ControlError) result) = Ok major"
    "(get_u16 b 10 :: (u16, ControlError) result) = Ok minor"
    "(get_u32 b 12 :: (u32, ControlError) result) = Ok hl"
    "(get_u32 b 16 :: (u32, ControlError) result) = Ok fl"
    "(get_u32 b 20 :: (u32, ControlError) result) = Ok pl"
    "(get_u32 b 24 :: (u32, ControlError) result) = Ok kind"
    "(get_u32 b 28 :: (u32, ControlError) result) = Ok res"
    "(slice b 32 64 :: (bytes, ControlError) result) = Ok nonce"
    "(get_u64 b 64 :: (u64, ControlError) result) = Ok q"
    by (rule header_fields [OF True])
  have e: "pieces b 0 [8, 2, 2, 4, 4, 4, 4, 4, 32, 8] =
        record_header (cs_nonce s) (cs_next_receive s) (vh_kind h) (unat (vh_payload_len h)) \<longleftrightarrow>
      magic = MAGIC \<and> major = VERSION_MAJOR \<and> minor = VERSION_MINOR \<and> hl = 72 \<and>
      fl = word_of_nat (72 + unat (vh_payload_len h)) \<and> pl = vh_payload_len h \<and> kind = vh_kind h \<and>
      res = 0 \<and> nonce = cs_nonce s \<and> q = cs_next_receive s"
    unfolding f record_header_def by (simp add: le_bytes_inj del: of_nat_add)
  show ?thesis
    unfolding e
    using True
    by (cases h)
      (auto simp: validate_header_inner_def reads control_wire_len_u32 CONTROL_HEADER_LEN_def
        HARD_MAX_CONTROL_PAYLOAD_BYTES_def not_less frame_len_exact unat_frame_len
        simp del: of_nat_add)
qed

lemma validate_header_inner_Panic: "validate_header_inner s b \<noteq> Panic"
proof (cases "length b = 72")
  case True
  then show ?thesis
    by (simp add: validate_header_inner_def wire control_wire_len_u32)
qed (simp add: validate_header_inner_def CONTROL_HEADER_LEN_def)

lemma pieces_header_iff:
  assumes "length nonce = 32"
  shows "length b = 72 \<and> pieces b 0 [8, 2, 2, 4, 4, 4, 4, 4, 32, 8] = record_header nonce q k n \<longleftrightarrow>
    b = concat (record_header nonce q k n)"
proof -
  have l: "map length (record_header nonce q k n) = [8, 2, 2, 4, 4, 4, 4, 4, 32, 8]"
    using assms by (simp add: record_header_def)
  show ?thesis
    using pieces_determine [of b "[8, 2, 2, 4, 4, 4, 4, 4, 32, 8]"] length_record_header [OF assms]
      pieces_concat [of 0 "[]" "record_header nonce q k n" "[]"]
    by (auto simp: l simp del: length_concat)
qed

text \<open>The receiver in one step: the payload is moved to the front of the buffer in place.\<close>

lemma decode_owned_eq:
  "decode_owned s b =
     (if length b < 72 then (s\<lparr>cs_poisoned := True\<rparr>, Err Truncated)
      else
        case validate_header_inner s (take 72 b) of
          Ok h \<Rightarrow>
            if length b \<noteq> 72 + unat (vh_payload_len h) then (drop_pending s, Err NonCanonical)
            else
              (s\<lparr>cs_next_receive := cs_next_receive s + 1\<rparr>,
               Ok \<lparr>cf_kind = vh_kind h, cf_payload = drop 72 b\<rparr>)
        | Err e \<Rightarrow> (s\<lparr>cs_poisoned := True\<rparr>, Err e)
        | Panic \<Rightarrow> (s, Panic))"
proof (cases "validate_header_inner s (take 72 b)")
  case (Ok h)
  then have h: "\<not> cs_pending_receive s" "cs_next_receive s \<noteq> - 1"
    by (simp_all add: validate_header_inner_Ok)
  have s: "s\<lparr>cs_next_receive := q, cs_pending_receive := False\<rparr> = s\<lparr>cs_next_receive := q\<rparr>" for q
    using h(1) by (cases s) simp
  have move: "(copy_within b 72 (72 + n) 0 :: (bytes, ControlError) result) = Ok (drop 72 b @ drop n b)"
    if "length b = 72 + n" for n
    using that by (simp add: copy_within_def slice_def copy_from_slice_def write_at_def read_at_def)
  show ?thesis
    using Ok move [of "unat (vh_payload_len h)"] h(2)
    by (simp add: decode_owned_def CONTROL_HEADER_LEN_def wire read_at_def validate_header_def Let_def
        control_wire_len_u32 finish_owned_def drop_pending_def next_send_sequence s)
qed (simp_all add: decode_owned_def CONTROL_HEADER_LEN_def wire read_at_def validate_header_def)

lemma decode_owned_Ok:
  assumes "length (cs_nonce s) = 32"
  shows "decode_owned s b = (s', Ok f) \<longleftrightarrow>
    \<not> cs_poisoned s \<and> \<not> cs_transaction_open s \<and> \<not> cs_pending_receive s \<and> cs_next_receive s \<noteq> - 1 \<and>
    admissible (cs_maximum_payload s) (cf_kind f) (cf_payload f) \<and>
    b = record_bytes (cs_nonce s) (cs_next_receive s) (cf_kind f) (cf_payload f) \<and>
    s' = s\<lparr>cs_next_receive := cs_next_receive s + 1\<rparr>"
proof -
  let ?n = "length (cf_payload f)"
  have step: "decode_owned s b = (s', Ok f) \<longleftrightarrow>
      (\<exists>h. 72 \<le> length b \<and> validate_header_inner s (take 72 b) = Ok h \<and>
        length b = 72 + unat (vh_payload_len h) \<and> s' = s\<lparr>cs_next_receive := cs_next_receive s + 1\<rparr> \<and>
        vh_kind h = cf_kind f \<and> cf_payload f = drop 72 b)" (is "_ \<longleftrightarrow> ?S")
    by (cases f) (auto simp: decode_owned_eq split: result.splits)
  let ?ready = "\<not> cs_poisoned s \<and> \<not> cs_transaction_open s \<and> \<not> cs_pending_receive s \<and> cs_next_receive s \<noteq> - 1"
  note head = validate_header_inner_Ok [of s "take 72 b"] pieces_header_iff [OF assms]
  show ?thesis
    unfolding step
  proof
    assume ?S
    then obtain h where v: "validate_header_inner s (take 72 b) = Ok h"
      and l: "length b = 72 + unat (vh_payload_len h)" "vh_kind h = cf_kind f" "cf_payload f = drop 72 b"
      and s': "s' = s\<lparr>cs_next_receive := cs_next_receive s + 1\<rparr>"
      by (elim exE conjE)
    have h: "?ready" "vh_kind h \<ge> APPLICATION_CONTROL_KIND_MIN"
      "vh_payload_len h \<le> cs_maximum_payload s" "vh_payload_len h \<le> HARD_MAX_CONTROL_PAYLOAD_BYTES"
      "take 72 b = concat (record_header (cs_nonce s) (cs_next_receive s) (vh_kind h) (unat (vh_payload_len h)))"
      using v unfolding head by simp_all
    have "b = record_bytes (cs_nonce s) (cs_next_receive s) (cf_kind f) (cf_payload f)"
      unfolding record_bytes_def l(3) using h(5) l(1,2) append_take_drop_id [of 72 b] by simp
    moreover have "admissible (cs_maximum_payload s) (cf_kind f) (cf_payload f)"
      using h(2-4) l by (simp add: admissible_def word_le_nat_alt)
    ultimately show "\<not> cs_poisoned s \<and> \<not> cs_transaction_open s \<and> \<not> cs_pending_receive s \<and>
        cs_next_receive s \<noteq> - 1 \<and> admissible (cs_maximum_payload s) (cf_kind f) (cf_payload f) \<and>
        b = record_bytes (cs_nonce s) (cs_next_receive s) (cf_kind f) (cf_payload f) \<and>
        s' = s\<lparr>cs_next_receive := cs_next_receive s + 1\<rparr>"
      using h(1) s' by blast
  next
    assume r: "\<not> cs_poisoned s \<and> \<not> cs_transaction_open s \<and> \<not> cs_pending_receive s \<and>
        cs_next_receive s \<noteq> - 1 \<and> admissible (cs_maximum_payload s) (cf_kind f) (cf_payload f) \<and>
        b = record_bytes (cs_nonce s) (cs_next_receive s) (cf_kind f) (cf_payload f) \<and>
        s' = s\<lparr>cs_next_receive := cs_next_receive s + 1\<rparr>"
    have n: "unat (word_of_nat ?n :: u32) = ?n"
      using r hard_max_control by (simp add: admissible_def unat_of_nat take_bit_nat_eq_self)
    have b: "take 72 b = concat (record_header (cs_nonce s) (cs_next_receive s) (cf_kind f) ?n)"
      "drop 72 b = cf_payload f" "length b = 72 + ?n"
      using r length_record_header [OF assms, of "cs_next_receive s" "cf_kind f" ?n]
      by (simp_all add: record_bytes_def del: length_concat)
    have "validate_header_inner s (take 72 b) =
        Ok \<lparr>vh_kind = cf_kind f, vh_payload_len = word_of_nat ?n\<rparr>"
      unfolding head using r n b by (simp add: admissible_def word_le_nat_alt)
    then show ?S using r n b by auto
  qed
qed

lemma decode_owned_Panic: "snd (decode_owned s b) \<noteq> Panic"
  using validate_header_inner_Panic by (auto simp: decode_owned_eq split: result.splits)

lemma decode_owned_Err: "decode_owned s b = (s', Err e) \<Longrightarrow> s' = s\<lparr>cs_poisoned := True\<rparr> \<or> s' = drop_pending s"
  by (auto simp: decode_owned_eq split: result.splits if_splits)

lemma encode_parts_into_Panic:
  assumes "length (cs_nonce s) = 32"
  shows "snd (encode_parts_into s kind payload d) \<noteq> Panic"
proof
  assume p: "snd (encode_parts_into s kind payload d) = Panic"
  obtain m where m: "encoded_len_parts s kind (length payload) = Ok m" "m \<le> length d"
    "write_record s kind payload m d = Panic"
    using p by (auto simp: encode_parts_into_def outcome encoded_len_parts_def check_local_parts_def
        split: if_splits)
  then have "admissible (cs_maximum_payload s) kind payload" "m = 72 + length payload"
    by (auto simp: encoded_len_parts_def outcome check_local_parts_Ok control_wire_len_def
        CONTROL_HEADER_LEN_def checked_add_usize_def split: if_splits)
  then show False
    using write_record_eq [OF assms, of m payload d kind] m hard_max_control by (simp add: admissible_def)
qed

section \<open>Runs\<close>

text \<open>
  One call on the state.  \<open>Leak\<close> is a validated header that is neither finished nor dropped, which
  safe Rust allows; sending uses a fresh zeroed buffer of the given length.
\<close>

datatype ControlOp = Send u32 bytes nat | Receive bytes | Leak bytes | Begin | End | Poison

definition finished :: "('a, 'e) result \<Rightarrow> (unit, 'e) result" where
  "finished r = rbind r (\<lambda>_. Ok ())"

primrec control_op :: "ControlOp \<Rightarrow> ControlState \<Rightarrow> ControlState \<times> (unit, ControlError) result" where
  "control_op (Send kind payload n) s =
     map_prod id finished (encode_parts_into s kind payload (replicate n 0))"
| "control_op (Receive b) s = map_prod id finished (decode_owned s b)"
| "control_op (Leak b) s = map_prod id finished (validate_header s b)"
| "control_op Begin s = begin_transaction s"
| "control_op End s = end_transaction s"
| "control_op Poison s = (poison s, Ok ())"

primrec control_run ::
    "ControlOp list \<Rightarrow> ControlState \<Rightarrow> ControlState \<times> (unit, ControlError) result list" where
  "control_run [] s = (s, [])"
| "control_run (op # ops) s =
     (case control_op op s of (s', r) \<Rightarrow> map_prod id (Cons r) (control_run ops s'))"

lemma finished_simps [simp]: "finished (Ok x) = Ok ()" "finished (Err e) = Err e" "finished Panic = Panic"
  by (simp_all add: finished_def)

lemma finished_Err [outcome]: "finished r = Err e \<longleftrightarrow> r = Err e"
  by (cases r) auto

definition local_error :: "ControlError \<Rightarrow> bool" where
  "local_error e \<longleftrightarrow> e \<in> {ReservedKind, PayloadTooLarge, LengthOverflow, DestinationTooSmall}"

definition dead :: "ControlState \<Rightarrow> bool" where
  "dead s \<longleftrightarrow> cs_poisoned s \<and> length (cs_nonce s) = 32"

lemma poisoned_op:
  assumes "dead s"
  shows "dead (fst (control_op op s)) \<and>
    cs_next_send (fst (control_op op s)) = cs_next_send s \<and>
    cs_next_receive (fst (control_op op s)) = cs_next_receive s \<and>
    (op = Poison \<or> (\<exists>e. snd (control_op op s) = Err e))"
proof (cases op)
  case (Send kind payload n)
  then show ?thesis
    using assms by (simp add: encode_parts_into_def encoded_len_parts_def check_local_parts_def dead_def)
next
  case (Receive b)
  then show ?thesis
    using assms by (simp add: decode_owned_eq validate_header_inner_def drop_pending_def dead_def)
next
  case (Leak b)
  then show ?thesis using assms by (simp add: validate_header_def validate_header_inner_def dead_def)
qed (use assms in \<open>simp_all add: begin_transaction_def end_transaction_def poison_def dead_def\<close>)

lemma poisoned_run:
  assumes "dead s" "control_run ops s = (t, rs)"
  shows "cs_poisoned t \<and> cs_next_send t = cs_next_send s \<and> cs_next_receive t = cs_next_receive s \<and>
    list_all2 (\<lambda>op r. op = Poison \<or> (\<exists>e. r = Err e)) ops rs"
  using assms
proof (induction ops arbitrary: s rs)
  case (Cons op ops)
  obtain s' r where o: "control_op op s = (s', r)" by fastforce
  obtain rs' where rs: "control_run ops s' = (t, rs')" "rs = r # rs'"
    using Cons.prems(2) o by (cases "control_run ops s'") auto
  show ?case using poisoned_op [OF Cons.prems(1), of op] Cons.IH [of s' rs'] o rs by simp
qed (simp add: dead_def)

section \<open>Streams\<close>

text \<open>
  A sender that encodes each record into an exact zeroed buffer, as the accepted dispatcher does, and
  the frames that a receiver accepts out of a sequence of records.
\<close>

primrec send_all ::
    "ControlState \<Rightarrow> ControlFrame list \<Rightarrow> ControlState \<times> (bytes list, ControlError) result" where
  "send_all s [] = (s, Ok [])"
| "send_all s (f # fs) =
     sbind (s, encoded_len_parts s (cf_kind f) (length (cf_payload f))) (\<lambda>s n.
     sbind (encode_parts_into s (cf_kind f) (cf_payload f) (replicate n 0)) (\<lambda>s w.
     sbind (send_all s fs) (\<lambda>s ws. (s, Ok (fst w # ws)))))"

primrec receive_all :: "ControlState \<Rightarrow> bytes list \<Rightarrow> ControlState \<times> ControlFrame list" where
  "receive_all s [] = (s, [])"
| "receive_all s (w # ws) =
     (case decode_owned s w of
        (s', Ok f) \<Rightarrow> map_prod id (Cons f) (receive_all s' ws)
      | (s', _) \<Rightarrow> receive_all s' ws)"

lemma encoded_len_parts_Ok:
  "encoded_len_parts s kind (length payload) = Ok n \<Longrightarrow> n = 72 + length payload"
  by (auto simp: encoded_len_parts_def outcome control_wire_len_def CONTROL_HEADER_LEN_def
      checked_add_usize_def split: if_splits)

definition wires :: "bytes \<Rightarrow> u64 \<Rightarrow> ControlFrame list \<Rightarrow> bytes list" where
  "wires nonce q fs =
     map (\<lambda>(i, f). record_bytes nonce (q + word_of_nat i) (cf_kind f) (cf_payload f)) (enumerate 0 fs)"

lemma wires_Cons:
  "wires nonce q (f # fs) = record_bytes nonce q (cf_kind f) (cf_payload f) # wires nonce (q + 1) fs"
  by (rule nth_equalityI) (auto simp: wires_def nth_enumerate_eq nth_Cons add.assoc split: nat.splits)

lemma length_wires [simp]: "length (wires nonce q fs) = length fs"
  by (simp add: wires_def)

lemma nth_wires:
  "i < length fs \<Longrightarrow>
     wires nonce q fs ! i = record_bytes nonce (q + word_of_nat i) (cf_kind (fs ! i)) (cf_payload (fs ! i))"
  by (simp add: wires_def nth_enumerate_eq)

lemma send_all_Ok:
  assumes "length (cs_nonce s) = 32" "send_all s fs = (s', Ok ws)"
  shows "ws = wires (cs_nonce s) (cs_next_send s) fs \<and> unat (cs_next_send s) + length fs < 2 ^ 64 \<and>
    (\<forall>f \<in> set fs. admissible (cs_maximum_payload s) (cf_kind f) (cf_payload f))"
  using assms
proof (induction fs arbitrary: s ws)
  case Nil
  then show ?case using unat_lt_pow [of "cs_next_send s"] by (simp add: wires_def)
next
  case (Cons f fs)
  let ?t = "s\<lparr>cs_next_send := cs_next_send s + 1\<rparr>"
  obtain n t w ws' where
    n: "encoded_len_parts s (cf_kind f) (length (cf_payload f)) = Ok n"
    and e: "encode_parts_into s (cf_kind f) (cf_payload f) (replicate n 0) = (t, Ok w)"
    and r: "send_all t fs = (s', Ok ws')" "ws = fst w # ws'"
    using Cons.prems(2) by (auto simp: outcome)
  obtain d m where w: "w = (d, m)" by fastforce
  have q: "cs_next_send s \<noteq> - 1" "t = ?t" "admissible (cs_maximum_payload s) (cf_kind f) (cf_payload f)"
    "d = record_bytes (cs_nonce s) (cs_next_send s) (cf_kind f) (cf_payload f)"
    using e encoded_len_parts_Ok [OF n] unfolding w encode_parts_into_Ok [OF Cons.prems(1)] by simp_all
  have "unat (cs_next_send s + 1) = unat (cs_next_send s) + 1"
    by (rule unat_next_send [OF q(1)])
  then show ?case
    using Cons.IH [of ?t ws'] Cons.prems(1) r q w by (simp add: wires_Cons)
qed

lemma record_bytes_inject:
  assumes "length nonce = 32"
  shows "record_bytes nonce q k p = record_bytes nonce q' k' p' \<longleftrightarrow> q = q' \<and> k = k' \<and> p = p'"
proof -
  have "q = q' \<and> k = k' \<and> p = p'" if e: "record_bytes nonce q k p = record_bytes nonce q' k' p'"
  proof -
    let ?a = "concat (record_header nonce q k (length p))"
    let ?b = "concat (record_header nonce q' k' (length p'))"
    have "length ?a = length ?b" by (simp only: length_record_header [OF assms])
    then have ab: "?a = ?b" and p: "p = p'"
      using e [unfolded record_bytes_def] append_eq_append_conv [of ?a ?b p p'] by blast+
    have c: "?a = concat (record_header nonce q' k' (length p))" using ab by (simp only: p)
    have "record_header nonce q k (length p) = record_header nonce q' k' (length p)"
      using pieces_header_iff [OF assms, THEN iffD2, OF refl, THEN conjunct2]
        pieces_header_iff [OF assms, THEN iffD2, OF c, THEN conjunct2] by simp
    with p show ?thesis by (simp add: record_header_def le_bytes_inj)
  qed
  then show ?thesis by auto
qed

lemma receive_all_poisoned: "cs_poisoned r \<Longrightarrow> snd (receive_all r ws) = []"
  by (induction ws arbitrary: r)
    (auto simp: decode_owned_eq validate_header_inner_def drop_pending_def split: result.splits)

lemma receive_subset_prefix:
  assumes "length (cs_nonce r) = 32" "cs_next_receive r = q + word_of_nat k" "k \<le> length fs"
    "unat q + length fs < 2 ^ 64" "set vs \<subseteq> set (wires (cs_nonce r) q fs)"
  shows "prefix (snd (receive_all r vs)) (drop k fs)"
  using assms
proof (induction vs arbitrary: r k)
  case (Cons v vs)
  obtain r' out where o: "decode_owned r v = (r', out)" by fastforce
  show ?case
  proof (cases out)
    case (Ok f)
    have d: "v = record_bytes (cs_nonce r) (q + word_of_nat k) (cf_kind f) (cf_payload f)"
      "r' = r\<lparr>cs_next_receive := q + word_of_nat k + 1\<rparr>"
      using o Cons.prems(2) unfolding Ok decode_owned_Ok [OF Cons.prems(1)] by simp_all
    obtain i where i: "i < length fs" "v = wires (cs_nonce r) q fs ! i"
      using Cons.prems(5) by (auto simp: in_set_conv_nth)
    then have same: "q + word_of_nat k = q + word_of_nat i" "f = fs ! i"
      using d(1) record_bytes_inject [OF Cons.prems(1)] by (simp_all add: nth_wires)
    have "unat (word_of_nat k :: u64) = k" "unat (word_of_nat i :: u64) = i"
      using Cons.prems(3,4) i(1) by (simp_all add: unat_of_nat take_bit_nat_eq_self)
    then have k: "i = k" using same(1) by (metis add_left_cancel)
    have "prefix (snd (receive_all r' vs)) (drop (Suc k) fs)"
      using Cons.IH [of r' "Suc k"] Cons.prems i k d(2) by (simp add: add.assoc add.commute)
    then show ?thesis
      using o Ok same(2) k i(1) by (simp add: Cons_nth_drop_Suc [symmetric])
  next
    case (Err e)
    then have "cs_poisoned r'" using decode_owned_Err [of r v r' e] o by (auto simp: drop_pending_def)
    then show ?thesis using o Err by (simp add: receive_all_poisoned)
  next
    case Panic
    then show ?thesis using decode_owned_Panic [of r v] o by simp
  qed
qed simp

lemma receive_wires:
  assumes "length (cs_nonce r) = 32" "unat (cs_next_receive r) + length fs < 2 ^ 64"
    "\<not> cs_poisoned r" "\<not> cs_transaction_open r" "\<not> cs_pending_receive r"
    "\<forall>f \<in> set fs. admissible (cs_maximum_payload r) (cf_kind f) (cf_payload f)"
  shows "receive_all r (wires (cs_nonce r) (cs_next_receive r) fs) =
    (r\<lparr>cs_next_receive := cs_next_receive r + word_of_nat (length fs)\<rparr>, fs)"
  using assms
proof (induction fs arbitrary: r)
  case (Cons f fs)
  let ?r = "r\<lparr>cs_next_receive := cs_next_receive r + 1\<rparr>"
  have q: "cs_next_receive r \<noteq> - 1"
    using Cons.prems(2) by (auto simp: unsigned_minus_1_eq_mask mask_eq_exp_minus_1)
  have d: "decode_owned r (record_bytes (cs_nonce r) (cs_next_receive r) (cf_kind f) (cf_payload f)) = (?r, Ok f)"
    unfolding decode_owned_Ok [OF Cons.prems(1)] using Cons.prems q by simp
  have "receive_all ?r (wires (cs_nonce ?r) (cs_next_receive ?r) fs) =
      (?r\<lparr>cs_next_receive := cs_next_receive ?r + word_of_nat (length fs)\<rparr>, fs)"
    using Cons.prems unat_next_send [OF q] by (intro Cons.IH) simp_all
  then show ?case by (simp add: wires_Cons d add.assoc)
qed (simp add: wires_def)

lemma send_all_complete:
  assumes "length (cs_nonce s) = 32" "unat (cs_next_send s) + length fs < 2 ^ 64"
    "\<not> cs_poisoned s" "\<not> cs_transaction_open s" "\<not> cs_pending_receive s"
    "\<forall>f \<in> set fs. admissible (cs_maximum_payload s) (cf_kind f) (cf_payload f)"
  shows "\<exists>s'. send_all s fs = (s', Ok (wires (cs_nonce s) (cs_next_send s) fs))"
  using assms
proof (induction fs arbitrary: s)
  case (Cons f fs)
  let ?s = "s\<lparr>cs_next_send := cs_next_send s + 1\<rparr>" and ?n = "72 + length (cf_payload f)"
  have q: "cs_next_send s \<noteq> - 1"
    using Cons.prems(2) by (auto simp: unsigned_minus_1_eq_mask mask_eq_exp_minus_1)
  have e: "encode_parts_into s (cf_kind f) (cf_payload f) (replicate ?n 0) =
      (?s, Ok (record_bytes (cs_nonce s) (cs_next_send s) (cf_kind f) (cf_payload f), ?n))"
    unfolding encode_parts_into_Ok [OF Cons.prems(1)] using Cons.prems q by simp
  have "length (cf_payload f) \<le> 16777216"
    using Cons.prems(6) hard_max_control by (simp add: admissible_def)
  then have n: "encoded_len_parts s (cf_kind f) (length (cf_payload f)) = Ok ?n"
    using Cons.prems q
    by (simp add: encoded_len_parts_def check_local_parts_Ok [THEN iffD2] control_wire_len_def
        CONTROL_HEADER_LEN_def checked_add_usize_def usize_max_def)
  obtain s' where "send_all ?s fs = (s', Ok (wires (cs_nonce ?s) (cs_next_send ?s) fs))"
    using Cons.IH [of ?s] Cons.prems unat_next_send [OF q] by auto
  then show ?case by (simp add: wires_Cons n e)
qed (simp add: wires_def)

lemma encode_parts_into_Err:
  "encode_parts_into s kind payload d = (s', Err e) \<Longrightarrow>
     if local_error e then s' = s \<and> \<not> cs_poisoned s else cs_poisoned s' \<and> cs_nonce s' = cs_nonce s"
proof -
  assume a: "encode_parts_into s kind payload d = (s', Err e)"
  have check: "encoded_len_parts s kind n = Err e' \<Longrightarrow>
      if local_error e' then \<not> cs_poisoned s
      else cs_poisoned s \<or> cs_transaction_open s \<or> cs_next_send s = - 1" for n e'
    by (auto simp: encoded_len_parts_def check_local_parts_def outcome local_error_def split: if_splits)
  have alive: "encoded_len_parts s kind n = Ok m \<Longrightarrow> \<not> cs_poisoned s" for n m
    by (auto simp: encoded_len_parts_def check_local_parts_def outcome split: if_splits)
  have copy: "copy_from_slice b i j x \<noteq> Err e'" for b i j x and e' :: ControlError
    by (simp add: copy_from_slice_def)
  have wrote: "write_record s kind payload n d = Err e' \<Longrightarrow> e' = LengthOverflow" for n e'
    by (auto simp: write_record_def outcome fill_def put_u16_def put_u32_def put_u64_def copy)
  show ?thesis
    using a check [of "length payload" e] alive [of "length payload"] wrote next_send_sequence [of "cs_next_send s"]
    by (auto simp: encode_parts_into_def sbind_def local_error_def split: if_splits result.splits)
qed

lemma failed_op:
  assumes "control_op op s = (s', Err e)"
  shows "if (\<exists>kind payload n. op = Send kind payload n) \<and> local_error e
    then s' = s \<and> \<not> cs_poisoned s else cs_poisoned s' \<and> cs_nonce s' = cs_nonce s"
proof (cases op)
  case (Send kind payload n)
  then have "encode_parts_into s kind payload (replicate n 0) = (s', Err e)"
    using assms by (cases "encode_parts_into s kind payload (replicate n 0)") (simp add: outcome)
  from encode_parts_into_Err [OF this] Send show ?thesis by auto
next
  case (Receive b)
  then have "decode_owned s b = (s', Err e)"
    using assms by (cases "decode_owned s b") (simp add: outcome)
  from decode_owned_Err [OF this] Receive show ?thesis by (auto simp: drop_pending_def)
next
  case (Leak b)
  then show ?thesis
    using assms by (auto simp: validate_header_def outcome split: result.splits)
qed (use assms in \<open>auto simp: begin_transaction_def end_transaction_def split: if_splits\<close>)

section \<open>Properties\<close>

text \<open>C31: A receiver accepts exactly the canonical record of its own session that carries the next
  sequence number and an admissible kind and payload, returns that payload unchanged and advances the
  sequence by one.  No input makes it panic.\<close>

theorem control_receive_exact:
  assumes "length (cs_nonce s) = 32"
  shows "snd (decode_owned s b) \<noteq> Panic \<and>
   (decode_owned s b = (s', Ok f) \<longleftrightarrow>
      \<not> cs_poisoned s \<and> \<not> cs_transaction_open s \<and> \<not> cs_pending_receive s \<and> cs_next_receive s \<noteq> - 1 \<and>
      admissible (cs_maximum_payload s) (cf_kind f) (cf_payload f) \<and>
      b = record_bytes (cs_nonce s) (cs_next_receive s) (cf_kind f) (cf_payload f) \<and>
      s' = s\<lparr>cs_next_receive := cs_next_receive s + 1\<rparr>)"
  using decode_owned_Panic decode_owned_Ok [OF assms] by blast

definition example_control :: ControlState where
  "example_control =
     \<lparr>cs_nonce = replicate 32 9, cs_maximum_payload = 64, cs_next_send = 1, cs_next_receive = 1,
      cs_transaction_open = False, cs_poisoned = False, cs_pending_receive = False\<rparr>"

definition example_frames :: "ControlFrame list" where
  "example_frames =
     [\<lparr>cf_kind = 0x80000001, cf_payload = [1, 2, 3]\<rparr>, \<lparr>cf_kind = 0x80000002, cf_payload = []\<rparr>]"

lemma example_control_new: "ControlState_new (replicate 32 9) 64 = Some example_control"
  by (simp add: ControlState_new_def example_control_def HARD_MAX_CONTROL_PAYLOAD_BYTES_def)

lemma example_control_sel:
  "cs_nonce example_control = replicate 32 9" "cs_maximum_payload example_control = 64"
  "cs_next_send example_control = 1" "cs_next_receive example_control = 1"
  "\<not> cs_transaction_open example_control" "\<not> cs_poisoned example_control"
  "\<not> cs_pending_receive example_control" "length example_frames = 2"
  by (simp_all add: example_control_def example_frames_def)

theorem control_receive_exact_witness:
  "decode_owned example_control (record_bytes (replicate 32 9) 1 0x80000001 [1, 2, 3]) =
     (example_control\<lparr>cs_next_receive := 2\<rparr>, Ok \<lparr>cf_kind = 0x80000001, cf_payload = [1, 2, 3]\<rparr>)"
  using control_receive_exact [of example_control
      "record_bytes (replicate 32 9) 1 0x80000001 [1, 2, 3]" "example_control\<lparr>cs_next_receive := 2\<rparr>"
      "\<lparr>cf_kind = 0x80000001, cf_payload = [1, 2, 3]\<rparr>"]
  by (simp add: example_control_def admissible_def APPLICATION_CONTROL_KIND_MIN_def
      HARD_MAX_CONTROL_PAYLOAD_BYTES_def)

text \<open>Whatever selection of a sender's records reaches the receiver, in whatever order and however
  often, the frames it accepts are a prefix of the frames sent: none lost in between, none repeated,
  none reordered.  When the records arrive as sent, all frames are accepted.\<close>

theorem control_stream_prefix:
  assumes "length (cs_nonce s) = 32" "send_all s fs = (s', Ok ws)"
    "cs_nonce r = cs_nonce s" "cs_next_receive r = cs_next_send s"
    "\<not> cs_poisoned r" "\<not> cs_transaction_open r" "\<not> cs_pending_receive r"
    "cs_maximum_payload r = cs_maximum_payload s"
  shows "(set vs \<subseteq> set ws \<longrightarrow> prefix (snd (receive_all r vs)) fs) \<and> snd (receive_all r ws) = fs"
proof -
  have w: "ws = wires (cs_nonce r) (cs_next_receive r) fs" "unat (cs_next_receive r) + length fs < 2 ^ 64"
    "\<forall>f \<in> set fs. admissible (cs_maximum_payload r) (cf_kind f) (cf_payload f)"
    using send_all_Ok [OF assms(1,2)] assms(3,4,8) by simp_all
  have "snd (receive_all r ws) = fs"
    using receive_wires [of r fs] w assms by simp
  moreover have "prefix (snd (receive_all r vs)) (drop 0 fs)" if "set vs \<subseteq> set ws"
    using receive_subset_prefix [of r "cs_next_receive r" 0 fs vs] that w assms(1,3) by simp
  ultimately show ?thesis by simp
qed

theorem control_stream_prefix_witness:
  "\<exists>s' a b. send_all example_control example_frames = (s', Ok [a, b]) \<and>
     snd (receive_all example_control [a, b]) = example_frames \<and>
     prefix (snd (receive_all example_control [a, a, b])) example_frames \<and>
     prefix (snd (receive_all example_control [b, a])) example_frames"
proof -
  have f: "\<forall>f \<in> set example_frames. admissible 64 (cf_kind f) (cf_payload f)"
    by (simp add: example_frames_def admissible_def APPLICATION_CONTROL_KIND_MIN_def
        HARD_MAX_CONTROL_PAYLOAD_BYTES_def)
  obtain s' where s: "send_all example_control example_frames = (s', Ok (wires (replicate 32 9) 1 example_frames))"
    using send_all_complete [of example_control example_frames] f by (auto simp: example_control_sel)
  moreover obtain a b where w: "wires (replicate 32 9) 1 example_frames = [a, b]"
    by (simp add: example_frames_def wires_Cons wires_def)
  moreover have "(set vs \<subseteq> {a, b} \<longrightarrow> prefix (snd (receive_all example_control vs)) example_frames) \<and>
      snd (receive_all example_control [a, b]) = example_frames" for vs
    using control_stream_prefix [OF _ s, of example_control vs] by (simp add: w example_control_sel del: receive_all.simps)
  from this [of "[a, a, b]"] this [of "[b, a]"]
  have "snd (receive_all example_control [a, b]) = example_frames \<and>
      prefix (snd (receive_all example_control [a, a, b])) example_frames \<and>
      prefix (snd (receive_all example_control [b, a])) example_frames"
    by (simp del: receive_all.simps)
  ultimately show ?thesis by metis
qed

text \<open>C32: Every failed receive, transaction change or abandoned header poisons the state, and so does a
  failed send unless it is one of the four local argument errors, which leave the state as it was.
  Once poisoned, every sequence of calls leaves the state poisoned with both sequence numbers fixed
  and every call fails.\<close>

theorem control_failure_terminal:
  assumes "length (cs_nonce s) = 32" "control_op op s = (s', Err e)"
  shows "if (\<exists>kind payload n. op = Send kind payload n) \<and> local_error e
    then s' = s \<and> \<not> cs_poisoned s
    else cs_poisoned s' \<and>
      (\<forall>ops t rs. control_run ops s' = (t, rs) \<longrightarrow>
         cs_poisoned t \<and> cs_next_send t = cs_next_send s' \<and> cs_next_receive t = cs_next_receive s' \<and>
         list_all2 (\<lambda>op r. op = Poison \<or> (\<exists>e. r = Err e)) ops rs)"
proof (cases "(\<exists>kind payload n. op = Send kind payload n) \<and> local_error e")
  case True
  then show ?thesis using failed_op [OF assms(2)] by auto
next
  case False
  then have "dead s'" using failed_op [OF assms(2)] assms(1) by (auto simp: dead_def)
  then show ?thesis using False poisoned_run [of s'] by (auto simp: dead_def)
qed

theorem control_failure_terminal_witness:
  "control_op (Receive [1, 2, 3]) example_control = (example_control\<lparr>cs_poisoned := True\<rparr>, Err Truncated) \<and>
   cs_poisoned (fst (control_run [Begin, Receive [], End] (example_control\<lparr>cs_poisoned := True\<rparr>)))"
proof -
  have o: "control_op (Receive [1, 2, 3]) example_control =
      (example_control\<lparr>cs_poisoned := True\<rparr>, Err Truncated)"
    by (simp add: decode_owned_eq)
  obtain t rs where r: "control_run [Begin, Receive [], End] (example_control\<lparr>cs_poisoned := True\<rparr>) = (t, rs)"
    by fastforce
  have "cs_poisoned t"
    using control_failure_terminal [OF _ o] r
    by (simp add: example_control_def del: control_run.simps)
  with o r show ?thesis by simp
qed

end
