(* ===== verification/Dispatcher.thy ===== *)
theory Dispatcher
  imports Batch Control Transcript
begin

text \<open>
  The accepted session owner, \<^verbatim>\<open>native-ipc/src/backend/accepted_control.rs\<close>, with the role-scoped evidence
  and the transport trait of \<^verbatim>\<open>native-ipc/src/backend/mod.rs\<close>.  A transport is a record of its operations
  on a state of its own; deadlines are instants and every reading of the clock is an argument.  The
  resources of the session are the ledger of theory Liveness.
\<close>

section \<open>Evidence\<close>

record SpawnIdentityFacts =
  sf_parent_pid :: u32
  sf_child_pid :: u32
  sf_parent_uid :: u32
  sf_parent_gid :: u32
  sf_child_uid :: u32
  sf_child_gid :: u32
  sf_nonce :: bytes

definition SpawnIdentityFacts_new ::
    "u32 \<Rightarrow> u32 \<Rightarrow> u32 \<Rightarrow> u32 \<Rightarrow> u32 \<Rightarrow> u32 \<Rightarrow> bytes \<Rightarrow> SpawnIdentityFacts option" where
  "SpawnIdentityFacts_new parent_pid child_pid parent_uid parent_gid child_uid child_gid nonce =
     (if parent_pid = 0 \<or> child_pid = 0 \<or> parent_pid = child_pid \<or> nonce = replicate 32 0 then None
      else
        Some \<lparr>sf_parent_pid = parent_pid, sf_child_pid = child_pid, sf_parent_uid = parent_uid,
          sf_parent_gid = parent_gid, sf_child_uid = child_uid, sf_child_gid = child_gid,
          sf_nonce = nonce\<rparr>)"

record ProtocolVersion =
  pv_major :: u16
  pv_minor :: u16

record AcceptedSessionParameters =
  sp_facts :: SpawnIdentityFacts
  sp_limits :: SessionLimits
  sp_authority_profile :: NativeAuthorityProfile
  sp_atomics :: AtomicCapabilities
  sp_protocol_version :: ProtocolVersion

datatype PeerState = Running | ExitedUnknown

datatype SessionTransportError =
    DeadlineExpired | PeerExited | MalformedRecord | RecordTooLarge | IdentityMismatch | Ambiguous
  | TransportPoisoned | Native "int option"

record AcceptedEvidence =
  ev_facts :: SpawnIdentityFacts
  ev_transcript :: AcceptedTranscriptFacts

text \<open>The coordinator combines the facts of its channel and of the child's image.\<close>

definition combine ::
    "SpawnIdentityFacts \<Rightarrow> SpawnIdentityFacts \<Rightarrow> AcceptedTranscriptFacts \<Rightarrow>
     (AcceptedEvidence, SessionTransportError) result" where
  "combine channel child_image transcript =
     (if channel \<noteq> child_image \<or> sf_nonce channel \<noteq> af_nonce transcript then Err IdentityMismatch
      else Ok \<lparr>ev_facts = channel, ev_transcript = transcript\<rparr>)"

definition from_verified_native ::
    "SpawnIdentityFacts \<Rightarrow> AcceptedTranscriptFacts \<Rightarrow> (AcceptedEvidence, SessionTransportError) result" where
  "from_verified_native facts transcript =
     (if sf_nonce facts \<noteq> af_nonce transcript then Err IdentityMismatch
      else Ok \<lparr>ev_facts = facts, ev_transcript = transcript\<rparr>)"

definition session_parameters :: "AcceptedEvidence \<Rightarrow> NativeAuthorityProfile \<Rightarrow> AcceptedSessionParameters" where
  "session_parameters evidence authority_profile =
     (let transcript = ev_transcript evidence in
      \<lparr>sp_facts = ev_facts evidence, sp_limits = af_effective_limits transcript,
       sp_authority_profile = authority_profile,
       sp_atomics = from_accepted_offer (af_effective_atomics transcript),
       sp_protocol_version = \<lparr>pv_major = af_wire_major transcript, pv_minor = af_wire_minor transcript\<rparr>\<rparr>)"

section \<open>Transports and deadlines\<close>

type_synonym AbsoluteDeadline = nat

text \<open>\<open>now\<close> is the instant the clock shows.\<close>

definition is_expired :: "nat \<Rightarrow> AbsoluteDeadline \<Rightarrow> bool" where
  "is_expired now deadline \<longleftrightarrow> deadline - now = 0"

record 's Transport =
  t_send_record :: "bytes \<Rightarrow> AbsoluteDeadline \<Rightarrow> 's \<Rightarrow> 's \<times> (unit, SessionTransportError) result"
  t_receive_record :: "usize \<Rightarrow> AbsoluteDeadline \<Rightarrow> 's \<Rightarrow> 's \<times> (bytes, SessionTransportError) result"
  t_try_poll_peer :: "'s \<Rightarrow> 's \<times> (PeerState, SessionTransportError) result"
  t_poison :: "'s \<Rightarrow> 's"

section \<open>The dispatcher\<close>

datatype AcceptedControlError = Control ControlError | Transport SessionTransportError

record 's Dispatcher =
  d_transport :: 's
  d_state :: ControlState
  d_maximum_wire_len :: usize
  d_parameters :: AcceptedSessionParameters
  d_next_transaction :: u64
  d_resources :: Ledger

text \<open>A dispatcher that cannot be built gives the transport back.\<close>

definition Dispatcher_new :: "'s \<Rightarrow> AcceptedSessionParameters \<Rightarrow> 's Dispatcher option" where
  "Dispatcher_new transport parameters =
     (let limits = sp_limits parameters; maximum_payload = max_control_payload_bytes limits in
      if \<not> is_ok (SessionLimits_validate limits) \<or> \<not> is_vnext (sp_authority_profile parameters) then None
      else
        case control_wire_len (unat maximum_payload) of
          None \<Rightarrow> None
        | Some maximum_wire_len \<Rightarrow>
            (case ControlState_new (sf_nonce (sp_facts parameters)) maximum_payload of
               None \<Rightarrow> None
             | Some s \<Rightarrow>
                 (case ResourceOwner_new limits of
                    Ok resources \<Rightarrow>
                      Some \<lparr>d_transport = transport, d_state = s, d_maximum_wire_len = maximum_wire_len,
                        d_parameters = parameters, d_next_transaction = 1, d_resources = resources\<rparr>
                  | _ \<Rightarrow> None)))"

definition poison_both :: "('s, 'z) Transport_scheme \<Rightarrow> 's Dispatcher \<Rightarrow> 's Dispatcher" where
  "poison_both T d =
     d\<lparr>d_state := Control.poison (d_state d), d_transport := t_poison T (d_transport d),
       d_resources := Liveness.poison (d_resources d)\<rparr>"

text \<open>\<open>alloc n\<close> says whether the vector of \<open>n\<close> bytes can be reserved.\<close>

definition send_parts ::
    "('s, 'z) Transport_scheme \<Rightarrow> (usize \<Rightarrow> bool) \<Rightarrow> u32 \<Rightarrow> bytes \<Rightarrow> AbsoluteDeadline \<Rightarrow> 's Dispatcher \<Rightarrow>
     's Dispatcher \<times> (unit, AcceptedControlError) result" where
  "send_parts T alloc kind payload deadline d =
     (if cs_poisoned (d_state d) then (d, Err (Control ControlError.Poisoned))
      else
        case encoded_len_parts (d_state d) kind (length payload) of
          Err e \<Rightarrow>
            (if e = TransactionConflict \<or> e = SequenceExhausted then poison_both T d else d, Err (Control e))
        | Panic \<Rightarrow> (d, Panic)
        | Ok wire_len \<Rightarrow>
            if \<not> alloc wire_len then (d, Err (Control ControlError.AllocationFailed))
            else
              (case encode_parts_into (d_state d) kind payload (replicate wire_len 0) of
                 (s, Err e) \<Rightarrow>
                   (d\<lparr>d_state := s,
                      d_transport := if cs_poisoned s then t_poison T (d_transport d) else d_transport d\<rparr>,
                    Err (Control e))
               | (s, Panic) \<Rightarrow> (d\<lparr>d_state := s\<rparr>, Panic)
               | (s, Ok (wire, _)) \<Rightarrow>
                   (case t_send_record T wire deadline (d_transport d) of
                      (t, Ok _) \<Rightarrow> (d\<lparr>d_state := s, d_transport := t\<rparr>, Ok ())
                    | (t, Err e) \<Rightarrow> (poison_both T (d\<lparr>d_state := s, d_transport := t\<rparr>), Err (Transport e))
                    | (t, Panic) \<Rightarrow> (d\<lparr>d_state := s, d_transport := t\<rparr>, Panic))))"

definition receive ::
    "('s, 'z) Transport_scheme \<Rightarrow> AbsoluteDeadline \<Rightarrow> 's Dispatcher \<Rightarrow>
     's Dispatcher \<times> (ControlFrame, AcceptedControlError) result" where
  "receive T deadline d =
     (if cs_poisoned (d_state d) then (d, Err (Control ControlError.Poisoned))
      else if cs_transaction_open (d_state d) then (poison_both T d, Err (Control TransactionConflict))
      else
        case t_receive_record T (d_maximum_wire_len d) deadline (d_transport d) of
          (t, Err e) \<Rightarrow> (poison_both T (d\<lparr>d_transport := t\<rparr>), Err (Transport e))
        | (t, Panic) \<Rightarrow> (d\<lparr>d_transport := t\<rparr>, Panic)
        | (t, Ok wire) \<Rightarrow>
            let d = d\<lparr>d_transport := t\<rparr> in
            if length wire > d_maximum_wire_len d then (poison_both T d, Err (Transport RecordTooLarge))
            else
              (case decode_owned (d_state d) wire of
                 (s, Ok frame) \<Rightarrow> (d\<lparr>d_state := s\<rparr>, Ok frame)
               | (s, Err e) \<Rightarrow> (poison_both T (d\<lparr>d_state := s\<rparr>), Err (Control e))
               | (s, Panic) \<Rightarrow> (d\<lparr>d_state := s\<rparr>, Panic)))"

definition try_poll_peer ::
    "('s, 'z) Transport_scheme \<Rightarrow> 's Dispatcher \<Rightarrow> 's Dispatcher \<times> (PeerState, AcceptedControlError) result" where
  "try_poll_peer T d =
     (if cs_poisoned (d_state d) then (d, Err (Control ControlError.Poisoned))
      else
        case t_try_poll_peer T (d_transport d) of
          (t, Ok Running) \<Rightarrow> (d\<lparr>d_transport := t\<rparr>, Ok Running)
        | (t, Ok ExitedUnknown) \<Rightarrow> (poison_both T (d\<lparr>d_transport := t\<rparr>), Ok ExitedUnknown)
        | (t, Err e) \<Rightarrow> (poison_both T (d\<lparr>d_transport := t\<rparr>), Err (Transport e))
        | (t, Panic) \<Rightarrow> (d\<lparr>d_transport := t\<rparr>, Panic))"

datatype SessionState = SessionReady | SessionPoisoned

definition session_state :: "'s Dispatcher \<Rightarrow> (SessionState, 'e) result" where
  "session_state d =
     (if cs_poisoned (d_state d) then Ok SessionPoisoned
      else
        rbind (Liveness.state (d_resources d)) (\<lambda>live.
          Ok (if live \<noteq> Liveness.Active then SessionPoisoned else SessionReady)))"

definition try_close_resources ::
    "(nat \<Rightarrow> nat list) \<Rightarrow> 's Dispatcher \<Rightarrow> ('s Dispatcher \<times> (unit, ResourceError) result) option" where
  "try_close_resources sched d =
     (case try_close sched (d_resources d) of
        None \<Rightarrow> None
      | Some (L, r) \<Rightarrow> Some (d\<lparr>d_resources := L\<rparr>, r))"

section \<open>Reservations\<close>

text \<open>
  Dropping a reservation runs its lease's destructor.  Leases with equal charges are interchangeable,
  so the first such lease stands for it; destructors of other leases may run in between.
\<close>

definition drop_lease :: "nat list \<Rightarrow> RegionLease \<Rightarrow> Ledger \<Rightarrow> Ledger \<times> (unit, 'e) result" where
  "drop_lease between lease L =
     (let position = (\<lambda>l L. length (takeWhile (\<lambda>l'. l' \<noteq> l) (lg_leases L))) in
      sbind (drop_step (position lease L) L) (\<lambda>L _.
      sbind (drops between L) (\<lambda>L _.
        drop_step (position (lease\<lparr>rl_bytes_returned := True\<rparr>) L) L)))"

primrec drop_leases ::
    "(nat \<Rightarrow> nat list) \<Rightarrow> RegionLease list \<Rightarrow> Ledger \<Rightarrow> Ledger \<times> (unit, 'e) result" where
  "drop_leases between [] L = (L, Ok ())"
| "drop_leases between (l # ls) L =
     sbind (drop_lease (between (length ls)) l L) (\<lambda>L _. drop_leases between ls L)"

text \<open>\<open>sched k\<close> is what other threads do during the \<open>k\<close>-th reservation.\<close>

primrec reserve_loop ::
    "(nat \<Rightarrow> nat \<Rightarrow> nat list) \<Rightarrow> RegionLease list \<Rightarrow> u64 list \<Rightarrow> Ledger \<Rightarrow>
     Ledger \<times> (RegionLease list, ResourceError) result" where
  "reserve_loop sched held [] L = (L, Ok held)"
| "reserve_loop sched held (n # ns) L =
     (case reserve (sched (length ns)) n L of
        (L, Ok lease) \<Rightarrow> reserve_loop sched (held @ [lease]) ns L
      | (L, Err e) \<Rightarrow> sbind (drop_leases (\<lambda>k. sched (length ns) (6 + k)) held L) (\<lambda>L _. (L, Err e))
      | (L, Panic) \<Rightarrow> (L, Panic))"

definition reserve_mapped_lengths ::
    "(nat \<Rightarrow> nat \<Rightarrow> nat list) \<Rightarrow> u64 list \<Rightarrow> 's Dispatcher \<Rightarrow>
     's Dispatcher \<times> (RegionLease list, ResourceError) result" where
  "reserve_mapped_lengths sched mapped_lengths d =
     (case reserve_loop sched [] mapped_lengths (d_resources d) of (L, r) \<Rightarrow> (d\<lparr>d_resources := L\<rparr>, r))"

section \<open>Native transactions\<close>

definition enter_native_transaction ::
    "('s, 'z) Transport_scheme \<Rightarrow> nat \<Rightarrow> AbsoluteDeadline \<Rightarrow> 's Dispatcher \<Rightarrow>
     's Dispatcher \<times> (u64, AcceptedControlError) result" where
  "enter_native_transaction T now deadline d =
     (if cs_poisoned (d_state d) then (d, Err (Control ControlError.Poisoned))
      else if is_expired now deadline then (d, Err (Transport DeadlineExpired))
      else if d_next_transaction d > max_transactions (sp_limits (d_parameters d))
      then (poison_both T d, Err (Control SequenceExhausted))
      else
        case begin_transaction (d_state d) of
          (s, Err e) \<Rightarrow>
            (d\<lparr>d_state := s,
               d_transport := if cs_poisoned s then t_poison T (d_transport d) else d_transport d\<rparr>,
             Err (Control e))
        | (s, Panic) \<Rightarrow> (d\<lparr>d_state := s\<rparr>, Panic)
        | (s, Ok _) \<Rightarrow>
            let d = d\<lparr>d_state := s\<rparr> in
            (case checked_add (d_next_transaction d) 1 of
               None \<Rightarrow> (d, Panic)
             | Some next \<Rightarrow> (d\<lparr>d_next_transaction := next\<rparr>, Ok (d_next_transaction d))))"

text \<open>The debug assertion and the encoding of the manifest panic when they fail.\<close>

definition begin_native_transaction ::
    "('s, 'z) Transport_scheme \<Rightarrow> nat \<Rightarrow> nat \<Rightarrow> ManifestEntry list \<Rightarrow> AbsoluteDeadline \<Rightarrow> 's Dispatcher \<Rightarrow>
     's Dispatcher \<times> (CapabilityFrame, AcceptedControlError) result" where
  "begin_native_transaction T now now' entries deadline d =
     (if cs_poisoned (d_state d) then (d, Err (Control ControlError.Poisoned))
      else if is_expired now deadline then (d, Err (Transport DeadlineExpired))
      else
        let limits = sp_limits (d_parameters d); facts = sp_facts (d_parameters d) in
        if d_next_transaction d > max_transactions limits
        then (poison_both T d, Err (Control SequenceExhausted))
        else
          case new_with_authority (sf_nonce facts) (sf_parent_pid facts) (sf_child_pid facts)
              (d_next_transaction d) (sp_authority_profile (d_parameters d)) entries of
            Err _ \<Rightarrow> (d, Err (Control ControlError.NonCanonical))
          | Panic \<Rightarrow> (d, Panic)
          | Ok manifest \<Rightarrow>
              if \<not> fits_limits manifest limits then (d, Err (Control ControlError.PayloadTooLarge))
              else
                sbind (enter_native_transaction T now' deadline d) (\<lambda>d transaction_id.
                if transaction_id \<noteq> tm_transfer_id manifest then (d, Panic)
                else
                  case from_manifest manifest of
                    Ok frame \<Rightarrow> (d, Ok frame)
                  | _ \<Rightarrow> (d, Panic)))"

definition frame_matches_entries :: "'s Dispatcher \<Rightarrow> CapabilityFrame \<Rightarrow> ManifestEntry list \<Rightarrow> (bool, 'e) result" where
  "frame_matches_entries d frame entries =
     (case CapabilityFrame_decode (cf_bytes frame) of
        Err _ \<Rightarrow> Ok False
      | Panic \<Rightarrow> Panic
      | Ok (_, manifest) \<Rightarrow>
          let facts = sp_facts (d_parameters d) in
          (case new_with_authority (sf_nonce facts) (sf_parent_pid facts) (sf_child_pid facts)
              (tm_transfer_id manifest) (sp_authority_profile (d_parameters d)) entries of
             Err _ \<Rightarrow> Ok False
           | Panic \<Rightarrow> Panic
           | Ok expected \<Rightarrow>
               Ok (manifest = expected \<and> fits_limits manifest (sp_limits (d_parameters d)))))"

definition terminate_and_reap ::
    "('s, 'z) Transport_scheme \<Rightarrow> ('s \<Rightarrow> 's \<times> (unit, SessionTransportError) result) \<Rightarrow> 's Dispatcher \<Rightarrow>
     's Dispatcher \<times> (unit, SessionTransportError) result" where
  "terminate_and_reap T reap d =
     (case reap (t_poison T (d_transport d)) of
        (t, r) \<Rightarrow> (d\<lparr>d_transport := t, d_state := Control.poison (d_state d)\<rparr>, r))"

section \<open>Records that were cut short\<close>

lemma wires_snoc:
  "wires nonce q (fs @ [f]) =
     wires nonce q fs @ [record_bytes nonce (q + word_of_nat (length fs)) (cf_kind f) (cf_payload f)]"
  by (simp add: wires_def enumerate_append_eq)

lemma record_bytes_take:
  assumes "length nonce = 32" "length p < 2 ^ 32 - 72" "length p' < 2 ^ 32 - 72"
    "record_bytes nonce q k p = take n (record_bytes nonce q' k' p')"
  shows "q = q' \<and> k = k' \<and> p = p'"
proof -
  let ?a = "concat (record_header nonce q k (length p))"
  let ?b = "concat (record_header nonce q' k' (length p'))"
  have l: "length ?a = 72" "length ?b = 72"
    "length (record_bytes nonce q k p) = 72 + length p" "length (record_bytes nonce q' k' p') = 72 + length p'"
    using assms(1) by (simp_all only: length_record_header length_record_bytes)
  have m: "72 + length p = min (72 + length p') n"
    using arg_cong [OF assms(4), of length] by (simp only: l(3,4) length_take)
  have head: "length a = 72 \<Longrightarrow> take 72 (a @ b) = a" for a b :: bytes by simp
  have t: "take 72 (record_bytes nonce q k p) = ?a" "take 72 (record_bytes nonce q' k' p') = ?b"
    unfolding record_bytes_def by (rule head [OF l(1)], rule head [OF l(2)])
  have "take 72 (take n (record_bytes nonce q' k' p')) = take 72 (record_bytes nonce q' k' p')"
    using m by (simp only: take_take) (simp add: min_def split: if_splits)
  then have ab: "?a = ?b" unfolding assms(4) [symmetric] t .
  have "record_header nonce q k (length p) = record_header nonce q' k' (length p')"
    using pieces_header_iff [OF assms(1), of ?a q k "length p", THEN iffD2, OF refl, THEN conjunct2]
      pieces_header_iff [OF assms(1), of ?a q' k' "length p'", THEN iffD2, OF ab, THEN conjunct2]
    by (rule trans [OF sym])
  then have w: "(word_of_nat (length p) :: u32) = word_of_nat (length p')"
    by (simp add: record_header_def le_bytes_inj)
  have u: "unat (word_of_nat (length p) :: u32) = length p" "unat (word_of_nat (length p') :: u32) = length p'"
    using assms(2,3) by (simp_all add: unat_of_nat take_bit_nat_eq_self)
  have "length p = length p'" using arg_cong [OF w, of unat] by (simp only: u)
  then have "take n (record_bytes nonce q' k' p') = record_bytes nonce q' k' p'"
    using m l(4) by simp
  then have "record_bytes nonce q k p = record_bytes nonce q' k' p'" using assms(4) by simp
  then show ?thesis by (simp add: record_bytes_inject [OF assms(1)])
qed

section \<open>Outcomes\<close>

definition session_wf :: "'s Dispatcher \<Rightarrow> bool" where
  "session_wf d \<longleftrightarrow> length (cs_nonce (d_state d)) = 32 \<and> \<not> cs_pending_receive (d_state d)"

text \<open>Refusals of the caller's arguments, which leave the session as it was.\<close>

definition local_refusal :: "AcceptedControlError \<Rightarrow> bool" where
  "local_refusal e \<longleftrightarrow>
     e \<in> {Control ControlError.ReservedKind, Control ControlError.PayloadTooLarge, Control ControlError.LengthOverflow,
       Control ControlError.AllocationFailed, Control ControlError.NonCanonical, Transport DeadlineExpired}"

text \<open>A record handed to the transport.\<close>

definition hand_over ::
    "('s, 'z) Transport_scheme \<Rightarrow> u32 \<Rightarrow> bytes \<Rightarrow> AbsoluteDeadline \<Rightarrow> 's Dispatcher \<Rightarrow>
     's Dispatcher \<times> (unit, AcceptedControlError) result" where
  "hand_over T kind payload deadline d =
     (let s = d_state d; w = record_bytes (cs_nonce s) (cs_next_send s) kind payload;
          d' = d\<lparr>d_state := s\<lparr>cs_next_send := cs_next_send s + 1\<rparr>\<rparr> in
      case t_send_record T w deadline (d_transport d) of
        (t, Ok _) \<Rightarrow> (d'\<lparr>d_transport := t\<rparr>, Ok ())
      | (t, Err e) \<Rightarrow> (poison_both T (d'\<lparr>d_transport := t\<rparr>), Err (Transport e))
      | (t, Panic) \<Rightarrow> (d'\<lparr>d_transport := t\<rparr>, Panic))"

lemma encoded_len_parts_cases:
  "(encoded_len_parts s kind (length payload) = Ok (72 + length payload) \<and> \<not> cs_poisoned s \<and>
      \<not> cs_transaction_open s \<and> cs_next_send s \<noteq> - 1 \<and> admissible (cs_maximum_payload s) kind payload) \<or>
   (\<exists>e. encoded_len_parts s kind (length payload) = Err e \<and>
      (e \<in> {TransactionConflict, SequenceExhausted} \<or> local_refusal (Control e) \<or> cs_poisoned s))"
proof (cases "encoded_len_parts s kind (length payload)")
  case (Ok n)
  then have "n = 72 + length payload" by (rule encoded_len_parts_Ok)
  moreover have "check_local_parts s kind (length payload) = Ok ()"
    using Ok by (auto simp: encoded_len_parts_def outcome)
  ultimately show ?thesis using Ok by (simp add: check_local_parts_Ok)
next
  case (Err e)
  then show ?thesis
    by (auto simp: encoded_len_parts_def check_local_parts_def outcome local_refusal_def split: if_splits)
next
  case Panic
  then show ?thesis
    by (auto simp: encoded_len_parts_def check_local_parts_def outcome split: if_splits)
qed

lemma send_parts_cases:
  assumes "session_wf d" "\<not> cs_poisoned (d_state d)"
  obtains
    (refused) e where "local_refusal (Control e)" "send_parts T alloc kind payload deadline d = (d, Err (Control e))"
  | (closed) e where "send_parts T alloc kind payload deadline d = (poison_both T d, Err (Control e))"
      "\<not> local_refusal (Control e)"
  | (handed) "\<not> cs_transaction_open (d_state d)" "cs_next_send (d_state d) \<noteq> - 1"
      "admissible (cs_maximum_payload (d_state d)) kind payload"
      "send_parts T alloc kind payload deadline d = hand_over T kind payload deadline d"
proof -
  let ?s = "d_state d" and ?n = "72 + length payload"
  have nonce: "length (cs_nonce ?s) = 32" using assms(1) by (simp add: session_wf_def)
  consider (ok) "encoded_len_parts ?s kind (length payload) = Ok ?n" "\<not> cs_transaction_open ?s"
      "cs_next_send ?s \<noteq> - 1" "admissible (cs_maximum_payload ?s) kind payload"
    | (err) e where "encoded_len_parts ?s kind (length payload) = Err e"
      "e \<in> {TransactionConflict, SequenceExhausted} \<or> local_refusal (Control e)"
    using encoded_len_parts_cases [of ?s kind payload] assms(2) by blast
  then show thesis
  proof cases
    case ok
    have e: "encode_parts_into ?s kind payload (replicate ?n 0) =
        (?s\<lparr>cs_next_send := cs_next_send ?s + 1\<rparr>,
         Ok (record_bytes (cs_nonce ?s) (cs_next_send ?s) kind payload, ?n))"
      unfolding encode_parts_into_Ok [OF nonce] using ok assms by (simp add: session_wf_def)
    show thesis
    proof (cases "alloc ?n")
      case True
      then have "send_parts T alloc kind payload deadline d = hand_over T kind payload deadline d"
        using ok(1) assms(2) e by (simp add: send_parts_def hand_over_def Let_def)
      then show thesis by (rule handed [OF ok(2-4)])
    next
      case False
      then show thesis
        using refused [of ControlError.AllocationFailed] ok(1) assms(2)
        by (simp add: send_parts_def local_refusal_def)
    qed
  next
    case err
    then show thesis
    proof (cases "e \<in> {TransactionConflict, SequenceExhausted}")
      case True
      then show thesis
        using closed [of e] err(1) assms(2) by (auto simp: send_parts_def local_refusal_def)
    next
      case False
      then show thesis using refused [of e] err assms(2) by (auto simp: send_parts_def)
    qed
  qed
qed

text \<open>After a poisoning nothing reaches the transport any more.\<close>

lemma poisoned_dispatcher:
  assumes "cs_poisoned (d_state d)"
  shows "send_parts T alloc kind payload deadline d = (d, Err (Control ControlError.Poisoned))"
    "receive T deadline d = (d, Err (Control ControlError.Poisoned))"
    "try_poll_peer T d = (d, Err (Control ControlError.Poisoned))"
    "enter_native_transaction T now deadline d = (d, Err (Control ControlError.Poisoned))"
    "begin_native_transaction T now now' entries deadline d = (d, Err (Control ControlError.Poisoned))"
  using assms
  by (simp_all add: send_parts_def receive_def try_poll_peer_def enter_native_transaction_def
      begin_native_transaction_def)

section \<open>Runs of a session\<close>

datatype DispatchOp =
    SendFrame ControlFrame AbsoluteDeadline
  | ReceiveFrame AbsoluteDeadline
  | PollPeer
  | BeginNative nat nat "ManifestEntry list" AbsoluteDeadline
  | EndNative

text \<open>\<open>Unsure\<close> is a frame whose record was handed to the transport, which then failed.\<close>

datatype DispatchEvent =
    Sent ControlFrame | Unsure ControlFrame | Got ControlFrame | Began CapabilityFrame | Silent

primrec dispatch ::
    "('s, 'z) Transport_scheme \<Rightarrow> (usize \<Rightarrow> bool) \<Rightarrow> DispatchOp \<Rightarrow> 's Dispatcher \<Rightarrow> 's Dispatcher \<times> DispatchEvent" where
  "dispatch T alloc (SendFrame f deadline) d =
     map_prod id (\<lambda>r. case r of Ok _ \<Rightarrow> Sent f | Err (Transport _) \<Rightarrow> Unsure f | _ \<Rightarrow> Silent)
       (send_parts T alloc (cf_kind f) (cf_payload f) deadline d)"
| "dispatch T alloc (ReceiveFrame deadline) d =
     map_prod id (\<lambda>r. case r of Ok f \<Rightarrow> Got f | _ \<Rightarrow> Silent) (receive T deadline d)"
| "dispatch T alloc PollPeer d = map_prod id (\<lambda>_. Silent) (try_poll_peer T d)"
| "dispatch T alloc (BeginNative now now' entries deadline) d =
     map_prod id (\<lambda>r. case r of Ok f \<Rightarrow> Began f | _ \<Rightarrow> Silent)
       (begin_native_transaction T now now' entries deadline d)"
| "dispatch T alloc EndNative d =
     (case end_transaction (d_state d) of
        (s, Ok _) \<Rightarrow> d\<lparr>d_state := s\<rparr>
      | (s, _) \<Rightarrow> poison_both T (d\<lparr>d_state := s\<rparr>), Silent)"

primrec dispatch_run ::
    "('s, 'z) Transport_scheme \<Rightarrow> (usize \<Rightarrow> bool) \<Rightarrow> DispatchOp list \<Rightarrow> 's Dispatcher \<Rightarrow>
     's Dispatcher \<times> DispatchEvent list" where
  "dispatch_run T alloc [] d = (d, [])"
| "dispatch_run T alloc (op # ops) d =
     (case dispatch T alloc op d of (d', ev) \<Rightarrow> map_prod id (Cons ev) (dispatch_run T alloc ops d'))"

fun frame_of_sent :: "DispatchEvent \<Rightarrow> ControlFrame list" where
  "frame_of_sent (Sent f) = [f]"
| "frame_of_sent _ = []"

fun frame_of_handed :: "DispatchEvent \<Rightarrow> ControlFrame list" where
  "frame_of_handed (Sent f) = [f]"
| "frame_of_handed (Unsure f) = [f]"
| "frame_of_handed _ = []"

fun frame_of_got :: "DispatchEvent \<Rightarrow> ControlFrame list" where
  "frame_of_got (Got f) = [f]"
| "frame_of_got _ = []"

abbreviation sent_frames :: "DispatchEvent list \<Rightarrow> ControlFrame list" where
  "sent_frames evs \<equiv> concat (map frame_of_sent evs)"

abbreviation handed_frames :: "DispatchEvent list \<Rightarrow> ControlFrame list" where
  "handed_frames evs \<equiv> concat (map frame_of_handed evs)"

abbreviation got_frames :: "DispatchEvent list \<Rightarrow> ControlFrame list" where
  "got_frames evs \<equiv> concat (map frame_of_got evs)"

text \<open>
  What a session has exchanged: the counters count the frames, every record the transport took is (the
  beginning of) the record of a frame handed to it, and every frame returned to the application had
  its record received.
\<close>

definition stream_inv ::
    "('s \<Rightarrow> bytes list) \<Rightarrow> ('s \<Rightarrow> bytes list) \<Rightarrow> bytes \<Rightarrow> DispatchEvent list \<Rightarrow> 's Dispatcher \<Rightarrow> bool" where
  "stream_inv sent received nonce evs d \<longleftrightarrow>
     session_wf d \<and> cs_nonce (d_state d) = nonce \<and>
     unat (cs_next_send (d_state d)) = 1 + length (handed_frames evs) \<and>
     unat (cs_next_receive (d_state d)) = 1 + length (got_frames evs) \<and>
     (\<forall>f \<in> set (handed_frames evs @ got_frames evs). length (cf_payload f) \<le> 16777216) \<and>
     (\<forall>b \<in> set (sent (d_transport d)). \<exists>n. \<exists>w \<in> set (wires nonce 1 (handed_frames evs)). b = take n w) \<and>
     set (wires nonce 1 (got_frames evs)) \<subseteq> set (received (d_transport d)) \<and>
     (handed_frames evs = sent_frames evs \<or>
      cs_poisoned (d_state d) \<and> (\<exists>f. handed_frames evs = sent_frames evs @ [f]))"

lemma nth_wires_word:
  assumes "i < length fs"
  shows "wires nonce 1 fs ! i =
    record_bytes nonce (word_of_nat (Suc i)) (cf_kind (fs ! i)) (cf_payload (fs ! i))"
  using assms by (simp add: nth_wires)

text \<open>Two sessions with the same nonce, one receiving only what the other sent.\<close>

lemma stream_inv_prefix:
  assumes a: "stream_inv sent received nonce evs c" and b: "stream_inv sent received nonce evs' r"
    and chan: "set (received (d_transport r)) \<subseteq> set (sent (d_transport c))"
  shows "prefix (got_frames evs') (handed_frames evs)"
proof -
  let ?g = "got_frames evs'" and ?h = "handed_frames evs"
  have nonce: "length nonce = 32" using a by (auto simp: stream_inv_def session_wf_def)
  have small: "length ?g < 2 ^ 64 - 1" "length ?h < 2 ^ 64 - 1"
    using a b unat_lt_pow [of "cs_next_receive (d_state r)"] unat_lt_pow [of "cs_next_send (d_state c)"]
    by (simp_all add: stream_inv_def)
  have each: "i < length ?h \<and> ?g ! i = ?h ! i" if i: "i < length ?g" for i
  proof -
    have "wires nonce 1 ?g ! i \<in> set (wires nonce 1 ?g)" using i by (intro nth_mem) simp
    then have "wires nonce 1 ?g ! i \<in> set (sent (d_transport c))"
      using b chan unfolding stream_inv_def by blast
    then obtain n w where w: "w \<in> set (wires nonce 1 ?h)" "wires nonce 1 ?g ! i = take n w"
      using a unfolding stream_inv_def by blast
    obtain j where j: "j < length ?h" "w = wires nonce 1 ?h ! j" using w(1) by (auto simp: in_set_conv_nth)
    have len: "length (cf_payload (?g ! i)) \<le> 16777216" "length (cf_payload (?h ! j)) \<le> 16777216"
      using a b i j(1) nth_mem [OF i] nth_mem [OF j(1)] unfolding stream_inv_def by (auto simp del: nth_mem)
    have same: "(word_of_nat (Suc i) :: u64) = word_of_nat (Suc j) \<and> cf_kind (?g ! i) = cf_kind (?h ! j) \<and>
        cf_payload (?g ! i) = cf_payload (?h ! j)"
      using w(2) len unfolding j(2) nth_wires_word [OF i] nth_wires_word [OF j(1)]
      by (intro record_bytes_take [OF nonce, where n = n]) simp_all
    have "unat (word_of_nat (Suc i) :: u64) = Suc i" "unat (word_of_nat (Suc j) :: u64) = Suc j"
      using i j(1) small by (simp_all add: unat_of_nat take_bit_nat_eq_self del: of_nat_Suc)
    then have "Suc i = Suc j" using same by metis
    then show ?thesis using j(1) same by (simp add: ControlFrame.equality)
  qed
  have "length ?g \<le> length ?h" using each [of "length ?h"] by (cases "length ?g \<le> length ?h") auto
  then have "?g = take (length ?g) ?h" using each by (intro nth_equalityI) simp_all
  then show ?thesis by (metis take_is_prefix)
qed

lemma stream_inv_hand:
  assumes inv: "stream_inv sent received nonce evs d" and alive: "\<not> cs_poisoned (d_state d)"
    and state: "cs_nonce (d_state d') = nonce" "\<not> cs_pending_receive (d_state d')"
      "unat (cs_next_send (d_state d')) = 2 + length (handed_frames evs)"
      "cs_next_receive (d_state d') = cs_next_receive (d_state d)"
    and f: "length (cf_payload f) \<le> 16777216" "frame_of_handed ev = [f]" "frame_of_got ev = []"
      "frame_of_sent ev = [f] \<or> cs_poisoned (d_state d') \<and> frame_of_sent ev = []"
    and w: "wires nonce 1 (handed_frames evs @ [f]) = wires nonce 1 (handed_frames evs) @ [w]"
    and logs: "sent (d_transport d') = sent (d_transport d) \<or> sent (d_transport d') = sent (d_transport d) @ [take n w]"
      "received (d_transport d') = received (d_transport d)"
  shows "stream_inv sent received nonce (evs @ [ev]) d'"
proof -
  have h: "handed_frames (evs @ [ev]) = handed_frames evs @ [f]" "got_frames (evs @ [ev]) = got_frames evs"
    "handed_frames evs = sent_frames evs"
    using f inv alive by (auto simp: stream_inv_def)
  have old: "\<forall>b \<in> set (sent (d_transport d)). \<exists>n. \<exists>v \<in> set (wires nonce 1 (handed_frames evs)). b = take n v"
    using inv unfolding stream_inv_def by blast
  have "\<exists>n. \<exists>v \<in> set (wires nonce 1 (handed_frames evs @ [f])). b = take n v"
    if b: "b \<in> set (sent (d_transport d'))" for b
  proof (cases "b \<in> set (sent (d_transport d))")
    case True
    then show ?thesis using old unfolding w by (metis Un_iff set_append)
  next
    case False
    then have "b = take n w" using b logs(1) by auto
    then show ?thesis unfolding w by auto
  qed
  moreover have "sent_frames (evs @ [ev]) = handed_frames evs @ [f] \<or>
      cs_poisoned (d_state d') \<and> sent_frames (evs @ [ev]) = handed_frames evs"
    using f(4) h(3) by auto
  ultimately show ?thesis
    using inv state f(1) logs(2) unfolding stream_inv_def session_wf_def h(1,2) by auto
qed

lemma stream_inv_got:
  assumes inv: "stream_inv sent received nonce evs d" and alive: "\<not> cs_poisoned (d_state d)"
    and dec: "decode_owned (d_state d) w = (s, Ok f)"
    and logs: "sent (d_transport d') = sent (d_transport d)"
      "received (d_transport d') = received (d_transport d) @ [w]"
    and state: "d_state d' = s"
  shows "stream_inv sent received nonce (evs @ [Got f]) d'"
proof -
  let ?q = "cs_next_receive (d_state d)" and ?g = "got_frames evs"
  have len: "length (cs_nonce (d_state d)) = 32" using inv by (auto simp: stream_inv_def session_wf_def)
  have d: "?q \<noteq> - 1" "length (cf_payload f) \<le> 16777216"
    "w = record_bytes (cs_nonce (d_state d)) ?q (cf_kind f) (cf_payload f)"
    "s = (d_state d)\<lparr>cs_next_receive := ?q + 1\<rparr>"
    using dec hard_max_control unfolding decode_owned_Ok [OF len] admissible_def by auto
  have n: "unat ?q = 1 + length ?g" "cs_nonce (d_state d) = nonce" using inv by (simp_all add: stream_inv_def)
  have "?q = word_of_nat (unat ?q)" by simp
  then have "?q = 1 + word_of_nat (length ?g)" by (simp only: n of_nat_add of_nat_1)
  then have "wires nonce 1 (?g @ [f]) = wires nonce 1 ?g @ [w]" using d(3) n(2) by (simp add: wires_snoc)
  moreover have "unat (?q + 1) = 2 + length ?g" using unat_next_send [OF d(1)] n by simp
  moreover have "handed_frames (evs @ [Got f]) = handed_frames evs" "sent_frames (evs @ [Got f]) = sent_frames evs"
    "got_frames (evs @ [Got f]) = ?g @ [f]" by simp_all
  ultimately show ?thesis
    using inv alive d(2,4) logs state unfolding stream_inv_def session_wf_def
    by (auto simp del: set_concat)
qed

text \<open>Changes that keep the exchange: the control state up to poisoning and the open transaction, the
  transport up to what it logs.\<close>

definition keeps :: "('s \<Rightarrow> bytes list) \<Rightarrow> ('s \<Rightarrow> bytes list) \<Rightarrow> 's Dispatcher \<Rightarrow> 's Dispatcher \<Rightarrow> bool" where
  "keeps sent received d d' \<longleftrightarrow>
     cs_nonce (d_state d') = cs_nonce (d_state d) \<and>
     cs_pending_receive (d_state d') = cs_pending_receive (d_state d) \<and>
     cs_next_send (d_state d') = cs_next_send (d_state d) \<and>
     cs_next_receive (d_state d') = cs_next_receive (d_state d) \<and>
     (cs_poisoned (d_state d) \<longrightarrow> cs_poisoned (d_state d')) \<and>
     sent (d_transport d') = sent (d_transport d) \<and> received (d_transport d') = received (d_transport d)"

section \<open>What the dispatcher asks of a transport\<close>

locale record_transport =
  fixes T :: "('s, 'z) Transport_scheme"
    and poisoned :: "'s \<Rightarrow> bool"
    and sent received :: "'s \<Rightarrow> bytes list"
  assumes send_Ok:
      "t_send_record T b deadline t = (t', Ok u) \<Longrightarrow> sent t' = sent t @ [b] \<and> received t' = received t"
    and send_Err:
      "t_send_record T b deadline t = (t', Err e) \<Longrightarrow>
         received t' = received t \<and> (sent t' = sent t \<or> (\<exists>n. sent t' = sent t @ [take n b]))"
    and receive_Ok:
      "t_receive_record T n deadline t = (t', Ok b) \<Longrightarrow>
         received t' = received t @ [b] \<and> sent t' = sent t \<and> length b \<le> n"
    and receive_Err:
      "t_receive_record T n deadline t = (t', Err e) \<Longrightarrow> received t' = received t \<and> sent t' = sent t"
    and poll_keeps: "t_try_poll_peer T t = (t', r) \<Longrightarrow> received t' = received t \<and> sent t' = sent t"
    and poison_poisons: "poisoned (t_poison T t)"
    and poison_keeps: "sent (t_poison T t) = sent t \<and> received (t_poison T t) = received t"
    and send_total: "snd (t_send_record T b deadline t) \<noteq> Panic"
    and receive_total: "snd (t_receive_record T n deadline t) \<noteq> Panic"
    and poll_total: "snd (t_try_poll_peer T t) \<noteq> Panic"
begin

lemma poison_both_logs [simp]:
  "sent (d_transport (poison_both T d)) = sent (d_transport d)"
  "received (d_transport (poison_both T d)) = received (d_transport d)"
  by (simp_all add: poison_both_def poison_keeps)

lemma stream_inv_poison:
  "stream_inv sent received nonce evs d \<Longrightarrow> stream_inv sent received nonce evs (poison_both T d)"
  by (auto simp: stream_inv_def session_wf_def poison_both_def Control.poison_def poison_keeps)

lemma stream_inv_silent [simp]:
  "stream_inv sent received nonce (evs @ [Silent]) d \<longleftrightarrow> stream_inv sent received nonce evs d"
  "stream_inv sent received nonce (evs @ [Began f]) d \<longleftrightarrow> stream_inv sent received nonce evs d"
  by (simp_all add: stream_inv_def)

lemma keeps_stream: "keeps sent received d d' \<Longrightarrow> stream_inv sent received nonce evs d \<Longrightarrow> stream_inv sent received nonce evs d'"
  unfolding keeps_def stream_inv_def session_wf_def by metis

lemma enter_keeps: "keeps sent received d (fst (enter_native_transaction T now deadline d))"
  by (auto simp: enter_native_transaction_def begin_transaction_def poison_both_def poison_keeps
      Control.poison_def keeps_def Let_def split: option.splits)

lemma begin_keeps: "keeps sent received d (fst (begin_native_transaction T now now' entries deadline d))"
  using enter_keeps [of d now' deadline]
  by (auto simp: begin_native_transaction_def poison_both_def poison_keeps Control.poison_def Let_def sbind_def
      keeps_def split: result.splits prod.splits)

lemma poll_keeps_stream: "keeps sent received d (fst (try_poll_peer T d))"
proof (cases "t_try_poll_peer T (d_transport d)")
  case (Pair t r)
  then show ?thesis
    using poll_keeps [OF Pair]
    by (auto simp: try_poll_peer_def poison_both_def poison_keeps Control.poison_def keeps_def
        split: result.splits PeerState.splits)
qed

lemma end_keeps: "keeps sent received d (fst (dispatch T alloc EndNative d))"
  by (auto simp: end_transaction_def poison_both_def poison_keeps Control.poison_def keeps_def)

lemma stream_inv_handed:
  assumes "stream_inv sent received nonce evs d" "\<not> cs_poisoned (d_state d)" "cs_next_send (d_state d) \<noteq> - 1"
    "length (cf_payload f) \<le> 16777216"
    "hand_over T (cf_kind f) (cf_payload f) deadline d = (d', r)"
  shows "(r = Ok () \<and> stream_inv sent received nonce (evs @ [Sent f]) d') \<or>
    (\<exists>e. r = Err (Transport e) \<and> cs_poisoned (d_state d') \<and> stream_inv sent received nonce (evs @ [Unsure f]) d')"
proof -
  let ?q = "cs_next_send (d_state d)" and ?h = "handed_frames evs"
  let ?w = "record_bytes nonce ?q (cf_kind f) (cf_payload f)"
  obtain t o' where o: "t_send_record T ?w deadline (d_transport d) = (t, o')" by fastforce
  have nonce: "cs_nonce (d_state d) = nonce" using assms(1) by (simp add: stream_inv_def)
  have n: "unat ?q = 1 + length ?h" using assms(1) by (simp add: stream_inv_def)
  have "?q = word_of_nat (unat ?q)" by simp
  then have "?q = 1 + word_of_nat (length ?h)" by (simp only: n of_nat_add of_nat_1)
  then have w: "wires nonce 1 (?h @ [f]) = wires nonce 1 ?h @ [?w]" by (simp add: wires_snoc)
  have q: "unat (?q + 1) = 2 + length ?h"
    using unat_next_send [OF assms(3)] n by simp
  note inv = assms(1)[unfolded stream_inv_def session_wf_def]
  show ?thesis
  proof (cases o')
    case (Ok u)
    have "sent t = sent (d_transport d) @ [?w]" "received t = received (d_transport d)"
      using send_Ok o Ok by blast+
    then have "stream_inv sent received nonce (evs @ [Sent f]) d'" "r = Ok ()"
      using assms(5) q o Ok nonce inv
        stream_inv_hand [OF assms(1,2) _ _ _ _ assms(4) _ _ _ w, of d' "Sent f" "length ?w"]
      by (auto simp: hand_over_def Let_def)
    then show ?thesis by simp
  next
    case (Err e)
    obtain n where "sent t = sent (d_transport d) \<or> sent t = sent (d_transport d) @ [take n ?w]"
      "received t = received (d_transport d)"
      using send_Err o Err by blast
    then have "stream_inv sent received nonce (evs @ [Unsure f]) d'" "r = Err (Transport e)" "cs_poisoned (d_state d')"
      using assms(5) q o Err nonce inv
        stream_inv_hand [OF assms(1,2) _ _ _ _ assms(4) _ _ _ w, of d' "Unsure f" n]
      by (auto simp: hand_over_def Let_def poison_both_def poison_keeps Control.poison_def)
    then show ?thesis by simp
  qed (use o send_total in \<open>metis snd_conv\<close>)
qed

lemma receive_cases:
  assumes "\<not> cs_poisoned (d_state d)"
  obtains
    (failed) d' e where "receive T deadline d = (poison_both T d', Err e)"
      "d_state d' = d_state d \<or> d_state d' = (d_state d)\<lparr>cs_poisoned := True\<rparr> \<or> d_state d' = drop_pending (d_state d)"
      "sent (d_transport d') = sent (d_transport d)"
      "set (received (d_transport d)) \<subseteq> set (received (d_transport d'))"
  | (got) d' w s f where "receive T deadline d = (d', Ok f)" "decode_owned (d_state d) w = (s, Ok f)"
      "d_state d' = s" "sent (d_transport d') = sent (d_transport d)"
      "received (d_transport d') = received (d_transport d) @ [w]"
proof (cases "cs_transaction_open (d_state d)")
  case True
  then show thesis using failed [of d] assms by (simp add: receive_def)
next
  case False
  obtain t r where t: "t_receive_record T (d_maximum_wire_len d) deadline (d_transport d) = (t, r)" by fastforce
  show thesis
  proof (cases r)
    case (Ok w)
    have logs: "received t = received (d_transport d) @ [w]" "sent t = sent (d_transport d)"
      "length w \<le> d_maximum_wire_len d"
      using receive_Ok t Ok by blast+
    obtain s o' where o: "decode_owned (d_state d) w = (s, o')" by fastforce
    show thesis
    proof (cases o')
      case f: (Ok f)
      then show thesis
        using got [of "d\<lparr>d_transport := t, d_state := s\<rparr>" f w s] o t Ok logs assms False by (simp add: receive_def)
    next
      case (Err e)
      then show thesis
        using failed [of "d\<lparr>d_transport := t, d_state := s\<rparr>" "Control e"] decode_owned_Err [of "d_state d" w s e]
          o t Ok logs assms False by (auto simp: receive_def)
    qed (use o decode_owned_Panic [of "d_state d" w] in simp)
  next
    case (Err e)
    then show thesis
      using failed [of "d\<lparr>d_transport := t\<rparr>" "Transport e"] receive_Err t assms False by (auto simp: receive_def)
  qed (use t receive_total in \<open>metis snd_conv\<close>)
qed

lemma dispatch_stream:
  assumes "stream_inv sent received nonce evs d" "dispatch T alloc op d = (d', ev)"
  shows "stream_inv sent received nonce (evs @ [ev]) d'"
proof (cases "cs_poisoned (d_state d)")
  case True
  show ?thesis
  proof (cases op)
    case EndNative
    then show ?thesis using assms keeps_stream [OF end_keeps [of d alloc]] by auto
  qed (use assms True in \<open>auto simp: poisoned_dispatcher\<close>)
next
  case False
  have wf: "session_wf d" using assms(1) by (simp add: stream_inv_def)
  show ?thesis
  proof (cases op)
    case (SendFrame f deadline)
    from wf False show ?thesis
    proof (cases rule: send_parts_cases [of d T alloc "cf_kind f" "cf_payload f" deadline])
      case (refused e)
      then show ?thesis
        using assms SendFrame by auto
    next
      case (closed e)
      then show ?thesis using assms SendFrame stream_inv_poison by auto
    next
      case handed
      obtain r where h: "hand_over T (cf_kind f) (cf_payload f) deadline d = (d', r)"
        using assms(2) SendFrame handed(4) by (cases "hand_over T (cf_kind f) (cf_payload f) deadline d") auto
      have "length (cf_payload f) \<le> 16777216" using handed(3) hard_max_control by (simp add: admissible_def)
      from stream_inv_handed [OF assms(1) False handed(2) this h] show ?thesis
        using assms(2) SendFrame handed(4) h by auto
    qed
  next
    case (ReceiveFrame deadline)
    from False show ?thesis
    proof (cases rule: receive_cases [of d deadline])
      case (failed d'' e)
      then have "stream_inv sent received nonce evs (poison_both T d'')"
        using assms(1) False
        by (intro stream_inv_poison) (auto simp: stream_inv_def session_wf_def drop_pending_def simp del: set_concat)
      then show ?thesis using assms(2) ReceiveFrame failed(1) by simp
    next
      case (got d'' w s f)
      then show ?thesis
        using assms ReceiveFrame stream_inv_got [OF assms(1) False got(2), of d'] by simp
    qed
  next
    case PollPeer
    then show ?thesis
      using assms(2) keeps_stream [OF poll_keeps_stream assms(1)] by (cases "try_poll_peer T d") auto
  next
    case (BeginNative now now' entries deadline)
    then show ?thesis
      using assms(2) keeps_stream [OF begin_keeps assms(1), of now now' entries deadline]
      by (cases "begin_native_transaction T now now' entries deadline d") (auto split: result.splits)
  next
    case EndNative
    then show ?thesis using assms keeps_stream [OF end_keeps [of d alloc]] by auto
  qed
qed

lemma dispatch_run_stream:
  assumes "stream_inv sent received nonce evs d" "dispatch_run T alloc ops d = (d', evs')"
  shows "stream_inv sent received nonce (evs @ evs') d'"
  using assms
proof (induction ops arbitrary: d evs evs')
  case (Cons op ops)
  obtain c ev where c: "dispatch T alloc op d = (c, ev)" by fastforce
  obtain evs'' where r: "dispatch_run T alloc ops c = (d', evs'')" "evs' = ev # evs''"
    using Cons.prems(2) c by (cases "dispatch_run T alloc ops c") auto
  show ?case
    using Cons.IH [OF dispatch_stream [OF Cons.prems(1) c] r(1)] r(2) by simp
qed simp

text \<open>A fresh dispatcher on a transport that has not been used.\<close>

lemma fresh_stream:
  assumes "Dispatcher_new t parameters = Some d" "length (sf_nonce (sp_facts parameters)) = 32" "sent t = []"
  shows "stream_inv sent received (sf_nonce (sp_facts parameters)) [] d"
  using assms
  by (auto simp: Dispatcher_new_def Let_def ControlState_new_def stream_inv_def session_wf_def wires_def
      split: if_splits option.splits result.splits)

lemma session_streams:
  assumes "Dispatcher_new t parameters = Some c" "Dispatcher_new u parameters' = Some r"
    "length (sf_nonce (sp_facts parameters)) = 32"
    "sf_nonce (sp_facts parameters') = sf_nonce (sp_facts parameters)" "sent t = []" "sent u = []"
    "dispatch_run T alloc ops c = (c', evs)" "dispatch_run T alloc' ops' r = (r', evs')"
    "set (received (d_transport r')) \<subseteq> set (sent (d_transport c'))"
  shows "prefix (got_frames evs') (handed_frames evs) \<and>
    (handed_frames evs = sent_frames evs \<or> (\<exists>f. handed_frames evs = sent_frames evs @ [f]))"
proof -
  let ?n = "sf_nonce (sp_facts parameters)"
  have "stream_inv sent received ?n [] c" "stream_inv sent received ?n [] r"
    using fresh_stream [OF assms(1)] fresh_stream [OF assms(2)] assms(3-6) by simp_all
  then have i: "stream_inv sent received ?n evs c'" "stream_inv sent received ?n evs' r'"
    using dispatch_run_stream [OF _ assms(7)] dispatch_run_stream [OF _ assms(8)] by force+
  from stream_inv_prefix [OF i assms(9)] i(1) show ?thesis unfolding stream_inv_def by blast
qed

text \<open>Failing closed.\<close>

lemma poison_both_closed:
  "cs_poisoned (d_state (poison_both T d)) \<and> poisoned (d_transport (poison_both T d)) \<and>
   sr_state (lg_shared (d_resources (poison_both T d))) \<noteq> ACTIVE"
  by (simp add: poison_both_def Control.poison_def poison_poisons Liveness.poison_def map_shared_def
      ACTIVE_def POISONED_def)

lemma send_fails_closed:
  assumes "session_wf d" "\<not> cs_poisoned (d_state d)" "send_parts T alloc kind payload deadline d = (d', r)"
  shows "r \<noteq> Panic \<and> (\<forall>e. r = Err e \<longrightarrow> d' = d \<and> local_refusal e \<or> (\<exists>c. d' = poison_both T c))"
  using assms(1,2)
proof (cases rule: send_parts_cases [of d T alloc kind payload deadline])
  case handed
  obtain t o' where o: "t_send_record T (record_bytes (cs_nonce (d_state d)) (cs_next_send (d_state d)) kind payload)
      deadline (d_transport d) = (t, o')" by fastforce
  then have "o' \<noteq> Panic" using send_total by (metis snd_conv)
  then show ?thesis using assms(3) handed(4) o by (auto simp: hand_over_def Let_def split: result.splits)
qed (use assms(3) in auto)

lemma receive_fails_closed:
  assumes "\<not> cs_poisoned (d_state d)" "receive T deadline d = (d', r)"
  shows "r \<noteq> Panic \<and> (\<forall>e. r = Err e \<longrightarrow> (\<exists>c. d' = poison_both T c))"
  using assms(1) by (cases rule: receive_cases [of d deadline]) (use assms(2) in auto)

lemma poll_fails_closed:
  assumes "\<not> cs_poisoned (d_state d)" "try_poll_peer T d = (d', r)"
  shows "r \<noteq> Panic \<and> (r \<noteq> Ok Running \<longrightarrow> (\<exists>c. d' = poison_both T c))"
proof (cases "t_try_poll_peer T (d_transport d)")
  case (Pair t o')
  moreover have "o' \<noteq> Panic" using poll_total Pair by (metis snd_conv)
  ultimately show ?thesis
    using assms by (auto simp: try_poll_peer_def split: result.splits PeerState.splits)
qed

end

section \<open>Numbered transactions\<close>

lemma CapabilityFrame_decode_Ok:
  "CapabilityFrame_decode b = Ok (f, m) \<longleftrightarrow>
     manifest_valid m \<and> manifest_wf m \<and> b = manifest_bytes CAPABILITY_MAGIC m \<and>
     f = \<lparr>cf_bytes = b, cf_capability_count = length (tm_entries m)\<rparr>"
  by (auto simp: CapabilityFrame_decode_def outcome decode_Ok from_manifest_eq)

definition parameters_ok :: "AcceptedSessionParameters \<Rightarrow> bool" where
  "parameters_ok p \<longleftrightarrow> length (sf_nonce (sp_facts p)) = 32 \<and> is_ok (SessionLimits_validate (sp_limits p))"

text \<open>The manifest a session makes of some entries in its \<open>n\<close>-th transaction.\<close>

definition session_manifest ::
    "AcceptedSessionParameters \<Rightarrow> nat \<Rightarrow> ManifestEntry list \<Rightarrow> TransferManifest \<Rightarrow> bool" where
  "session_manifest p n entries m \<longleftrightarrow>
     manifest_valid m \<and> manifest_wf m \<and> fits_limits m (sp_limits p) \<and>
     tm_nonce m = sf_nonce (sp_facts p) \<and> tm_parent_pid m = sf_parent_pid (sp_facts p) \<and>
     tm_child_pid m = sf_child_pid (sp_facts p) \<and> tm_authority_profile m = sp_authority_profile p \<and>
     unat (tm_transfer_id m) = n \<and> tm_entries m = with_ordinals 0 (sort_key me_region_id entries)"

definition entries_wf :: "ManifestEntry list \<Rightarrow> bool" where
  "entries_wf entries \<longleftrightarrow> (\<forall>e \<in> set entries. length (me_incarnation e) = 16)"

lemma max_transactions_bound:
  "is_ok (SessionLimits_validate l) \<Longrightarrow> unat (max_transactions l) \<le> 2 ^ 48"
  by (auto simp: is_ok_iff limits_validate_Ok limits_valid_def word_le_nat_alt)

lemma enter_Ok:
  "enter_native_transaction T now deadline d = (d', Ok n) \<Longrightarrow>
     n = d_next_transaction d \<and> n \<le> max_transactions (sp_limits (d_parameters d)) \<and>
     \<not> cs_poisoned (d_state d) \<and> \<not> cs_transaction_open (d_state d) \<and> cs_transaction_open (d_state d') \<and>
     d_parameters d' = d_parameters d \<and> unat (d_next_transaction d') = unat n + 1"
  by (auto simp: enter_native_transaction_def begin_transaction_def Let_def checked_add_def not_less
      unat_word_ariths split: if_splits option.splits)

lemma enter_Panic:
  assumes "parameters_ok (d_parameters d)"
  shows "snd (enter_native_transaction T now deadline d) \<noteq> Panic"
proof -
  have "d_next_transaction d \<le> max_transactions (sp_limits (d_parameters d)) \<Longrightarrow>
      unat (d_next_transaction d) \<le> 2 ^ 48"
    using max_transactions_bound assms by (fastforce simp: parameters_ok_def word_le_nat_alt)
  then show ?thesis
    by (auto simp: enter_native_transaction_def begin_transaction_def Let_def checked_add_def not_less)
qed

lemma from_session_manifest:
  assumes "parameters_ok p" "entries_wf entries"
    "new_with_authority (sf_nonce (sp_facts p)) (sf_parent_pid (sp_facts p)) (sf_child_pid (sp_facts p)) n
      (sp_authority_profile p) entries = Ok m"
  shows "manifest_valid m \<and> manifest_wf m \<and> tm_transfer_id m = n \<and>
    (fits_limits m (sp_limits p) \<longrightarrow> session_manifest p (unat n) entries m)"
proof -
  have e: "tm_entries m = with_ordinals 0 (sort_key me_region_id entries)" "tm_nonce m = sf_nonce (sp_facts p)"
    using assms(3) by (simp_all add: new_with_authority_Ok)
  have "\<forall>e \<in> set (tm_entries m). length (me_incarnation e) = 16"
    using assms(2) unfolding e entries_wf_def by (intro with_ordinals_incarnations) simp
  then show ?thesis
    using assms(1,3) e by (simp add: new_with_authority_Ok manifest_wf_def parameters_ok_def session_manifest_def)
qed

lemma begin_native_Ok:
  assumes "parameters_ok (d_parameters d)" "entries_wf entries"
    "begin_native_transaction T now now' entries deadline d = (d', Ok f)"
  shows "\<exists>m. CapabilityFrame_decode (cf_bytes f) = Ok (f, m) \<and>
    session_manifest (d_parameters d) (unat (d_next_transaction d)) entries m \<and>
    d_next_transaction d \<le> max_transactions (sp_limits (d_parameters d)) \<and>
    cs_transaction_open (d_state d') \<and> d_parameters d' = d_parameters d \<and>
    unat (d_next_transaction d') = unat (d_next_transaction d) + 1"
proof -
  let ?p = "d_parameters d"
  obtain m n where m: "new_with_authority (sf_nonce (sp_facts ?p)) (sf_parent_pid (sp_facts ?p))
      (sf_child_pid (sp_facts ?p)) (d_next_transaction d) (sp_authority_profile ?p) entries = Ok m"
    "fits_limits m (sp_limits ?p)" "enter_native_transaction T now' deadline d = (d', Ok n)"
    "from_manifest m = Ok f"
    using assms(3)
    by (auto simp: begin_native_transaction_def Let_def sbind_def split: if_splits result.splits prod.splits)
  have v: "manifest_valid m" "manifest_wf m" "session_manifest ?p (unat (d_next_transaction d)) entries m"
    using from_session_manifest [OF assms(1,2) m(1)] m(2) by simp_all
  then have "CapabilityFrame_decode (cf_bytes f) = Ok (f, m)"
    using m(4) from_manifest_eq [OF v(1,2)] by (auto simp: CapabilityFrame_decode_Ok)
  then show ?thesis using v(3) enter_Ok [OF m(3)] by blast
qed

text \<open>A failed begin either leaves the session as it was or poisons control and transport.\<close>

definition begin_failure ::
    "('s, 'z) Transport_scheme \<Rightarrow> AcceptedControlError \<Rightarrow> 's Dispatcher \<Rightarrow> 's Dispatcher \<Rightarrow> bool" where
  "begin_failure T e d d' \<longleftrightarrow>
     d_parameters d' = d_parameters d \<and> d_next_transaction d' = d_next_transaction d \<and>
     (d' = d \<and> (local_refusal e \<or> cs_poisoned (d_state d)) \<or>
      cs_poisoned (d_state d') \<and> d_transport d' = t_poison T (d_transport d))"

lemma begin_failure_intros:
  "local_refusal e \<Longrightarrow> begin_failure T e d d"
  "cs_poisoned (d_state d) \<Longrightarrow> begin_failure T e d d"
  "begin_failure T e d (poison_both T d)"
  by (simp_all add: begin_failure_def poison_both_def Control.poison_def)

lemma enter_Err:
  assumes "enter_native_transaction T now deadline d = (d', Err e)"
  shows "begin_failure T e d d'"
proof (cases "cs_poisoned (d_state d) \<or> is_expired now deadline \<or>
    d_next_transaction d > max_transactions (sp_limits (d_parameters d))")
  case True
  then show ?thesis
    using assms begin_failure_intros
    by (auto simp: enter_native_transaction_def local_refusal_def split: if_splits)
next
  case False
  then show ?thesis
    using assms
    by (auto simp: enter_native_transaction_def begin_transaction_def begin_failure_def Let_def
        split: if_splits option.splits)
qed

lemma begin_native_fails:
  assumes "parameters_ok (d_parameters d)" "entries_wf entries"
    "begin_native_transaction T now now' entries deadline d = (d', r)"
  shows "r \<noteq> Panic \<and> (\<forall>e. r = Err e \<longrightarrow> begin_failure T e d d')"
proof -
  let ?p = "d_parameters d"
  let ?new = "new_with_authority (sf_nonce (sp_facts ?p)) (sf_parent_pid (sp_facts ?p))
      (sf_child_pid (sp_facts ?p)) (d_next_transaction d) (sp_authority_profile ?p) entries"
  note b = assms(3)[unfolded begin_native_transaction_def Let_def]
  consider (dead) "cs_poisoned (d_state d)"
    | (early) "\<not> cs_poisoned (d_state d)"
      "is_expired now deadline \<or> d_next_transaction d > max_transactions (sp_limits ?p)"
    | (go) "\<not> cs_poisoned (d_state d)" "\<not> is_expired now deadline"
      "\<not> d_next_transaction d > max_transactions (sp_limits ?p)" by blast
  then show ?thesis
  proof cases
    case dead
    then show ?thesis using b begin_failure_intros(2) by auto
  next
    case early
    then show ?thesis
      using b begin_failure_intros(1,3) by (auto simp: local_refusal_def split: if_splits)
  next
    case go
    show ?thesis
    proof (cases ?new)
      case (Ok m)
      have v: "manifest_valid m" "manifest_wf m" "tm_transfer_id m = d_next_transaction d"
        using from_session_manifest [OF assms(1,2) Ok] by simp_all
      obtain c r' where c: "enter_native_transaction T now' deadline d = (c, r')" by fastforce
      have "r' \<noteq> Panic" using enter_Panic [OF assms(1), of T now' deadline] c by simp
      then show ?thesis
        using b go Ok c v(3) from_manifest_eq [OF v(1,2)] enter_Err [of T now' deadline d c]
          enter_Ok [of T now' deadline d c] begin_failure_intros(1)
        by (cases r') (auto simp: local_refusal_def split: if_splits)
    next
      case (Err e)
      then show ?thesis using b go begin_failure_intros(1) by (auto simp: local_refusal_def)
    qed (use new_with_authority_Panic in simp)
  qed
qed

lemma other_ops_keep:
  assumes "dispatch T alloc op d = (d', ev)" "\<forall>now now' entries deadline. op \<noteq> BeginNative now now' entries deadline"
  shows "d_parameters d' = d_parameters d \<and> d_next_transaction d' = d_next_transaction d \<and> (\<forall>f. ev \<noteq> Began f)"
proof (cases op)
  case (SendFrame f deadline)
  then show ?thesis using assms(1)
    by (auto simp: send_parts_def poison_both_def map_prod_def
        split: if_splits result.splits prod.splits AcceptedControlError.splits)
next
  case (ReceiveFrame deadline)
  then show ?thesis using assms(1)
    by (auto simp: receive_def poison_both_def map_prod_def Let_def split: if_splits result.splits prod.splits)
next
  case PollPeer
  then show ?thesis using assms(1)
    by (auto simp: try_poll_peer_def poison_both_def map_prod_def
        split: if_splits result.splits prod.splits PeerState.splits)
next
  case EndNative
  then show ?thesis using assms(1)
    by (auto simp: poison_both_def split: result.splits prod.splits)
qed (use assms(2) in blast)

fun transfer_of_began :: "DispatchEvent \<Rightarrow> TransferManifest list" where
  "transfer_of_began (Began f) = (case CapabilityFrame_decode (cf_bytes f) of Ok (_, m) \<Rightarrow> [m] | _ \<Rightarrow> [])"
| "transfer_of_began _ = []"

definition began_transfers :: "DispatchEvent list \<Rightarrow> TransferManifest list" where
  "began_transfers evs = concat (map transfer_of_began evs)"

fun op_wf :: "DispatchOp \<Rightarrow> bool" where
  "op_wf (BeginNative _ _ entries _) = entries_wf entries"
| "op_wf _ = True"

definition numbered :: "AcceptedSessionParameters \<Rightarrow> DispatchEvent list \<Rightarrow> 's Dispatcher \<Rightarrow> bool" where
  "numbered p evs d \<longleftrightarrow>
     d_parameters d = p \<and> unat (d_next_transaction d) = 1 + length (began_transfers evs) \<and>
     length (began_transfers evs) \<le> unat (max_transactions (sp_limits p)) \<and>
     length (filter (\<lambda>ev. \<exists>f. ev = Began f) evs) = length (began_transfers evs) \<and>
     (\<forall>i < length (began_transfers evs). \<exists>es. session_manifest p (i + 1) es (began_transfers evs ! i))"

lemma dispatch_numbered:
  assumes "numbered p evs d" "parameters_ok p" "op_wf op" "dispatch T alloc op d = (d', ev)"
  shows "numbered p (evs @ [ev]) d'"
proof (cases "\<exists>f. ev = Began f")
  case True
  then obtain f now now' entries deadline where f: "ev = Began f" "op = BeginNative now now' entries deadline"
    using other_ops_keep [OF assms(4)] by blast
  have "begin_native_transaction T now now' entries deadline d = (d', Ok f)"
    using assms(4) f
    by (cases "begin_native_transaction T now now' entries deadline d") (auto split: result.splits)
  then obtain m where m: "CapabilityFrame_decode (cf_bytes f) = Ok (f, m)"
    "session_manifest p (unat (d_next_transaction d)) entries m"
    "d_next_transaction d \<le> max_transactions (sp_limits p)" "d_parameters d' = p"
    "unat (d_next_transaction d') = unat (d_next_transaction d) + 1"
    using begin_native_Ok [of d entries T now now' deadline d' f] assms(1-3) f(2) by (auto simp: numbered_def)
  have b: "began_transfers (evs @ [ev]) = began_transfers evs @ [m]"
    using m(1) f(1) by (simp add: began_transfers_def)
  show ?thesis
    using assms(1) m f(1) unfolding numbered_def b by (auto simp: nth_append word_le_nat_alt less_Suc_eq)
next
  case False
  have keep: "d_parameters d' = d_parameters d \<and> d_next_transaction d' = d_next_transaction d"
  proof (cases "\<exists>now now' entries deadline. op = BeginNative now now' entries deadline")
    case True
    then obtain now now' entries deadline where o: "op = BeginNative now now' entries deadline" by blast
    obtain r where r: "begin_native_transaction T now now' entries deadline d = (d', r)"
      using assms(4) o by (cases "begin_native_transaction T now now' entries deadline d") auto
    then have "\<nexists>f. r = Ok f" using False assms(4) o by auto
    then show ?thesis
      using begin_native_fails [OF _ _ r] assms(1-3) o
      by (cases r) (auto simp: numbered_def begin_failure_def)
  qed (use other_ops_keep [OF assms(4)] in blast)
  have "transfer_of_began ev = []" using False by (cases ev) auto
  then have "began_transfers (evs @ [ev]) = began_transfers evs" by (simp add: began_transfers_def)
  then show ?thesis using assms(1) keep False by (simp add: numbered_def)
qed

lemma dispatch_run_numbered:
  assumes "numbered p evs d" "parameters_ok p" "\<forall>op \<in> set ops. op_wf op" "dispatch_run T alloc ops d = (d', evs')"
  shows "numbered p (evs @ evs') d'"
  using assms
proof (induction ops arbitrary: d evs evs')
  case (Cons op ops)
  obtain c ev where c: "dispatch T alloc op d = (c, ev)" by fastforce
  obtain evs'' where r: "dispatch_run T alloc ops c = (d', evs'')" "evs' = ev # evs''"
    using Cons.prems(4) c by (cases "dispatch_run T alloc ops c") auto
  have "numbered p (evs @ [ev]) c" using dispatch_numbered [OF Cons.prems(1,2) _ c] Cons.prems(3) by simp
  from Cons.IH [OF this Cons.prems(2) _ r(1)] Cons.prems(3) r(2) show ?case by simp
qed simp

lemma fresh_dispatcher:
  assumes "Dispatcher_new t p = Some d"
  shows "d_transport d = t \<and> d_parameters d = p \<and> d_next_transaction d = 1 \<and>
    is_ok (SessionLimits_validate (sp_limits p)) \<and> is_vnext (sp_authority_profile p)"
  using assms
  by (auto simp: Dispatcher_new_def Let_def split: if_splits option.splits result.splits)

lemma transfers_numbered_run:
  assumes "Dispatcher_new t p = Some d" "length (sf_nonce (sp_facts p)) = 32" "\<forall>op \<in> set ops. op_wf op"
    "dispatch_run T alloc ops d = (d', evs)"
  shows "numbered p evs d'"
proof -
  have "numbered p [] d" "parameters_ok p"
    using fresh_dispatcher [OF assms(1)] assms(2) by (simp_all add: numbered_def began_transfers_def parameters_ok_def)
  from dispatch_run_numbered [OF this assms(3,4)] show ?thesis by simp
qed

end
