(* ===== verification/Linux_Transport.thy ===== *)
theory Linux_Transport
  imports Dispatcher
begin

text \<open>
  The Linux record transport: packets and their ancillary data
  (\<^verbatim>\<open>native-ipc/src/backend/linux_vnext.rs\<close>) and the accepted transports of the two roles
  (\<^verbatim>\<open>native-ipc/src/backend/linux_vnext/spawn.rs\<close>).  The kernel and the clock are the answers they give to
  the rounds of an operation's loop; when no answer is left the deadline has passed.  The transport
  state keeps the packets the kernel took and the packets the operations returned.
\<close>

section \<open>Packets\<close>

definition MAX_PACKET_FDS :: usize where "MAX_PACKET_FDS = 16"
definition CONTROL_CAPACITY :: usize where "CONTROL_CAPACITY = 256"
definition MAX_ZERO_RIGHTS_PACKET_BYTES :: usize where "MAX_ZERO_RIGHTS_PACKET_BYTES = 64 * 1024"

text \<open>The event bits and error numbers of the platform's C library.\<close>

definition POLLIN :: u16 where "POLLIN = 1"
definition POLLOUT :: u16 where "POLLOUT = 4"
definition POLLERR :: u16 where "POLLERR = 8"
definition POLLHUP :: u16 where "POLLHUP = 16"
definition POLLNVAL :: u16 where "POLLNVAL = 32"
definition EINTR :: int where "EINTR = 4"
definition EBADF :: int where "EBADF = 9"
definition EAGAIN :: int where "EAGAIN = 11"

text \<open>A system call returns an error number or its result.\<close>

primrec syscall :: "int + 'a \<Rightarrow> ('a, int) result" where
  "syscall (Inl errno) = Err errno"
| "syscall (Inr x) = Ok x"

record PacketCredentials =
  pc_pid :: u32
  pc_uid :: u32
  pc_gid :: u32

datatype PacketError =
    InvalidInput | WouldBlock | Interrupted | PacketTruncated | PacketTooLarge | MalformedAncillary
  | WrongPeer | WrongDescriptorCount | PacketDeadlineExpired | AmbiguousAfterSend
  | AmbiguousAfterReceive | PacketPoisoned | PacketPeerExited | PacketNative int

definition last_io_kind :: "int \<Rightarrow> PacketError" where
  "last_io_kind errno =
     (if errno = EAGAIN then WouldBlock else if errno = EINTR then Interrupted else PacketNative errno)"

text \<open>The space of a control record: a header of 16 bytes and the payload, padded to words.\<close>

definition CMSG_SPACE :: "usize \<Rightarrow> usize" where "CMSG_SPACE n = 16 + (n + 7) div 8 * 8"

text \<open>
  One record of the control chain the kernel returns, with its payload, or a header whose bounds end
  the traversal.  Credentials are three words and descriptors one word each, little endian.
\<close>

datatype Ancillary = SCM_CREDENTIALS bytes | SCM_RIGHTS bytes | OtherRecord | BadHeader

definition read_word :: "bytes \<Rightarrow> nat \<Rightarrow> u32" where
  "read_word payload index = from_le_bytes (take 4 (drop (4 * index) payload))"

record ReceivedAncillary =
  an_descriptors :: "int list"
  an_credentials :: "PacketCredentials option"
  an_rights_records :: usize
  an_valid :: bool

definition adopt_descriptor :: "int \<Rightarrow> ReceivedAncillary \<Rightarrow> ReceivedAncillary" where
  "adopt_descriptor raw a =
     (if raw < 0 then a\<lparr>an_valid := False\<rparr> else a\<lparr>an_descriptors := an_descriptors a @ [raw]\<rparr>)"

primrec adopt_record :: "Ancillary \<Rightarrow> ReceivedAncillary \<Rightarrow> ReceivedAncillary" where
  "adopt_record (SCM_CREDENTIALS payload) a =
     (if length payload \<noteq> 12 \<or> an_credentials a \<noteq> None then a\<lparr>an_valid := False\<rparr>
      else if sint (read_word payload 0) \<le> 0 then a\<lparr>an_valid := False\<rparr>
      else
        a\<lparr>an_credentials := Some \<lparr>pc_pid = read_word payload 0, pc_uid = read_word payload 1,
          pc_gid = read_word payload 2\<rparr>\<rparr>)"
| "adopt_record (SCM_RIGHTS payload) a =
     (let a = a\<lparr>an_rights_records := an_rights_records a + 1\<rparr>;
          a = if an_rights_records a > 1 then a\<lparr>an_valid := False\<rparr> else a;
          a = if payload = [] \<or> length payload mod 4 \<noteq> 0 then a\<lparr>an_valid := False\<rparr> else a in
      fold (\<lambda>index. adopt_descriptor (sint (read_word payload index))) [0..<length payload div 4] a)"
| "adopt_record OtherRecord a = a\<lparr>an_valid := False\<rparr>"
| "adopt_record BadHeader a = a\<lparr>an_valid := False\<rparr>"

fun adopt_chain :: "Ancillary list \<Rightarrow> ReceivedAncillary \<Rightarrow> ReceivedAncillary" where
  "adopt_chain [] a = a"
| "adopt_chain (BadHeader # rest) a = adopt_record BadHeader a"
| "adopt_chain (record # rest) a = adopt_chain rest (adopt_record record a)"

definition adopt_received_ancillary :: "Ancillary list \<Rightarrow> ReceivedAncillary" where
  "adopt_received_ancillary chain =
     adopt_chain chain
       \<lparr>an_descriptors = [], an_credentials = None, an_rights_records = 0, an_valid = True\<rparr>"

definition validate_ancillary ::
    "ReceivedAncillary \<Rightarrow> PacketCredentials \<Rightarrow> usize \<Rightarrow> (int list \<times> PacketCredentials, PacketError) result" where
  "validate_ancillary a expected_peer expected_descriptors =
     (if \<not> an_valid a then Err MalformedAncillary
      else
        rbind (ok_or MalformedAncillary (an_credentials a)) (\<lambda>credentials.
        if credentials \<noteq> expected_peer then Err WrongPeer
        else if length (an_descriptors a) \<noteq> expected_descriptors then Err WrongDescriptorCount
        else if expected_descriptors = 0 \<and> an_rights_records a \<noteq> 0 \<or>
          expected_descriptors \<noteq> 0 \<and> an_rights_records a \<noteq> 1
        then Err MalformedAncillary
        else Ok (an_descriptors a, credentials)))"

record ReceivedPacket =
  rp_bytes :: bytes
  rp_descriptors :: "int list"
  rp_credentials :: PacketCredentials

text \<open>What \<^verbatim>\<open>recvmsg\<close> took from the queue: the datagram, whether the control length exceeds the buffer, the
  chain and the flag of a truncated chain.  The call copies as many bytes as there is room for and
  flags a datagram that is longer.\<close>

record KernelMessage =
  km_bytes :: bytes
  km_control_overflow :: bool
  km_ancillary :: "Ancillary list"
  km_ctrunc :: bool

definition socket_has_hung_up :: "(int + u16) \<Rightarrow> (bool, PacketError) result" where
  "socket_has_hung_up polled =
     rbind (map_err PacketNative (syscall polled)) (\<lambda>revents.
       if revents AND POLLNVAL \<noteq> 0 then Err (PacketNative EBADF)
       else Ok (revents AND (POLLERR OR POLLHUP) \<noteq> 0))"

definition receive_bounded ::
    "(int + KernelMessage) \<Rightarrow> (int + u16) \<Rightarrow> usize \<Rightarrow> usize option \<Rightarrow> PacketCredentials \<Rightarrow> usize \<Rightarrow>
     (ReceivedPacket, PacketError) result" where
  "receive_bounded received polled room expected_len expected_peer expected_descriptors =
     (if room = 0 \<or> room > MAX_ZERO_RIGHTS_PACKET_BYTES then Err InvalidInput
      else if CMSG_SPACE 12 + CMSG_SPACE (MAX_PACKET_FDS * 4) > CONTROL_CAPACITY then Err InvalidInput
      else
        rbind (map_err last_io_kind (syscall received)) (\<lambda>message.
        if km_control_overflow message then Err MalformedAncillary
        else
          let ancillary = adopt_received_ancillary (km_ancillary message); b = take room (km_bytes message) in
          if km_ctrunc message then Err MalformedAncillary
          else if length (km_bytes message) > room then Err PacketTooLarge
          else if b = [] then
            rbind (socket_has_hung_up polled) (\<lambda>gone. Err (if gone then PacketPeerExited else PacketTruncated))
          else if (case expected_len of None \<Rightarrow> False | Some n \<Rightarrow> length b \<noteq> n)
          then Err PacketTruncated
          else
            rbind (validate_ancillary ancillary expected_peer expected_descriptors) (\<lambda>v.
              Ok \<lparr>rp_bytes = b, rp_descriptors = fst v, rp_credentials = snd v\<rparr>)))"

text \<open>\<open>receive\<close> takes one frame with descriptors, \<open>receive_zero_rights_bounded\<close> one record without.\<close>

definition receive_packet ::
    "(int + KernelMessage) \<Rightarrow> (int + u16) \<Rightarrow> usize \<Rightarrow> PacketCredentials \<Rightarrow> usize \<Rightarrow>
     (ReceivedPacket, PacketError) result" where
  "receive_packet received polled expected_len expected_peer expected_descriptors =
     (if expected_len = 0 \<or> expected_len > CONTROL_FRAME_LEN \<or> expected_descriptors > MAX_PACKET_FDS
      then Err InvalidInput
      else receive_bounded received polled CONTROL_FRAME_LEN (Some expected_len) expected_peer expected_descriptors)"

definition receive_zero_rights_bounded ::
    "(int + KernelMessage) \<Rightarrow> (int + u16) \<Rightarrow> usize \<Rightarrow> PacketCredentials \<Rightarrow>
     (ReceivedPacket, PacketError) result" where
  "receive_zero_rights_bounded received polled room expected_peer =
     receive_bounded received polled room None expected_peer 0"

definition send_bounded ::
    "(int + usize) \<Rightarrow> bytes \<Rightarrow> int list \<Rightarrow> usize \<Rightarrow> (unit, PacketError) result" where
  "send_bounded sent b descriptors maximum =
     (if b = [] \<or> length b > maximum \<or> length descriptors > MAX_PACKET_FDS \<or> list_ex (\<lambda>fd. fd < 0) descriptors
      then Err InvalidInput
      else if descriptors \<noteq> [] \<and> CMSG_SPACE (4 * length descriptors) > CONTROL_CAPACITY then Err InvalidInput
      else
        rbind (map_err last_io_kind (syscall sent)) (\<lambda>n.
          if n \<noteq> length b then Err PacketTruncated else Ok ()))"

section \<open>Waiting\<close>

text \<open>One round of polling: the deadline before, the events of the two descriptors, the deadline after.\<close>

record PollAnswer =
  pa_expired :: bool
  pa_events :: "(int + u16 \<times> u16)"
  pa_late :: bool

fun ensure_running :: "PollAnswer list \<Rightarrow> (unit, PacketError) result" where
  "ensure_running [] = Err PacketDeadlineExpired"
| "ensure_running (p # ps) =
     (if pa_expired p then Err PacketDeadlineExpired
      else
        case pa_events p of
          Inl errno \<Rightarrow> if errno = EINTR then ensure_running ps else Err (PacketNative errno)
        | Inr (_, pidfd) \<Rightarrow> if pidfd \<noteq> 0 then Err PacketPeerExited else Ok ())"

fun poll_until :: "u16 \<Rightarrow> PollAnswer list \<Rightarrow> (unit, PacketError) result" where
  "poll_until requested [] = Err PacketDeadlineExpired"
| "poll_until requested (p # ps) =
     (if pa_expired p then Err PacketDeadlineExpired
      else
        case pa_events p of
          Inl errno \<Rightarrow> if errno = EINTR then poll_until requested ps else Err (PacketNative errno)
        | Inr (socket, pidfd) \<Rightarrow>
            if pa_late p then Err PacketDeadlineExpired
            else if requested AND POLLIN \<noteq> 0 \<and> socket AND POLLIN \<noteq> 0 then Ok ()
            else if pidfd \<noteq> 0 then Err PacketPeerExited
            else if socket AND (POLLERR OR POLLHUP OR POLLNVAL) \<noteq> 0 then Err PacketPeerExited
            else if socket AND requested \<noteq> 0 then Ok ()
            else poll_until requested ps)"

datatype LinuxSpawnError =
    SpawnInvalidInput | SpawnDeadlineExpired | MalformedChildError | SpawnChild u32 int
  | ExitedBeforeConfirmation | WrongExecutable | EntropyUnavailable | Packet PacketError
  | Negotiation NegotiationWireError | NativeNegotiation NegotiationError | SpawnNative int

fun poll_socket :: "u16 \<Rightarrow> PollAnswer list \<Rightarrow> (unit, LinuxSpawnError) result" where
  "poll_socket requested [] = Err SpawnDeadlineExpired"
| "poll_socket requested (p # ps) =
     (if pa_expired p then Err SpawnDeadlineExpired
      else
        case pa_events p of
          Inl errno \<Rightarrow> if errno = EINTR then poll_socket requested ps else Err (SpawnNative errno)
        | Inr (socket, _) \<Rightarrow>
            if pa_late p then Err SpawnDeadlineExpired
            else if requested AND POLLIN \<noteq> 0 \<and> socket AND POLLIN \<noteq> 0 then Ok ()
            else if socket AND (POLLERR OR POLLHUP OR POLLNVAL) \<noteq> 0 then Err (Packet PacketPeerExited)
            else if socket AND requested \<noteq> 0 then Ok ()
            else poll_socket requested ps)"

fun map_packet_transport_error :: "PacketError \<Rightarrow> SessionTransportError" where
  "map_packet_transport_error PacketDeadlineExpired = DeadlineExpired"
| "map_packet_transport_error PacketPeerExited = PeerExited"
| "map_packet_transport_error WrongPeer = IdentityMismatch"
| "map_packet_transport_error PacketTooLarge = RecordTooLarge"
| "map_packet_transport_error InvalidInput = MalformedRecord"
| "map_packet_transport_error PacketTruncated = MalformedRecord"
| "map_packet_transport_error MalformedAncillary = MalformedRecord"
| "map_packet_transport_error WrongDescriptorCount = MalformedRecord"
| "map_packet_transport_error AmbiguousAfterSend = Ambiguous"
| "map_packet_transport_error AmbiguousAfterReceive = Ambiguous"
| "map_packet_transport_error WouldBlock = Native None"
| "map_packet_transport_error Interrupted = Native None"
| "map_packet_transport_error PacketPoisoned = Native None"
| "map_packet_transport_error (PacketNative code) = Native (Some code)"

fun map_spawn_transport_error :: "LinuxSpawnError \<Rightarrow> SessionTransportError" where
  "map_spawn_transport_error SpawnDeadlineExpired = DeadlineExpired"
| "map_spawn_transport_error ExitedBeforeConfirmation = PeerExited"
| "map_spawn_transport_error (Packet e) = map_packet_transport_error e"
| "map_spawn_transport_error (SpawnChild _ errno) = Native (Some errno)"
| "map_spawn_transport_error (SpawnNative errno) = Native (Some errno)"
| "map_spawn_transport_error _ = Native None"

text \<open>The flag says whether there is a process handle to watch.\<close>

definition poll_accepted_control ::
    "bool \<Rightarrow> u16 \<Rightarrow> PollAnswer list \<Rightarrow> (unit, SessionTransportError) result" where
  "poll_accepted_control pidfd requested polls =
     (if pidfd then map_err map_packet_transport_error (poll_until requested polls)
      else map_err map_spawn_transport_error (poll_socket requested polls))"

section \<open>Transports\<close>

record Round =
  rd_expired :: bool
  rd_liveness :: "PollAnswer list"
  rd_sendmsg :: "int + usize"
  rd_recvmsg :: "int + KernelMessage"
  rd_hangup :: "(int + u16)"
  rd_late :: bool
  rd_polls :: "PollAnswer list"

text \<open>The receiver holds no process handle; the coordinator holds its child until it is reaped.\<close>

datatype PeerHandle = Spawner | Child bool

record LinuxTransport =
  lt_handle :: PeerHandle
  lt_peer :: PacketCredentials
  lt_poisoned :: bool
  lt_rounds :: "Round list"
  lt_observation :: "(int + u16 \<times> u16)"
  lt_sent :: "(bytes \<times> int list) list"
  lt_received :: "(bytes \<times> int list) list"

definition watches_child :: "LinuxTransport \<Rightarrow> (bool, SessionTransportError) result" where
  "watches_child t =
     (case lt_handle t of
        Spawner \<Rightarrow> Ok False
      | Child alive \<Rightarrow> if alive then Ok True else Err PeerExited)"

text \<open>The packet the kernel took is what it counted of the bytes.\<close>

definition log_sent :: "Round \<Rightarrow> bytes \<Rightarrow> int list \<Rightarrow> LinuxTransport \<Rightarrow> LinuxTransport" where
  "log_sent r b descriptors t =
     (case rd_sendmsg r of
        Inr n \<Rightarrow> t\<lparr>lt_sent := lt_sent t @ [(take n b, descriptors)]\<rparr>
      | _ \<Rightarrow> t)"

primrec send_loop ::
    "bool \<Rightarrow> bytes \<Rightarrow> int list \<Rightarrow> usize \<Rightarrow> Round list \<Rightarrow> LinuxTransport \<Rightarrow>
     LinuxTransport \<times> (unit, SessionTransportError) result" where
  "send_loop pidfd b descriptors maximum [] t = (t\<lparr>lt_rounds := []\<rparr>, Err DeadlineExpired)"
| "send_loop pidfd b descriptors maximum (r # rs) t =
     sbind (t\<lparr>lt_rounds := rs\<rparr>,
        if pidfd then map_err map_packet_transport_error (ensure_running (rd_liveness r))
        else if rd_expired r then Err DeadlineExpired else Ok ()) (\<lambda>t _.
     case send_bounded (rd_sendmsg r) b descriptors maximum of
       Ok _ \<Rightarrow>
         let t = log_sent r b descriptors t in
         if rd_late r then (t\<lparr>lt_poisoned := True\<rparr>, Err DeadlineExpired) else (t, Ok ())
     | Err Interrupted \<Rightarrow> send_loop pidfd b descriptors maximum rs t
     | Err WouldBlock \<Rightarrow>
         sbind (t, poll_accepted_control pidfd POLLOUT (rd_polls r)) (\<lambda>t _.
           send_loop pidfd b descriptors maximum rs t)
     | Err PacketTruncated \<Rightarrow> (log_sent r b descriptors t, Err MalformedRecord)
     | Err e \<Rightarrow> (t, Err (map_packet_transport_error e))
     | Panic \<Rightarrow> (t, Panic))"

text \<open>
  \<open>attempt\<close> is the receive of one round.  The debug assertions on the packet that it returns panic when
  they fail.
\<close>

primrec receive_loop ::
    "bool \<Rightarrow> (Round \<Rightarrow> PacketCredentials \<Rightarrow> (ReceivedPacket, PacketError) result) \<Rightarrow> usize \<Rightarrow> Round list \<Rightarrow>
     LinuxTransport \<Rightarrow> LinuxTransport \<times> (ReceivedPacket, SessionTransportError) result" where
  "receive_loop pidfd attempt descriptors [] t = (t\<lparr>lt_rounds := []\<rparr>, Err DeadlineExpired)"
| "receive_loop pidfd attempt descriptors (r # rs) t =
     (let t = t\<lparr>lt_rounds := rs\<rparr> in
      if rd_expired r then (t, Err DeadlineExpired)
      else
        case attempt r (lt_peer t) of
          Ok packet \<Rightarrow>
            if rd_late r then (t\<lparr>lt_poisoned := True\<rparr>, Err DeadlineExpired)
            else if length (rp_descriptors packet) \<noteq> descriptors \<or> rp_credentials packet \<noteq> lt_peer t
            then (t, Panic)
            else (t\<lparr>lt_received := lt_received t @ [(rp_bytes packet, rp_descriptors packet)]\<rparr>, Ok packet)
        | Err Interrupted \<Rightarrow> receive_loop pidfd attempt descriptors rs t
        | Err WouldBlock \<Rightarrow>
            sbind (t, poll_accepted_control pidfd POLLIN (rd_polls r)) (\<lambda>t _.
              receive_loop pidfd attempt descriptors rs t)
        | Err e \<Rightarrow> (t, Err (map_packet_transport_error e))
        | Panic \<Rightarrow> (t, Panic))"

definition send_accepted_control_record ::
    "bool \<Rightarrow> bytes \<Rightarrow> LinuxTransport \<Rightarrow> LinuxTransport \<times> (unit, SessionTransportError) result" where
  "send_accepted_control_record pidfd b t =
     (if lt_poisoned t then (t, Err (Native None))
      else if b = [] \<or> length b > MAX_ZERO_RIGHTS_PACKET_BYTES then (t, Err RecordTooLarge)
      else send_loop pidfd b [] MAX_ZERO_RIGHTS_PACKET_BYTES (lt_rounds t) t)"

definition receive_accepted_control_record ::
    "bool \<Rightarrow> usize \<Rightarrow> LinuxTransport \<Rightarrow> LinuxTransport \<times> (bytes, SessionTransportError) result" where
  "receive_accepted_control_record pidfd maximum t =
     (if lt_poisoned t then (t, Err (Native None))
      else if maximum = 0 \<or> maximum > MAX_ZERO_RIGHTS_PACKET_BYTES then (t, Err RecordTooLarge)
      else
        sbind (receive_loop pidfd (\<lambda>r peer. receive_zero_rights_bounded (rd_recvmsg r) (rd_hangup r) maximum peer) 0
          (lt_rounds t) t) (\<lambda>t packet. (t, Ok (rp_bytes packet))))"

definition send_accepted_capability_record ::
    "bool \<Rightarrow> CapabilityFrame \<Rightarrow> int list \<Rightarrow> LinuxTransport \<Rightarrow> LinuxTransport \<times> (unit, SessionTransportError) result" where
  "send_accepted_capability_record pidfd frame capabilities t =
     (if lt_poisoned t then (t, Err (Native None))
      else if capabilities = [] \<or> length capabilities > MAX_PACKET_FDS \<or>
        list_ex (\<lambda>fd. fd < 0) capabilities
      then (t, Err MalformedRecord)
      else send_loop pidfd (cf_bytes frame) capabilities CONTROL_FRAME_LEN (lt_rounds t) t)"

definition receive_candidate_capability_record ::
    "bool \<Rightarrow> usize \<Rightarrow> LinuxTransport \<Rightarrow> LinuxTransport \<times> (bytes \<times> int list, SessionTransportError) result" where
  "receive_candidate_capability_record pidfd expected_descriptors t =
     (if lt_poisoned t then (t, Err (Native None))
      else if \<not> (1 \<le> expected_descriptors \<and> expected_descriptors \<le> MAX_PACKET_FDS)
      then (t, Err MalformedRecord)
      else
        sbind (receive_loop pidfd
          (\<lambda>r peer. receive_packet (rd_recvmsg r) (rd_hangup r) CONTROL_FRAME_LEN peer expected_descriptors)
          expected_descriptors (lt_rounds t) t) (\<lambda>t packet. (t, Ok (rp_bytes packet, rp_descriptors packet))))"

definition observe_accepted_control_peer ::
    "bool \<Rightarrow> (int + u16 \<times> u16) \<Rightarrow> (PeerState, SessionTransportError) result" where
  "observe_accepted_control_peer pidfd polled =
     (case polled of
        Inl errno \<Rightarrow> if errno = EINTR then Ok Running else Err (Native (Some errno))
      | Inr (socket, child) \<Rightarrow>
          if socket AND POLLNVAL \<noteq> 0 then Err (Native (Some EBADF))
          else if socket AND (POLLERR OR POLLHUP) \<noteq> 0 \<or> pidfd \<and> child \<noteq> 0 then Ok ExitedUnknown
          else Ok Running)"

subsection \<open>The operations of the trait\<close>

definition linux_send_record ::
    "bytes \<Rightarrow> AbsoluteDeadline \<Rightarrow> LinuxTransport \<Rightarrow> LinuxTransport \<times> (unit, SessionTransportError) result" where
  "linux_send_record b deadline t =
     sbind (t, watches_child t) (\<lambda>t pidfd. send_accepted_control_record pidfd b t)"

definition linux_receive_record ::
    "usize \<Rightarrow> AbsoluteDeadline \<Rightarrow> LinuxTransport \<Rightarrow> LinuxTransport \<times> (bytes, SessionTransportError) result" where
  "linux_receive_record maximum deadline t =
     sbind (t, watches_child t) (\<lambda>t pidfd. receive_accepted_control_record pidfd maximum t)"

definition linux_try_poll_peer :: "LinuxTransport \<Rightarrow> LinuxTransport \<times> (PeerState, SessionTransportError) result" where
  "linux_try_poll_peer t =
     (if lt_poisoned t then (t, Err TransportPoisoned)
      else
        sbind (t, watches_child t) (\<lambda>t pidfd.
          (t, observe_accepted_control_peer pidfd (lt_observation t))))"

definition linux_poison :: "LinuxTransport \<Rightarrow> LinuxTransport" where
  "linux_poison t = t\<lparr>lt_poisoned := True\<rparr>"

definition linux_transport :: "LinuxTransport Transport" where
  "linux_transport =
     \<lparr>t_send_record = linux_send_record, t_receive_record = linux_receive_record,
      t_try_poll_peer = linux_try_poll_peer, t_poison = linux_poison\<rparr>"

definition linux_send_capability_record ::
    "CapabilityFrame \<Rightarrow> int list \<Rightarrow> AbsoluteDeadline \<Rightarrow> LinuxTransport \<Rightarrow>
     LinuxTransport \<times> (unit, SessionTransportError) result" where
  "linux_send_capability_record frame capabilities deadline t =
     sbind (t, watches_child t) (\<lambda>t pidfd.
     if length capabilities \<noteq> cf_capability_count frame \<or> length capabilities > MAX_PACKET_FDS
     then (t, Err MalformedRecord)
     else send_accepted_capability_record pidfd frame capabilities t)"

definition linux_receive_candidate ::
    "usize \<Rightarrow> AbsoluteDeadline \<Rightarrow> LinuxTransport \<Rightarrow> LinuxTransport \<times> (bytes \<times> int list, SessionTransportError) result" where
  "linux_receive_candidate expected_descriptors deadline t =
     receive_candidate_capability_record False expected_descriptors t"

text \<open>
  The cleanup of the child reports whether it was reaped and the last error of the system.
\<close>

definition linux_terminate_and_reap ::
    "bool \<times> int option \<Rightarrow> LinuxTransport \<Rightarrow> LinuxTransport \<times> (unit, SessionTransportError) result" where
  "linux_terminate_and_reap cleanup t =
     (let t = t\<lparr>lt_poisoned := True\<rparr> in
      if lt_handle t \<noteq> Child True then (t, Err PeerExited)
      else
        (t\<lparr>lt_handle := Child False\<rparr>,
         if fst cleanup then Ok ()
         else case snd cleanup of Some code \<Rightarrow> Err (Native (Some code)) | None \<Rightarrow> Err DeadlineExpired))"

fun wait_exit_loop :: "PollAnswer list \<Rightarrow> (PeerState, SessionTransportError) result" where
  "wait_exit_loop [] = Err DeadlineExpired"
| "wait_exit_loop (p # ps) =
     (if pa_expired p then Err DeadlineExpired
      else
        case pa_events p of
          Inl errno \<Rightarrow> if errno = EINTR then wait_exit_loop ps else Err (Native (Some errno))
        | Inr (socket, _) \<Rightarrow>
            if pa_late p \<or> socket = 0 then Err DeadlineExpired
            else if socket AND POLLNVAL \<noteq> 0 then Err (Native (Some EBADF))
            else if socket AND (POLLERR OR POLLHUP) \<noteq> 0 then Ok ExitedUnknown
            else wait_exit_loop ps)"

definition wait_for_peer_exit ::
    "PollAnswer list \<Rightarrow> LinuxTransport \<Rightarrow> LinuxTransport \<times> (PeerState, SessionTransportError) result" where
  "wait_for_peer_exit polls t =
     (if lt_poisoned t then (t, Err TransportPoisoned) else (t, wait_exit_loop polls))"

definition wait_for_linux_peer_exit ::
    "PollAnswer list \<Rightarrow> LinuxTransport Dispatcher \<Rightarrow>
     LinuxTransport Dispatcher \<times> (PeerState, SessionTransportError) result" where
  "wait_for_linux_peer_exit polls d =
     (case wait_for_peer_exit polls (d_transport d) of
        (t, r) \<Rightarrow>
          let d = d\<lparr>d_transport := t\<rparr> in
          (case r of
             Ok ExitedUnknown \<Rightarrow> poison_both linux_transport d
           | Err e \<Rightarrow> if e \<noteq> DeadlineExpired then poison_both linux_transport d else d
           | _ \<Rightarrow> d, r))"

section \<open>Accepted packets\<close>

definition credentials_of :: "bytes \<Rightarrow> PacketCredentials" where
  "credentials_of payload =
     \<lparr>pc_pid = read_word payload 0, pc_uid = read_word payload 1, pc_gid = read_word payload 2\<rparr>"

definition descriptors_of :: "bytes \<Rightarrow> int list" where
  "descriptors_of payload = map (\<lambda>i. sint (read_word payload i)) [0..<length payload div 4]"

lemma fold_adopt:
  "fold (\<lambda>i. adopt_descriptor (g i)) is a =
     a\<lparr>an_descriptors := an_descriptors a @ filter (\<lambda>raw. raw \<ge> 0) (map g is),
       an_valid := an_valid a \<and> (\<forall>i \<in> set is. g i \<ge> 0)\<rparr>"
  by (induction "is" arbitrary: a) (auto simp: adopt_descriptor_def)

lemma adopt_rights:
  "adopt_record (SCM_RIGHTS payload) a =
     a\<lparr>an_rights_records := an_rights_records a + 1,
       an_descriptors := an_descriptors a @ filter (\<lambda>raw. raw \<ge> 0) (descriptors_of payload),
       an_valid := an_valid a \<and> an_rights_records a = 0 \<and> payload \<noteq> [] \<and> length payload mod 4 = 0 \<and>
         (\<forall>raw \<in> set (descriptors_of payload). raw \<ge> 0)\<rparr>"
  by (simp add: fold_adopt descriptors_of_def Let_def)

lemma adopt_record_invalid: "\<not> an_valid a \<Longrightarrow> \<not> an_valid (adopt_record c a)"
  by (cases c) (simp_all add: adopt_rights del: adopt_record.simps(2))

lemma adopt_chain_invalid: "\<not> an_valid a \<Longrightarrow> \<not> an_valid (adopt_chain cs a)"
proof (induction cs arbitrary: a)
  case (Cons c cs)
  then show ?case using adopt_record_invalid [OF Cons.prems, of c] by (cases c) simp_all
qed simp

lemma adopt_chain_full:
  assumes "an_credentials a \<noteq> None" "an_rights_records a \<noteq> 0" "cs \<noteq> []"
  shows "\<not> an_valid (adopt_chain cs a)"
proof (cases cs)
  case (Cons c cs')
  have "\<not> an_valid (adopt_record c a)"
    using assms by (cases c) (simp_all add: adopt_rights del: adopt_record.simps(2))
  then show ?thesis using Cons adopt_chain_invalid by (cases c) simp_all
qed (use assms in simp)

text \<open>The control chains a receiver accepts, with the descriptors they carry.\<close>

definition peer_payload :: "PacketCredentials \<Rightarrow> bytes \<Rightarrow> bool" where
  "peer_payload peer p \<longleftrightarrow> length p = 12 \<and> sint (read_word p 0) > 0 \<and> credentials_of p = peer"

definition rights_payload :: "usize \<Rightarrow> int list \<Rightarrow> bytes \<Rightarrow> bool" where
  "rights_payload n fds q \<longleftrightarrow> length q = 4 * n \<and> fds = descriptors_of q \<and> list_all (\<lambda>fd. fd \<ge> 0) fds"

definition chain_accepted :: "PacketCredentials \<Rightarrow> usize \<Rightarrow> int list \<Rightarrow> Ancillary list \<Rightarrow> bool" where
  "chain_accepted peer n fds chain \<longleftrightarrow>
     (\<exists>p. peer_payload peer p \<and>
        (n = 0 \<and> fds = [] \<and> chain = [SCM_CREDENTIALS p] \<or>
         n \<noteq> 0 \<and> (\<exists>q. rights_payload n fds q \<and>
           (chain = [SCM_CREDENTIALS p, SCM_RIGHTS q] \<or> chain = [SCM_RIGHTS q, SCM_CREDENTIALS p]))))"

lemma length_descriptors_of: "length (descriptors_of q) = length q div 4"
  by (simp add: descriptors_of_def)

lemma rights_exact:
  "q \<noteq> [] \<and> length q mod 4 = 0 \<and> (\<forall>raw \<in> set (descriptors_of q). raw \<ge> 0) \<and>
     length (filter (\<lambda>raw. raw \<ge> 0) (descriptors_of q)) = n \<longleftrightarrow>
   n \<noteq> 0 \<and> (\<exists>fds. rights_payload n fds q)"
proof -
  have f: "(\<forall>raw \<in> set (descriptors_of q). raw \<ge> 0) \<Longrightarrow>
      filter (\<lambda>raw. raw \<ge> 0) (descriptors_of q) = descriptors_of q" by simp
  have "length q mod 4 = 0 \<Longrightarrow> length q = 4 * (length q div 4)" by presburger
  then show ?thesis
    using f length_descriptors_of [of q] by (auto simp: rights_payload_def list_all_iff)
qed

lemma adopt_chain_valid:
  assumes "an_valid (adopt_received_ancillary chain)" "an_credentials (adopt_received_ancillary chain) \<noteq> None"
  obtains (credentials) p where "chain = [SCM_CREDENTIALS p]"
  | (before) p q where "chain = [SCM_CREDENTIALS p, SCM_RIGHTS q]"
  | (after) p q where "chain = [SCM_RIGHTS q, SCM_CREDENTIALS p]"
proof -
  let ?a = "\<lparr>an_descriptors = [], an_credentials = None, an_rights_records = 0, an_valid = True\<rparr>"
  note v = assms[unfolded adopt_received_ancillary_def]
  obtain c cs where c: "chain = c # cs" using v(2) by (cases chain) auto
  have first: "an_valid (adopt_chain cs (adopt_record c ?a))" "an_credentials (adopt_chain cs (adopt_record c ?a)) \<noteq> None"
    "c \<noteq> BadHeader"
    using v c by (cases c; simp)+
  then have valid: "an_valid (adopt_record c ?a)" using adopt_chain_invalid by blast
  show thesis
  proof (cases cs)
    case Nil
    then show thesis
      using credentials first(2) c by (cases c) (auto simp: adopt_rights simp del: adopt_record.simps(2))
  next
    case (Cons e es)
    have second: "an_valid (adopt_chain es (adopt_record e (adopt_record c ?a)))"
      using first(1) Cons by (cases e) auto
    then have valid2: "an_valid (adopt_record e (adopt_record c ?a))" using adopt_chain_invalid by blast
    consider (cr) p q where "c = SCM_CREDENTIALS p" "e = SCM_RIGHTS q"
      | (rc) p q where "c = SCM_RIGHTS q" "e = SCM_CREDENTIALS p"
      using valid valid2
      by (cases c; cases e) (auto simp: adopt_rights simp del: adopt_record.simps(2) split: if_splits)
    then show thesis
    proof cases
      case cr
      then have "es = []"
        using second valid adopt_chain_full [of "adopt_record e (adopt_record c ?a)" es]
        by (auto simp: adopt_rights simp del: adopt_record.simps(2) split: if_splits)
      then show thesis using before c Cons cr by simp
    next
      case rc
      then have "es = []"
        using second valid2 adopt_chain_full [of "adopt_record e (adopt_record c ?a)" es]
        by (auto simp: adopt_rights simp del: adopt_record.simps(2) split: if_splits)
      then show thesis using after c Cons rc by simp
    qed
  qed
qed

lemma ancillary_exact:
  "validate_ancillary (adopt_received_ancillary chain) peer n = Ok (fds, creds) \<longleftrightarrow>
     creds = peer \<and> chain_accepted peer n fds chain"
proof -
  let ?a = "adopt_received_ancillary chain"
  have "chain_accepted peer n fds chain \<and> creds = peer"
    if v: "validate_ancillary ?a peer n = Ok (fds, creds)"
  proof -
    have a: "an_valid ?a" "an_credentials ?a = Some peer" "creds = peer" "fds = an_descriptors ?a"
      "length (an_descriptors ?a) = n" "n = 0 \<longleftrightarrow> an_rights_records ?a = 0"
      using v by (auto simp: validate_ancillary_def outcome split: if_splits)
    then have "an_credentials ?a \<noteq> None" by simp
    from a(1) this show ?thesis
    proof (cases rule: adopt_chain_valid)
      case (credentials p)
      then show ?thesis
        using a by (auto simp: adopt_received_ancillary_def chain_accepted_def peer_payload_def credentials_of_def
            split: if_splits)
    next
      case (before p q)
      then show ?thesis
        using a rights_exact [of q n]
        by (auto simp: adopt_received_ancillary_def chain_accepted_def peer_payload_def credentials_of_def
            rights_payload_def list_all_iff adopt_rights simp del: adopt_record.simps(2) split: if_splits)
    next
      case (after p q)
      then show ?thesis
        using a rights_exact [of q n]
        by (auto simp: adopt_received_ancillary_def chain_accepted_def peer_payload_def credentials_of_def
            rights_payload_def list_all_iff adopt_rights simp del: adopt_record.simps(2) split: if_splits)
    qed
  qed
  moreover have "validate_ancillary ?a peer n = Ok (fds, peer)" if "chain_accepted peer n fds chain"
  proof -
    have r: "descriptors_of q = fds \<and> length fds = n \<and> length q mod 4 = 0 \<and> (n \<noteq> 0 \<longrightarrow> q \<noteq> []) \<and>
        (\<forall>raw \<in> set fds. raw \<ge> 0)" if "rights_payload n fds q" for q
      using that length_descriptors_of [of q] by (auto simp: rights_payload_def list_all_iff)
    from that show ?thesis
      by (auto simp: chain_accepted_def validate_ancillary_def adopt_received_ancillary_def peer_payload_def
          credentials_of_def adopt_rights simp del: adopt_record.simps(2) dest!: r)
  qed
  ultimately show ?thesis by blast
qed

definition packet_accepted ::
    "usize \<Rightarrow> usize option \<Rightarrow> PacketCredentials \<Rightarrow> usize \<Rightarrow> KernelMessage \<Rightarrow> ReceivedPacket \<Rightarrow> bool" where
  "packet_accepted room expected_len peer n k packet \<longleftrightarrow>
     \<not> km_control_overflow k \<and> \<not> km_ctrunc k \<and> length (km_bytes k) \<le> room \<and> km_bytes k \<noteq> [] \<and>
     (\<forall>l. expected_len = Some l \<longrightarrow> length (km_bytes k) = l) \<and>
     rp_bytes packet = km_bytes k \<and> rp_credentials packet = peer \<and>
     chain_accepted peer n (rp_descriptors packet) (km_ancillary k)"

lemma control_fits [simp]: "\<not> CMSG_SPACE 12 + CMSG_SPACE (MAX_PACKET_FDS * 4) > CONTROL_CAPACITY"
  by (simp add: CMSG_SPACE_def MAX_PACKET_FDS_def CONTROL_CAPACITY_def)

lemma receive_bounded_Ok:
  "receive_bounded received polled room expected_len peer n = Ok packet \<longleftrightarrow>
     0 < room \<and> room \<le> MAX_ZERO_RIGHTS_PACKET_BYTES \<and>
     (\<exists>k. received = Inr k \<and> packet_accepted room expected_len peer n k packet)"
proof (cases received)
  case (Inr k)
  obtain b f c where p: "packet = \<lparr>rp_bytes = b, rp_descriptors = f, rp_credentials = c\<rparr>" by (cases packet)
  show ?thesis
    unfolding Inr p
    by (auto simp: receive_bounded_def packet_accepted_def outcome Let_def ancillary_exact
        split: if_splits option.splits)
qed (auto simp: receive_bounded_def outcome)

lemma receive_packet_Ok:
  "receive_packet received polled len peer n = Ok packet \<longleftrightarrow>
     0 < len \<and> len \<le> CONTROL_FRAME_LEN \<and> n \<le> MAX_PACKET_FDS \<and>
     (\<exists>k. received = Inr k \<and> packet_accepted CONTROL_FRAME_LEN (Some len) peer n k packet)"
  by (auto simp: receive_packet_def receive_bounded_Ok CONTROL_FRAME_LEN_def MAX_ZERO_RIGHTS_PACKET_BYTES_def
      MAX_TRANSFER_ENTRIES_def ENTRY_LEN_def)

lemma receive_zero_rights_Ok:
  "receive_zero_rights_bounded received polled room peer = Ok packet \<longleftrightarrow>
     0 < room \<and> room \<le> MAX_ZERO_RIGHTS_PACKET_BYTES \<and>
     (\<exists>k. received = Inr k \<and> packet_accepted room None peer 0 k packet)"
  by (simp add: receive_zero_rights_bounded_def receive_bounded_Ok)

lemma accepted_descriptors:
  "packet_accepted room len peer n k packet \<Longrightarrow>
     length (rp_descriptors packet) = n \<and> rp_credentials packet = peer \<and> length (rp_bytes packet) \<le> room \<and>
     list_all (\<lambda>fd. fd \<ge> 0) (rp_descriptors packet)"
  by (auto simp: packet_accepted_def chain_accepted_def rights_payload_def length_descriptors_of)

section \<open>One record per call\<close>

lemma syscall_Panic [outcome]: "syscall r \<noteq> Panic"
  by (cases r) simp_all

lemma syscall_Ok [outcome]: "syscall r = Ok x \<longleftrightarrow> r = Inr x"
  by (cases r) simp_all

lemma wait_Panic:
  "ensure_running ps \<noteq> Panic" "poll_until v ps \<noteq> Panic" "poll_socket v ps \<noteq> Panic" "wait_exit_loop ps \<noteq> Panic"
  by (induction ps) (auto split: sum.splits)

lemma map_err_Panic: "map_err f r = Panic \<longleftrightarrow> r = Panic"
  by (cases r) simp_all

lemma poll_accepted_Panic: "poll_accepted_control pidfd v ps \<noteq> Panic"
  by (simp add: poll_accepted_control_def map_err_Panic wait_Panic)

lemma send_bounded_Panic: "send_bounded sent b fds m \<noteq> Panic"
  by (auto simp: send_bounded_def outcome)

lemma send_bounded_Ok: "send_bounded sent b fds m = Ok () \<Longrightarrow> sent = Inr (length b)"
  by (auto simp: send_bounded_def outcome split: if_splits)

lemma send_bounded_truncated: "send_bounded sent b fds m = Err PacketTruncated \<Longrightarrow> \<exists>n. sent = Inr n"
  by (cases sent) (auto simp: send_bounded_def last_io_kind_def split: if_splits)

text \<open>What a call may change: it uses up answers, logs packets and may poison.\<close>

definition same_peer :: "LinuxTransport \<Rightarrow> LinuxTransport \<Rightarrow> bool" where
  "same_peer t t' \<longleftrightarrow>
     lt_handle t' = lt_handle t \<and> lt_peer t' = lt_peer t \<and> (lt_poisoned t \<longrightarrow> lt_poisoned t')"

lemma same_peer_rounds [simp]: "same_peer (t\<lparr>lt_rounds := rs\<rparr>) t' \<longleftrightarrow> same_peer t t'"
  by (simp add: same_peer_def)

definition sent_once :: "bytes \<Rightarrow> int list \<Rightarrow> LinuxTransport \<Rightarrow> LinuxTransport \<times> (unit, SessionTransportError) result \<Rightarrow> bool" where
  "sent_once b fds t out \<longleftrightarrow>
     snd out \<noteq> Panic \<and> same_peer t (fst out) \<and> lt_received (fst out) = lt_received t \<and>
     (if snd out = Ok () then lt_sent (fst out) = lt_sent t @ [(b, fds)]
      else lt_sent (fst out) = lt_sent t \<or> (\<exists>n. lt_sent (fst out) = lt_sent t @ [(take n b, fds)]))"

lemma sent_once_refused: "sent_once b fds t (t, Err e)"
  by (simp add: sent_once_def same_peer_def)

lemma send_loop_once: "sent_once b fds t (send_loop pidfd b fds m rs t)"
proof (induction rs arbitrary: t)
  case Nil
  then show ?case by (simp add: sent_once_def same_peer_def)
next
  case (Cons r rs)
  let ?t = "t\<lparr>lt_rounds := rs\<rparr>"
  let ?live = "if pidfd then map_err map_packet_transport_error (ensure_running (rd_liveness r))
        else if rd_expired r then Err DeadlineExpired else Ok ()"
  have next': "sent_once b fds t (send_loop pidfd b fds m rs ?t)"
    using Cons.IH [of ?t] by (simp add: sent_once_def cong: if_cong)
  have live: "?live \<noteq> Panic" by (simp add: map_err_Panic wait_Panic)
  show ?case
  proof (cases ?live)
    case (Ok u)
    show ?thesis
    proof (cases "send_bounded (rd_sendmsg r) b fds m")
      case sent: (Ok v)
      then show ?thesis
        using Ok send_bounded_Ok [of "rd_sendmsg r" b fds m]
        by (auto simp: sent_once_def same_peer_def Let_def log_sent_def intro: exI [of _ "length b"])
    next
      case (Err e)
      show ?thesis
      proof (cases e)
        case WouldBlock
        then show ?thesis
          using Ok Err next' poll_accepted_Panic [of pidfd POLLOUT "rd_polls r"]
          by (cases "poll_accepted_control pidfd POLLOUT (rd_polls r)") (auto simp: sent_once_def same_peer_def)
      next
        case PacketTruncated
        then show ?thesis
          using Ok Err send_bounded_truncated [of "rd_sendmsg r" b fds m]
          by (auto simp: sent_once_def same_peer_def log_sent_def)
      qed (use Ok Err next' in \<open>auto simp: sent_once_def same_peer_def\<close>)
    qed (use send_bounded_Panic in simp)
  qed (use live in \<open>auto simp: sent_once_def same_peer_def\<close>)
qed

definition received_once ::
    "(Round \<Rightarrow> PacketCredentials \<Rightarrow> (ReceivedPacket, PacketError) result) \<Rightarrow> LinuxTransport \<Rightarrow>
     LinuxTransport \<times> (ReceivedPacket, SessionTransportError) result \<Rightarrow> bool" where
  "received_once attempt t out \<longleftrightarrow>
     same_peer t (fst out) \<and> lt_sent (fst out) = lt_sent t \<and>
     (case snd out of
        Ok packet \<Rightarrow>
          lt_received (fst out) = lt_received t @ [(rp_bytes packet, rp_descriptors packet)] \<and>
          (\<exists>r. attempt r (lt_peer t) = Ok packet)
      | Err e \<Rightarrow> lt_received (fst out) = lt_received t
      | Panic \<Rightarrow> False)"

lemma receive_loop_once:
  assumes "\<And>r packet. attempt r (lt_peer t) = Ok packet \<Longrightarrow>
      length (rp_descriptors packet) = n \<and> rp_credentials packet = lt_peer t"
    and "\<And>r. attempt r (lt_peer t) \<noteq> Panic"
  shows "received_once attempt t (receive_loop pidfd attempt n rs t)"
  using assms
proof (induction rs arbitrary: t)
  case (Cons r rs)
  let ?t = "t\<lparr>lt_rounds := rs\<rparr>"
  have next': "received_once attempt t (receive_loop pidfd attempt n rs ?t)"
    using Cons.IH [of ?t] Cons.prems by (simp add: received_once_def cong: result.case_cong)
  show ?case
  proof (cases "rd_expired r")
    case False
    show ?thesis
    proof (cases "attempt r (lt_peer t)")
      case (Ok packet)
      then show ?thesis
        using False Cons.prems(1) [OF Ok] by (auto simp: received_once_def same_peer_def Let_def)
    next
      case (Err e)
      show ?thesis
      proof (cases e)
        case WouldBlock
        then show ?thesis
          using False Err next' poll_accepted_Panic [of pidfd POLLIN "rd_polls r"]
          by (cases "poll_accepted_control pidfd POLLIN (rd_polls r)")
            (auto simp: received_once_def same_peer_def Let_def)
      qed (use False Err next' in \<open>auto simp: received_once_def same_peer_def Let_def\<close>)
    qed (use Cons.prems(2) in simp)
  qed (simp add: received_once_def same_peer_def)
qed (simp add: received_once_def same_peer_def)

lemma receive_bounded_Panic: "receive_bounded received polled room len peer n \<noteq> Panic"
  by (auto simp: receive_bounded_def validate_ancillary_def socket_has_hung_up_def outcome Let_def map_err_Panic)

lemma receive_packet_Panic:
  "receive_packet received polled len peer n \<noteq> Panic" "receive_zero_rights_bounded received polled room peer \<noteq> Panic"
  by (simp_all add: receive_packet_def receive_zero_rights_bounded_def receive_bounded_Panic)

lemma watches_child_Panic: "watches_child t \<noteq> Panic"
  by (simp add: watches_child_def split: PeerHandle.splits)

lemma linux_send_once: "sent_once b [] t (linux_send_record b deadline t)"
  using watches_child_Panic [of t]
  by (cases "watches_child t")
    (simp_all add: linux_send_record_def send_accepted_control_record_def send_loop_once sent_once_refused)

lemma linux_send_capability_once: "sent_once (cf_bytes f) fds t (linux_send_capability_record f fds deadline t)"
  using watches_child_Panic [of t]
  by (cases "watches_child t")
    (simp_all add: linux_send_capability_record_def send_accepted_capability_record_def send_loop_once sent_once_refused)

text \<open>A received record, with the kernel message it came from.\<close>

lemma linux_receive_once:
  assumes "linux_receive_record maximum deadline t = (t', r)"
  shows "r \<noteq> Panic \<and> same_peer t t' \<and> lt_sent t' = lt_sent t \<and>
    (\<forall>e. r = Err e \<longrightarrow> lt_received t' = lt_received t) \<and>
    (\<forall>b. r = Ok b \<longrightarrow> \<not> lt_poisoned t \<and> lt_received t' = lt_received t @ [(b, [])] \<and>
       (\<exists>k packet. packet_accepted maximum None (lt_peer t) 0 k packet \<and> rp_bytes packet = b))"
proof (cases "watches_child t")
  case (Ok pidfd)
  let ?attempt = "\<lambda>r peer. receive_zero_rights_bounded (rd_recvmsg r) (rd_hangup r) maximum peer"
  show ?thesis
  proof (cases "lt_poisoned t \<or> maximum = 0 \<or> maximum > MAX_ZERO_RIGHTS_PACKET_BYTES")
    case True
    then have "\<exists>e. linux_receive_record maximum deadline t = (t, Err e)"
      using Ok by (auto simp: linux_receive_record_def receive_accepted_control_record_def)
    then show ?thesis using assms by (auto simp: same_peer_def)
  next
    case False
    obtain u o' where o: "receive_loop pidfd ?attempt 0 (lt_rounds t) t = (u, o')" by fastforce
    have a: "?attempt r (lt_peer t) = Ok packet \<Longrightarrow> length (rp_descriptors packet) = 0 \<and>
        rp_credentials packet = lt_peer t" for r packet
      using accepted_descriptors by (fastforce simp: receive_zero_rights_Ok)
    have "received_once ?attempt t (u, o')"
      using receive_loop_once [of ?attempt t 0 pidfd "lt_rounds t"] a receive_packet_Panic(2) unfolding o by blast
    then show ?thesis
      using assms Ok False o a
      by (cases o')
        (auto simp: linux_receive_record_def receive_accepted_control_record_def received_once_def
          receive_zero_rights_Ok)
  qed
qed (use assms watches_child_Panic [of t] in \<open>auto simp: linux_receive_record_def same_peer_def\<close>)

lemma linux_candidate_once:
  assumes "linux_receive_candidate n deadline t = (t', r)"
  shows "r \<noteq> Panic \<and> same_peer t t' \<and> lt_sent t' = lt_sent t \<and>
    (\<forall>e. r = Err e \<longrightarrow> lt_received t' = lt_received t) \<and>
    (\<forall>b fds. r = Ok (b, fds) \<longrightarrow> \<not> lt_poisoned t \<and> lt_received t' = lt_received t @ [(b, fds)] \<and>
       (\<exists>k packet. packet_accepted CONTROL_FRAME_LEN (Some CONTROL_FRAME_LEN) (lt_peer t) n k packet \<and>
          rp_bytes packet = b \<and> rp_descriptors packet = fds))"
proof (cases "lt_poisoned t \<or> \<not> (1 \<le> n \<and> n \<le> MAX_PACKET_FDS)")
  case True
  then have "\<exists>e. linux_receive_candidate n deadline t = (t, Err e)"
    by (auto simp: linux_receive_candidate_def receive_candidate_capability_record_def)
  then show ?thesis using assms by (auto simp: same_peer_def)
next
  case False
  let ?attempt = "\<lambda>r peer. receive_packet (rd_recvmsg r) (rd_hangup r) CONTROL_FRAME_LEN peer n"
  obtain u o' where o: "receive_loop False ?attempt n (lt_rounds t) t = (u, o')" by fastforce
  have a: "?attempt r (lt_peer t) = Ok packet \<Longrightarrow> length (rp_descriptors packet) = n \<and>
      rp_credentials packet = lt_peer t" for r packet
    using accepted_descriptors by (fastforce simp: receive_packet_Ok)
  have "received_once ?attempt t (u, o')"
    using receive_loop_once [of ?attempt t n False "lt_rounds t"] a receive_packet_Panic(1) unfolding o by blast
  then show ?thesis
    using assms False o
    by (cases o')
      (auto simp: linux_receive_candidate_def receive_candidate_capability_record_def received_once_def
        receive_packet_Ok)
qed

lemma linux_poll_once:
  "linux_try_poll_peer t = (t', r) \<Longrightarrow> t' = t \<and> r \<noteq> Panic"
  using watches_child_Panic [of t]
  by (cases "watches_child t")
    (auto simp: linux_try_poll_peer_def observe_accepted_control_peer_def split: if_splits sum.splits)

interpretation linux: record_transport linux_transport lt_poisoned "\<lambda>t. map fst (lt_sent t)" "\<lambda>t. map fst (lt_received t)"
proof unfold_locales
  fix b :: bytes and deadline t t' u and e :: SessionTransportError
  note once = linux_send_once [of b t deadline]
  show "t_send_record linux_transport b deadline t = (t', Ok u) \<Longrightarrow>
      map fst (lt_sent t') = map fst (lt_sent t) @ [b] \<and> map fst (lt_received t') = map fst (lt_received t)"
    using once by (auto simp: linux_transport_def sent_once_def)
  show "t_send_record linux_transport b deadline t = (t', Err e) \<Longrightarrow>
      map fst (lt_received t') = map fst (lt_received t) \<and>
      (map fst (lt_sent t') = map fst (lt_sent t) \<or> (\<exists>n. map fst (lt_sent t') = map fst (lt_sent t) @ [take n b]))"
    using once by (auto simp: linux_transport_def sent_once_def)
  show "snd (t_send_record linux_transport b deadline t) \<noteq> Panic"
    using once by (simp add: linux_transport_def sent_once_def)
next
  fix n :: usize and deadline t t' and b :: bytes and e :: SessionTransportError
  show "t_receive_record linux_transport n deadline t = (t', Ok b) \<Longrightarrow>
      map fst (lt_received t') = map fst (lt_received t) @ [b] \<and> map fst (lt_sent t') = map fst (lt_sent t) \<and>
      length b \<le> n"
    using linux_receive_once [of n deadline t t' "Ok b"] accepted_descriptors
    by (fastforce simp: linux_transport_def)
  show "t_receive_record linux_transport n deadline t = (t', Err e) \<Longrightarrow>
      map fst (lt_received t') = map fst (lt_received t) \<and> map fst (lt_sent t') = map fst (lt_sent t)"
    using linux_receive_once [of n deadline t t' "Err e"] by (auto simp: linux_transport_def)
  show "snd (t_receive_record linux_transport n deadline t) \<noteq> Panic"
    using linux_receive_once [of n deadline t] by (cases "linux_receive_record n deadline t") (simp add: linux_transport_def)
next
  fix t t' and r :: "(PeerState, SessionTransportError) result"
  show "t_try_poll_peer linux_transport t = (t', r) \<Longrightarrow>
      map fst (lt_received t') = map fst (lt_received t) \<and> map fst (lt_sent t') = map fst (lt_sent t)"
    using linux_poll_once [of t t' r] by (simp add: linux_transport_def)
  show "snd (t_try_poll_peer linux_transport t) \<noteq> Panic"
    using linux_poll_once [of t] by (cases "linux_try_poll_peer t") (simp add: linux_transport_def)
qed (simp_all add: linux_transport_def linux_poison_def)

section \<open>Failing closed\<close>

definition closed :: "LinuxTransport Dispatcher \<Rightarrow> bool" where
  "closed d \<longleftrightarrow> cs_poisoned (d_state d) \<and> lt_poisoned (d_transport d)"

definition same_wire :: "LinuxTransport Dispatcher \<Rightarrow> LinuxTransport Dispatcher \<Rightarrow> bool" where
  "same_wire d d' \<longleftrightarrow>
     lt_sent (d_transport d') = lt_sent (d_transport d) \<and> lt_received (d_transport d') = lt_received (d_transport d)"

lemma closed_poison_both: "closed (poison_both linux_transport d)"
  using linux.poison_both_closed by (auto simp: closed_def)

lemma closed_dispatch:
  assumes "closed d" "dispatch linux_transport alloc op d = (d', ev)"
  shows "closed d' \<and> same_wire d d' \<and> ev = Silent"
  using assms
  by (cases op)
    (auto simp: closed_def same_wire_def poisoned_dispatcher end_transaction_def poison_both_def Control.poison_def
      linux_transport_def linux_poison_def)

lemma closed_run:
  assumes "closed d" "dispatch_run linux_transport alloc ops d = (d', evs)"
  shows "closed d' \<and> same_wire d d' \<and> (\<forall>ev \<in> set evs. ev = Silent)"
  using assms
proof (induction ops arbitrary: d evs)
  case (Cons op ops)
  obtain c ev where c: "dispatch linux_transport alloc op d = (c, ev)" by fastforce
  obtain evs' where r: "dispatch_run linux_transport alloc ops c = (d', evs')" "evs = ev # evs'"
    using Cons.prems(2) c by (cases "dispatch_run linux_transport alloc ops c") auto
  have step: "closed c" "same_wire d c" "ev = Silent" using closed_dispatch [OF Cons.prems(1) c] by simp_all
  from Cons.IH [OF step(1) r(1)] step r(2) show ?case by (auto simp: same_wire_def)
qed (simp add: same_wire_def)

text \<open>A session is over for good: nothing crosses the wire any more and it reports being poisoned.\<close>

definition over :: "LinuxTransport Dispatcher \<Rightarrow> bool" where
  "over d \<longleftrightarrow>
     session_state d = (Ok SessionPoisoned :: (SessionState, unit) result) \<and>
     (\<forall>alloc ops d' evs. dispatch_run linux_transport alloc ops d = (d', evs) \<longrightarrow>
        same_wire d d' \<and> (\<forall>ev \<in> set evs. ev = Silent))"

lemma closed_over: "closed d \<Longrightarrow> over d"
  unfolding over_def by (intro conjI allI impI) (simp add: closed_def session_state_def, blast dest: closed_run, blast dest: closed_run)

lemma poison_both_over: "over (poison_both linux_transport d)"
  by (rule closed_over [OF closed_poison_both])

lemma begin_failure_over:
  assumes "begin_failure linux_transport e d d'" "\<not> cs_poisoned (d_state d)"
  shows "d' = d \<and> local_refusal e \<or> over d'"
proof (cases "d' = d \<and> local_refusal e")
  case False
  then have "closed d'"
    using assms by (auto simp: begin_failure_def closed_def linux_transport_def linux_poison_def)
  then show ?thesis using closed_over by simp
qed simp

lemma session_wf_run:
  assumes "Dispatcher_new t p = Some d" "length (sf_nonce (sp_facts p)) = 32" "lt_sent t = []"
    "dispatch_run linux_transport alloc ops d = (d', evs)"
  shows "session_wf d'"
proof -
  have "stream_inv (\<lambda>t. map fst (lt_sent t)) (\<lambda>t. map fst (lt_received t)) (sf_nonce (sp_facts p)) [] d"
    using linux.fresh_stream [OF assms(1,2)] assms(3) by simp
  from linux.dispatch_run_stream [OF this assms(4)] show ?thesis by (simp add: stream_inv_def)
qed

section \<open>Properties\<close>

text \<open>C8: Whatever calls a session makes, the capability frames of its native transactions carry the
  transfer numbers 1, 2, 3, ... without gap or repetition and within the negotiated maximum; each
  frame decodes to a canonical manifest bound to the session's nonce, processes, profile and limits.\<close>

theorem transfers_numbered:
  assumes "Dispatcher_new t p = Some d" "length (sf_nonce (sp_facts p)) = 32" "\<forall>op \<in> set ops. op_wf op"
    "dispatch_run T alloc ops d = (d', evs)"
  shows "length (filter (\<lambda>ev. \<exists>f. ev = Began f) evs) = length (began_transfers evs) \<and>
    length (began_transfers evs) \<le> unat (max_transactions (sp_limits p)) \<and>
    (\<forall>i < length (began_transfers evs). \<exists>es. session_manifest p (i + 1) es (began_transfers evs ! i))"
  using transfers_numbered_run [OF assms] by (simp add: numbered_def)

definition example_parameters :: AcceptedSessionParameters where
  "example_parameters =
     \<lparr>sp_facts = \<lparr>sf_parent_pid = 10, sf_child_pid = 11, sf_parent_uid = 1000, sf_parent_gid = 1000,
        sf_child_uid = 1000, sf_child_gid = 1000, sf_nonce = replicate 32 9\<rparr>,
      sp_limits = example_session_limits, sp_authority_profile = LinuxMdweV1,
      sp_atomics = \<lparr>atomic_u32_lock_free = True, atomic_u32_alignment = 4, atomic_u64_lock_free = True,
        atomic_u64_alignment = 8, page_alignment = 4096, cache_line_alignment = 64\<rparr>,
      sp_protocol_version = \<lparr>pv_major = 1, pv_minor = 0\<rparr>\<rparr>"

definition example_entry :: ManifestEntry where
  "example_entry =
     \<lparr>me_region_id = 7, me_incarnation = replicate 16 3, me_writer = 1, me_access = ReadOnly,
      me_logical_len = 100, me_mapped_len = 4096, me_ordinal = 0, me_flags = REQUIRED_ENTRY_FLAGS\<rparr>"

definition example_dispatcher :: "'s \<Rightarrow> 's Dispatcher" where
  "example_dispatcher t =
     \<lparr>d_transport = t, d_state = \<lparr>cs_nonce = replicate 32 9, cs_maximum_payload = max_control_payload_bytes example_session_limits,
        cs_next_send = 1, cs_next_receive = 1, cs_transaction_open = False, cs_poisoned = False,
        cs_pending_receive = False\<rparr>,
      d_maximum_wire_len = 72 + unat (max_control_payload_bytes example_session_limits),
      d_parameters = example_parameters, d_next_transaction = 1,
      d_resources = \<lparr>lg_shared = \<lparr>sr_state = ACTIVE, sr_active_regions = 0, sr_active_bytes = 0,
         sr_maximum_regions = 2, sr_maximum_bytes = 10000\<rparr>, lg_leases = []\<rparr>\<rparr>"

lemma example_dispatcher_new: "Dispatcher_new t example_parameters = Some (example_dispatcher t)"
proof -
  have v: "SessionLimits_validate example_session_limits = Ok example_session_limits"
    by (simp add: limits_validate_Ok limits_valid_def example_session_limits_def)
  have n: "max_control_payload_bytes example_session_limits = 64" "max_active_regions example_session_limits = 2"
    "max_active_bytes example_session_limits = 10000"
    by (simp_all add: example_session_limits_def)
  have r: "(replicate 32 9 :: bytes) \<noteq> replicate 32 0" by (simp add: replicate_eq_replicate)
  show ?thesis
    using control_wire_len_u32 [of 64]
    by (simp add: Dispatcher_new_def example_parameters_def Let_def example_dispatcher_def v n ResourceOwner_new_def
        ControlState_new_def r HARD_MAX_CONTROL_PAYLOAD_BYTES_def is_vnext_def)
qed

definition example_round :: Round where
  "example_round =
     \<lparr>rd_expired = False, rd_liveness = [\<lparr>pa_expired = False, pa_events = Inr (0, 0), pa_late = False\<rparr>],
      rd_sendmsg = Inl EAGAIN, rd_recvmsg = Inl EAGAIN, rd_hangup = Inr 0, rd_late = False, rd_polls = []\<rparr>"

definition example_transport :: "PeerHandle \<Rightarrow> Round list \<Rightarrow> LinuxTransport" where
  "example_transport handle rounds =
     \<lparr>lt_handle = handle, lt_peer = \<lparr>pc_pid = 11, pc_uid = 1000, pc_gid = 1000\<rparr>, lt_poisoned = False,
      lt_rounds = rounds, lt_observation = Inr (0, 0), lt_sent = [], lt_received = []\<rparr>"

definition example_transfer :: TransferManifest where
  "example_transfer =
     \<lparr>tm_nonce = replicate 32 9, tm_parent_pid = 10, tm_child_pid = 11, tm_transfer_id = 1,
      tm_authority_profile = LinuxMdweV1, tm_total_logical = 100, tm_total_mapped = 4096,
      tm_entries = [example_entry]\<rparr>"

lemma example_transfer_wf: "manifest_wf example_transfer" "fits_limits example_transfer example_session_limits"
  by (simp_all add: manifest_wf_def example_transfer_def example_entry_def fits_limits_def example_session_limits_def)

lemma example_transfer_valid: "manifest_valid example_transfer"
  by (simp add: manifest_valid_def example_transfer_def example_entry_def entry_rejected_def with_ordinals_def
      REQUIRED_ENTRY_FLAGS_def replicate_eq_replicate)

lemma example_transfer_new:
  "new_with_authority (replicate 32 9) 10 11 1 LinuxMdweV1 [example_entry] = Ok example_transfer"
  using example_transfer_valid
  by (simp add: new_with_authority_Ok example_transfer_def with_ordinals_def example_entry_def)

definition example_capability :: CapabilityFrame where
  "example_capability = \<lparr>cf_bytes = manifest_bytes CAPABILITY_MAGIC example_transfer, cf_capability_count = 1\<rparr>"

lemma example_begin:
  "snd (dispatch_run T alloc [BeginNative 0 0 [example_entry] 5] (example_dispatcher t)) = [Began example_capability]"
proof -
  have f: "from_manifest example_transfer = Ok example_capability"
    using from_manifest_eq [OF example_transfer_valid example_transfer_wf(1)]
    by (simp add: example_capability_def example_transfer_def)
  have "tm_transfer_id example_transfer = 1" "max_transactions example_session_limits = 8"
    by (simp_all add: example_transfer_def example_session_limits_def)
  then show ?thesis
    by (simp add: begin_native_transaction_def enter_native_transaction_def begin_transaction_def is_expired_def
        example_dispatcher_def example_parameters_def example_transfer_new example_transfer_wf Let_def f checked_add_def)
qed

theorem transfers_numbered_witness:
  "\<exists>d' evs. dispatch_run linux_transport (\<lambda>_. True) [BeginNative 0 0 [example_entry] 5]
       (example_dispatcher (example_transport (Child True) [])) = (d', evs) \<and>
     length (began_transfers evs) = 1 \<and> (\<exists>es. session_manifest example_parameters 1 es (began_transfers evs ! 0))"
proof -
  obtain d' evs where r: "dispatch_run linux_transport (\<lambda>_. True) [BeginNative 0 0 [example_entry] 5]
       (example_dispatcher (example_transport (Child True) [])) = (d', evs)" by fastforce
  then have evs: "evs = [Began example_capability]"
    using example_begin [of linux_transport "\<lambda>_. True" "example_transport (Child True) []"] by simp
  have "length (sf_nonce (sp_facts example_parameters)) = 32" "\<forall>op \<in> set [BeginNative 0 0 [example_entry] 5]. op_wf op"
    by (simp_all add: example_parameters_def entries_wf_def example_entry_def)
  note c = transfers_numbered [OF example_dispatcher_new this r]
  have "length (began_transfers evs) = 1" using c evs by simp
  then show ?thesis using r c by (metis add_0 zero_less_one)
qed

text \<open>C11: The kernel's message is accepted exactly when it fits the room, has the expected length, was not
  truncated, and its control chain is one record of the expected peer's credentials and, when
  descriptors are expected, one record of exactly so many valid descriptors; then the bytes and the
  descriptors are delivered unchanged.  No message makes the receiver panic.\<close>

theorem packet_receive_exact:
  "receive_bounded received polled room expected_len peer n \<noteq> Panic \<and>
   (receive_bounded received polled room expected_len peer n = Ok packet \<longleftrightarrow>
      0 < room \<and> room \<le> MAX_ZERO_RIGHTS_PACKET_BYTES \<and>
      (\<exists>k. received = Inr k \<and> packet_accepted room expected_len peer n k packet))"
  using receive_bounded_Panic receive_bounded_Ok by blast

text \<open>C2: Two sessions over Linux transports that hold the same nonce and only receive packets the other
  sent: whatever both do, in whatever order packets arrive, the frames one application is given are a
  prefix of the frames the other handed over, and of those at most the last was not confirmed as
  sent.\<close>

theorem session_frames_prefix:
  assumes "Dispatcher_new t p = Some c" "Dispatcher_new u p' = Some r"
    "length (sf_nonce (sp_facts p)) = 32" "sf_nonce (sp_facts p') = sf_nonce (sp_facts p)"
    "lt_sent t = []" "lt_sent u = []"
    "dispatch_run linux_transport alloc ops c = (c', evs)" "dispatch_run linux_transport alloc' ops' r = (r', evs')"
    "set (lt_received (d_transport r')) \<subseteq> set (lt_sent (d_transport c'))"
  shows "prefix (got_frames evs') (handed_frames evs) \<and>
    (handed_frames evs = sent_frames evs \<or> (\<exists>f. handed_frames evs = sent_frames evs @ [f]))"
  using assms by (intro linux.session_streams [OF assms(1-4) _ _ assms(7,8)]) auto

text \<open>A message of a session's first frame, as the kernel hands it over.\<close>

definition example_wire :: bytes where
  "example_wire = record_bytes (replicate 32 9) 1 0x80000001 [1, 2, 3]"

definition example_message :: KernelMessage where
  "example_message =
     \<lparr>km_bytes = example_wire, km_control_overflow = False,
      km_ancillary = [SCM_CREDENTIALS [11, 0, 0, 0, 232, 3, 0, 0, 232, 3, 0, 0]], km_ctrunc = False\<rparr>"

abbreviation example_sender :: "LinuxTransport Dispatcher" where
  "example_sender \<equiv> example_dispatcher (example_transport (Child True) [example_round\<lparr>rd_sendmsg := Inr 75\<rparr>])"

abbreviation example_receiver :: "LinuxTransport Dispatcher" where
  "example_receiver \<equiv> example_dispatcher (example_transport Spawner [example_round\<lparr>rd_recvmsg := Inr example_message\<rparr>])"

abbreviation example_frame :: ControlFrame where
  "example_frame \<equiv> \<lparr>cf_kind = 0x80000001, cf_payload = [1, 2, 3]\<rparr>"

lemma example_wire_length: "length example_wire = 75"
  unfolding example_wire_def by (subst length_record_bytes) simp_all

lemma example_accepted:
  "receive_zero_rights_bounded (Inr example_message) (Inr 0) 136 \<lparr>pc_pid = 11, pc_uid = 1000, pc_gid = 1000\<rparr> =
     Ok \<lparr>rp_bytes = example_wire, rp_descriptors = [], rp_credentials = \<lparr>pc_pid = 11, pc_uid = 1000, pc_gid = 1000\<rparr>\<rparr>"
proof -
  have "read_word [11, 0, 0, 0, 232, 3, 0, 0, 232, 3, 0, 0] 0 = 11"
    "read_word [11, 0, 0, 0, 232, 3, 0, 0, 232, 3, 0, 0] 1 = 1000"
    "read_word [11, 0, 0, 0, 232, 3, 0, 0, 232, 3, 0, 0] 2 = 1000"
    by code_simp+
  then have "peer_payload \<lparr>pc_pid = 11, pc_uid = 1000, pc_gid = 1000\<rparr> [11, 0, 0, 0, 232, 3, 0, 0, 232, 3, 0, 0]"
    by (simp add: peer_payload_def credentials_of_def)
  then show ?thesis
    using example_wire_length
    by (auto simp: receive_zero_rights_Ok packet_accepted_def example_message_def chain_accepted_def
        MAX_ZERO_RIGHTS_PACKET_BYTES_def)
qed

lemma example_sent:
  "dispatch_run linux_transport (\<lambda>_. True) [SendFrame example_frame 5] example_sender =
     (example_sender\<lparr>d_transport := (example_transport (Child True) [])\<lparr>lt_sent := [(example_wire, [])]\<rparr>,
        d_state := (d_state example_sender)\<lparr>cs_next_send := 2\<rparr>\<rparr>, [Sent example_frame])"
proof -
  let ?t = "example_transport (Child True) [example_round\<lparr>rd_sendmsg := Inr 75\<rparr>]"
  let ?s = "d_state example_sender"
  have adm: "admissible 64 0x80000001 [1, 2, 3]"
    by (simp add: admissible_def APPLICATION_CONTROL_KIND_MIN_def hard_max_control)
  have st: "cs_maximum_payload ?s = 64" "cs_nonce ?s = replicate 32 9" "cs_next_send ?s = 1" "\<not> cs_poisoned ?s"
    "\<not> cs_transaction_open ?s" "\<not> cs_pending_receive ?s" "d_transport example_sender = ?t"
    by (simp_all add: example_dispatcher_def example_session_limits_def)
  have len: "encoded_len_parts ?s 0x80000001 3 = Ok 75"
    using check_local_parts_Ok [of ?s "0x80000001" "[1, 2, 3]"] adm st
    by (simp add: encoded_len_parts_def control_wire_len_def CONTROL_HEADER_LEN_def checked_add_usize_def usize_max_def
        numeral_3_eq_3 [symmetric])
  have enc: "encode_parts_into ?s 0x80000001 [1, 2, 3] (replicate 75 0) = (?s\<lparr>cs_next_send := 2\<rparr>, Ok (example_wire, 75))"
    using adm st by (subst encode_parts_into_Ok) (simp_all add: example_wire_def)
  have b: "send_bounded (Inr 75) example_wire [] MAX_ZERO_RIGHTS_PACKET_BYTES = Ok ()"
    using example_wire_length by (auto simp: send_bounded_def MAX_ZERO_RIGHTS_PACKET_BYTES_def MAX_PACKET_FDS_def)
  have "linux_send_record example_wire 5 ?t =
      ((example_transport (Child True) [])\<lparr>lt_sent := [(example_wire, [])]\<rparr>, Ok ())"
    using example_wire_length b
    by (auto simp: linux_send_record_def send_accepted_control_record_def example_transport_def watches_child_def
        MAX_ZERO_RIGHTS_PACKET_BYTES_def example_round_def Let_def log_sent_def)
  then show ?thesis
    using len enc st by (simp add: send_parts_def linux_transport_def numeral_3_eq_3 [symmetric])
qed

lemma example_got:
  "\<exists>d. dispatch_run linux_transport (\<lambda>_. True) [ReceiveFrame 5] example_receiver = (d, [Got example_frame]) \<and>
     lt_received (d_transport d) = [(example_wire, [])]"
proof -
  let ?t = "example_transport Spawner [example_round\<lparr>rd_recvmsg := Inr example_message\<rparr>]"
  let ?s = "d_state example_receiver"
  have adm: "admissible 64 0x80000001 [1, 2, 3]"
    by (simp add: admissible_def APPLICATION_CONTROL_KIND_MIN_def hard_max_control)
  have st: "cs_maximum_payload ?s = 64" "cs_nonce ?s = replicate 32 9" "cs_next_receive ?s = 1" "\<not> cs_poisoned ?s"
    "\<not> cs_transaction_open ?s" "\<not> cs_pending_receive ?s" "d_transport example_receiver = ?t"
    "d_maximum_wire_len example_receiver = 136"
    by (simp_all add: example_dispatcher_def example_session_limits_def)
  have dec: "decode_owned ?s example_wire = (?s\<lparr>cs_next_receive := 2\<rparr>, Ok example_frame)"
    using adm st by (subst decode_owned_Ok) (simp_all add: example_wire_def)
  have "linux_receive_record 136 5 ?t =
      ((example_transport Spawner [])\<lparr>lt_received := [(example_wire, [])]\<rparr>, Ok example_wire)"
    using example_accepted
    by (simp add: linux_receive_record_def receive_accepted_control_record_def example_transport_def watches_child_def
        MAX_ZERO_RIGHTS_PACKET_BYTES_def example_round_def Let_def)
  then show ?thesis
    using dec st example_wire_length by (simp add: receive_def linux_transport_def Let_def)
qed

theorem session_frames_prefix_witness:
  "\<exists>c' r' evs evs'.
     dispatch_run linux_transport (\<lambda>_. True) [SendFrame example_frame 5] example_sender = (c', evs) \<and>
     dispatch_run linux_transport (\<lambda>_. True) [ReceiveFrame 5] example_receiver = (r', evs') \<and>
     got_frames evs' = [example_frame] \<and> prefix (got_frames evs') (handed_frames evs)"
proof -
  obtain d where d: "dispatch_run linux_transport (\<lambda>_. True) [ReceiveFrame 5] example_receiver = (d, [Got example_frame])"
    "lt_received (d_transport d) = [(example_wire, [])]"
    using example_got by blast
  have "prefix (got_frames [Got example_frame]) (handed_frames [Sent example_frame])"
    using session_frames_prefix [OF example_dispatcher_new example_dispatcher_new _ _ _ _ example_sent d(1)] d(2)
    by (simp add: example_parameters_def example_transport_def)
  then show ?thesis using example_sent d(1) by fastforce
qed

text \<open>C4: In every state a session can reach, no call panics, and a call that fails either refused its
  arguments and left the session untouched or ended the session: from then on nothing is sent or
  received, every call fails and the session reports being poisoned.  A peer found dead ends the
  session too.\<close>

theorem session_fails_closed:
  assumes "Dispatcher_new t p = Some c" "length (sf_nonce (sp_facts p)) = 32" "lt_sent t = []"
    "\<forall>op \<in> set ops. op_wf op" "dispatch_run linux_transport alloc ops c = (d, evs)" "\<not> cs_poisoned (d_state d)"
    "entries_wf entries"
  shows "(case send_parts linux_transport alloc kind payload deadline d of
      (d', r) \<Rightarrow> r \<noteq> Panic \<and> (\<forall>e. r = Err e \<longrightarrow> d' = d \<and> local_refusal e \<or> over d')) \<and>
    (case receive linux_transport deadline d of
      (d', r) \<Rightarrow> r \<noteq> Panic \<and> (\<forall>e. r = Err e \<longrightarrow> over d')) \<and>
    (case try_poll_peer linux_transport d of
      (d', r) \<Rightarrow> r \<noteq> Panic \<and> (r \<noteq> Ok Running \<longrightarrow> over d')) \<and>
    (case begin_native_transaction linux_transport now now' entries deadline d of
      (d', r) \<Rightarrow> r \<noteq> Panic \<and> (\<forall>e. r = Err e \<longrightarrow> d' = d \<and> local_refusal e \<or> over d'))"
proof -
  have wf: "session_wf d" by (rule session_wf_run [OF assms(1-3,5)])
  have "numbered p evs d" by (rule transfers_numbered_run [OF assms(1,2,4,5)])
  then have ok: "parameters_ok (d_parameters d)"
    using fresh_dispatcher [OF assms(1)] assms(2) by (simp add: numbered_def parameters_ok_def)
  have "case send_parts linux_transport alloc kind payload deadline d of
      (d', r) \<Rightarrow> r \<noteq> Panic \<and> (\<forall>e. r = Err e \<longrightarrow> d' = d \<and> local_refusal e \<or> over d')"
    using linux.send_fails_closed [OF wf assms(6), of alloc kind payload deadline] poison_both_over
    by (cases "send_parts linux_transport alloc kind payload deadline d") fastforce
  moreover have "case receive linux_transport deadline d of (d', r) \<Rightarrow> r \<noteq> Panic \<and> (\<forall>e. r = Err e \<longrightarrow> over d')"
    using linux.receive_fails_closed [OF assms(6), of deadline] poison_both_over
    by (cases "receive linux_transport deadline d") fastforce
  moreover have "case try_poll_peer linux_transport d of (d', r) \<Rightarrow> r \<noteq> Panic \<and> (r \<noteq> Ok Running \<longrightarrow> over d')"
    using linux.poll_fails_closed [OF assms(6)] poison_both_over
    by (cases "try_poll_peer linux_transport d") fastforce
  moreover have "case begin_native_transaction linux_transport now now' entries deadline d of
      (d', r) \<Rightarrow> r \<noteq> Panic \<and> (\<forall>e. r = Err e \<longrightarrow> d' = d \<and> local_refusal e \<or> over d')"
    using begin_native_fails [OF ok assms(7), of linux_transport now now' deadline] begin_failure_over [OF _ assms(6)]
    by (cases "begin_native_transaction linux_transport now now' entries deadline d") blast
  ultimately show ?thesis by blast
qed

theorem session_fails_closed_witness:
  "\<exists>d' e. receive linux_transport 5 (example_dispatcher (example_transport Spawner [])) = (d', Err e) \<and> over d'"
proof -
  let ?d = "example_dispatcher (example_transport Spawner [])"
  have r: "dispatch_run linux_transport (\<lambda>_. True) [] ?d = (?d, [])" by simp
  obtain d' r where d: "receive linux_transport 5 ?d = (d', r)" by fastforce
  have "\<exists>e. r = Err e"
    using d by (auto simp: receive_def linux_transport_def linux_receive_record_def receive_accepted_control_record_def
        example_dispatcher_def example_transport_def watches_child_def example_session_limits_def
        MAX_ZERO_RIGHTS_PACKET_BYTES_def)
  moreover have h: "\<not> cs_poisoned (d_state ?d)" "lt_sent (example_transport Spawner []) = []"
    "length (sf_nonce (sp_facts example_parameters)) = 32" "entries_wf [example_entry]"
    by (simp_all add: example_dispatcher_def example_transport_def example_parameters_def entries_wf_def example_entry_def)
  have "\<forall>op \<in> set []. op_wf op" by simp
  note c = session_fails_closed [OF example_dispatcher_new h(3,2) this r h(1,4), THEN conjunct2, THEN conjunct1, of 5]
  ultimately show ?thesis using c d by fastforce
qed

end
