(* ===== verification/Memfd.thy ===== *)
theory Memfd
  imports Batch Linux_Transport
begin

text \<open>
  Sealed memory files, \<^verbatim>\<open>native-ipc/src/backend/linux_vnext/memory.rs\<close> up to the preparation of regions
  with one direction.  The kernel is a record of answers: each call is answered from its arguments and
  the whole history of calls, so a peer that acts in between, a clock that runs on and a call that
  fails are all covered.  The state of these definitions is that history.  Owned mappings and
  descriptors are released where the source drops them, and the releases are part of the history.
\<close>

unbundle bit_operations_syntax

section \<open>The kernel\<close>

type_synonym i32 = "32 word"

record Stat =
  st_dev :: u64
  st_ino :: u64
  st_size :: u64
  st_nlink :: nat
  st_mode :: u32

datatype Advice = MADV_DONTDUMP | MADV_DONTFORK

datatype Event =
    Fstat int "int + Stat"
  | Fstatfs int "int + int"
  | GetSeals int i32
  | GetFl int i32
  | AddSeals int i32 "int + unit"
  | DupFd int "int + int"
  | CloseFd int
  | Reserve usize "int + nat"
  | MapShared "nat option" usize bool int "int + nat"
  | Munmap nat usize "int + unit"
  | Madvise nat usize Advice "int + unit"
  | Zeroed nat usize
  | Clock nat

type_synonym history = "Event list"

record Kernel =
  k_fstat :: "history \<Rightarrow> int \<Rightarrow> int + Stat"
  k_fstatfs :: "history \<Rightarrow> int \<Rightarrow> int + int"
  k_get_seals :: "history \<Rightarrow> int \<Rightarrow> i32"
  k_get_fl :: "history \<Rightarrow> int \<Rightarrow> i32"
  k_add_seals :: "history \<Rightarrow> int \<Rightarrow> i32 \<Rightarrow> int + unit"
  k_dupfd :: "history \<Rightarrow> int \<Rightarrow> int + int"
  k_reserve :: "history \<Rightarrow> usize \<Rightarrow> int + nat"
  k_map :: "history \<Rightarrow> nat option \<Rightarrow> usize \<Rightarrow> bool \<Rightarrow> int \<Rightarrow> int + nat"
  k_munmap :: "history \<Rightarrow> nat \<Rightarrow> usize \<Rightarrow> int + unit"
  k_madvise :: "history \<Rightarrow> nat \<Rightarrow> usize \<Rightarrow> Advice \<Rightarrow> int + unit"
  k_now :: "history \<Rightarrow> nat"
  k_errno :: "history \<Rightarrow> int"
  k_page_size :: int

datatype MemfdError =
    InvalidSize
  | InvalidBatch
  | UnsupportedDirection
  | DeadlineExpired
  | DeadlineMismatch
  | InvalidObject
  | WrongObject
  | WrongProvenance
  | ExecutableAuthorityUnsupported
  | GuardUnavailable
  | Native int

type_synonym 'a memfd = "history \<times> ('a, MemfdError) result"

definition F_SEAL_EXEC :: i32 where "F_SEAL_EXEC = 0x20"
definition F_SEAL_SEAL :: i32 where "F_SEAL_SEAL = 0x1"
definition F_SEAL_SHRINK :: i32 where "F_SEAL_SHRINK = 0x2"
definition F_SEAL_GROW :: i32 where "F_SEAL_GROW = 0x4"
definition F_SEAL_FUTURE_WRITE :: i32 where "F_SEAL_FUTURE_WRITE = 0x10"
definition PREFIX_SEALS :: i32 where "PREFIX_SEALS = F_SEAL_EXEC OR F_SEAL_GROW OR F_SEAL_SHRINK"
definition FINAL_SEALS :: i32 where "FINAL_SEALS = PREFIX_SEALS OR F_SEAL_FUTURE_WRITE OR F_SEAL_SEAL"
definition TMPFS_MAGIC :: int where "TMPFS_MAGIC = 0x01021994"

text \<open>\<^verbatim>\<open>expect\<close> on a \<^verbatim>\<open>Result\<close>.\<close>

definition expect_result :: "('a, 'e) result \<Rightarrow> ('a, 'f) result" where
  "expect_result r = (case r of Ok x \<Rightarrow> Ok x | _ \<Rightarrow> Panic)"

text \<open>An owned value that goes out of scope on an early return is dropped there.\<close>

definition or_drop :: "(history \<Rightarrow> history) \<Rightarrow> history \<times> ('a, 'e) result \<Rightarrow> history \<times> ('a, 'e) result" where
  "or_drop d m = (case m of (h, Ok x) \<Rightarrow> (h, Ok x) | (h, r) \<Rightarrow> (d h, r))"

definition check_deadline :: "Kernel \<Rightarrow> AbsoluteDeadline \<Rightarrow> history \<Rightarrow> unit memfd" where
  "check_deadline K deadline h =
     (h @ [Clock (k_now K h)],
      if is_expired (k_now K h) deadline then Err DeadlineExpired else Ok ())"

definition add_seals :: "Kernel \<Rightarrow> int \<Rightarrow> i32 \<Rightarrow> history \<Rightarrow> unit memfd" where
  "add_seals K fd seals h =
     (h @ [AddSeals fd seals (k_add_seals K h fd seals)], map_err Native (syscall (k_add_seals K h fd seals)))"

definition duplicate :: "Kernel \<Rightarrow> int \<Rightarrow> history \<Rightarrow> int memfd" where
  "duplicate K fd h = (h @ [DupFd fd (k_dupfd K h fd)], map_err Native (syscall (k_dupfd K h fd)))"

definition close :: "int \<Rightarrow> history \<Rightarrow> history" where
  "close fd h = h @ [CloseFd fd]"

definition munmap :: "Kernel \<Rightarrow> nat \<Rightarrow> usize \<Rightarrow> history \<Rightarrow> history" where
  "munmap K base n h = h @ [Munmap base n (k_munmap K h base n)]"

record ObjectKey =
  ok_device :: u64
  ok_inode :: u64
  ok_mapped_len :: usize

definition object_valid :: "usize \<Rightarrow> i32 \<Rightarrow> Stat \<Rightarrow> int \<Rightarrow> i32 \<Rightarrow> i32 \<Rightarrow> bool" where
  "object_valid mapped_len expected_seals stat f_type seals flags \<longleftrightarrow>
     \<not> (seals \<noteq> expected_seals
        \<or> sint flags < 0
        \<or> flags AND 3 \<noteq> 2
        \<or> st_size stat \<noteq> word_of_nat mapped_len
        \<or> st_nlink stat \<noteq> 0
        \<or> st_mode stat AND 0xF000 \<noteq> 0x8000
        \<or> st_mode stat AND 0x49 \<noteq> 0
        \<or> f_type \<noteq> TMPFS_MAGIC)"

definition validate_object :: "Kernel \<Rightarrow> int \<Rightarrow> usize \<Rightarrow> i32 \<Rightarrow> history \<Rightarrow> ObjectKey memfd" where
  "validate_object K fd mapped_len expected_seals h =
     (let h1 = h @ [Fstat fd (k_fstat K h fd)] in
      sbind (h1, map_err Native (syscall (k_fstat K h fd))) (\<lambda>h1 stat.
      let h2 = h1 @ [Fstatfs fd (k_fstatfs K h1 fd)] in
      sbind (h2, map_err Native (syscall (k_fstatfs K h1 fd))) (\<lambda>h2 f_type.
      let seals = k_get_seals K h2 fd; h3 = h2 @ [GetSeals fd seals];
          flags = k_get_fl K h3 fd; h4 = h3 @ [GetFl fd flags] in
      (h4,
       if object_valid mapped_len expected_seals stat f_type seals flags
       then Ok \<lparr>ok_device = st_dev stat, ok_inode = st_ino stat, ok_mapped_len = mapped_len\<rparr>
       else Err InvalidObject))))"

text \<open>A validation that must give the key recorded before.\<close>

definition validate_key :: "Kernel \<Rightarrow> int \<Rightarrow> ObjectKey \<Rightarrow> i32 \<Rightarrow> history \<Rightarrow> unit memfd" where
  "validate_key K fd key seals h =
     sbind (validate_object K fd (ok_mapped_len key) seals h) (\<lambda>h validated.
       (h, if validated = key then Ok () else Err WrongObject))"

definition native_page_size :: "Kernel \<Rightarrow> history \<Rightarrow> (usize, MemfdError) result" where
  "native_page_size K h =
     (if 0 \<le> k_page_size K \<and> is_power_of_two (nat (k_page_size K)) then Ok (nat (k_page_size K))
      else Err (Native (k_errno K h)))"

definition memfd_page_align :: "Kernel \<Rightarrow> usize \<Rightarrow> history \<Rightarrow> (usize, MemfdError) result" where
  "memfd_page_align K n h =
     (if n = 0 then Err InvalidSize
      else
        rbind (native_page_size K h) (\<lambda>page.
          case checked_add_usize n (page - 1) of
            None \<Rightarrow> Err InvalidSize
          | Some v \<Rightarrow>
              let v = unat ((word_of_nat v :: u64) AND NOT (word_of_nat (page - 1))) in
              if v \<le> 2 ^ 63 - 1 then Ok v else Err InvalidSize))"

section \<open>Mappings\<close>

text \<open>A pending mapping has the same fields; its address may still be null.\<close>

record VmMapping =
  vm_base :: nat
  vm_len :: usize
  vm_clear_on_drop :: bool
  vm_reservation_base :: nat
  vm_reservation_len :: usize
  vm_guarded :: bool

type_synonym PendingVmMapping = VmMapping

definition drop_mapping :: "Kernel \<Rightarrow> VmMapping \<Rightarrow> history \<Rightarrow> history" where
  "drop_mapping K m h =
     munmap K (vm_reservation_base m) (vm_reservation_len m)
       (if vm_clear_on_drop m then h @ [Zeroed (vm_base m) (vm_len m)] else h)"

definition drop_pending :: "Kernel \<Rightarrow> PendingVmMapping \<Rightarrow> history \<Rightarrow> history" where
  "drop_pending K m h =
     munmap K (vm_reservation_base m) (vm_reservation_len m)
       (if vm_clear_on_drop m \<and> vm_base m \<noteq> 0 then h @ [Zeroed (vm_base m) (vm_len m)] else h)"

definition map_guarded ::
    "Kernel \<Rightarrow> int \<Rightarrow> usize \<Rightarrow> bool \<Rightarrow> bool \<Rightarrow> history \<Rightarrow> history \<times> PendingVmMapping option" where
  "map_guarded K fd n writable clear_on_drop h =
     (case native_page_size K h of
        Ok page \<Rightarrow>
          if n = 0 \<or> \<not> page dvd n then (h, None)
          else if page * 2 > usize_max then (h, None)
          else
            (case checked_add_usize n (page * 2) of
               None \<Rightarrow> (h, None)
             | Some whole \<Rightarrow>
                 if whole > 2 ^ 63 - 1 then (h, None)
                 else
                   let answer = k_reserve K h whole; h = h @ [Reserve whole answer] in
                   (case answer of
                      Inl _ \<Rightarrow> (h, None)
                    | Inr reservation \<Rightarrow>
                        let at = Some (reservation + page); answer = k_map K h at n writable fd;
                            h = h @ [MapShared at n writable fd answer] in
                        (case answer of
                           Inl _ \<Rightarrow> (munmap K reservation whole h, None)
                         | Inr interior \<Rightarrow>
                             (h, Some \<lparr>vm_base = interior, vm_len = n, vm_clear_on_drop = clear_on_drop,
                                vm_reservation_base = reservation, vm_reservation_len = whole,
                                vm_guarded = True\<rparr>))))
      | _ \<Rightarrow> (h, None))"

definition map_plain :: "Kernel \<Rightarrow> int \<Rightarrow> usize \<Rightarrow> bool \<Rightarrow> bool \<Rightarrow> history \<Rightarrow> PendingVmMapping memfd" where
  "map_plain K fd n writable clear_on_drop h =
     (let answer = k_map K h None n writable fd in
      sbind (h @ [MapShared None n writable fd answer], map_err Native (syscall answer)) (\<lambda>h base.
        (h, Ok \<lparr>vm_base = base, vm_len = n, vm_clear_on_drop = clear_on_drop,
               vm_reservation_base = base, vm_reservation_len = n, vm_guarded = False\<rparr>)))"

definition pending_map ::
    "Kernel \<Rightarrow> int \<Rightarrow> usize \<Rightarrow> bool \<Rightarrow> bool \<Rightarrow> bool \<Rightarrow> history \<Rightarrow> PendingVmMapping memfd" where
  "pending_map K fd n writable clear_on_drop guard h =
     (if guard
      then
        (case map_guarded K fd n writable clear_on_drop h of
           (h, Some guarded) \<Rightarrow> (h, Ok guarded)
         | (h, None) \<Rightarrow> map_plain K fd n writable clear_on_drop h)
      else map_plain K fd n writable clear_on_drop h)"

definition advise :: "Kernel \<Rightarrow> Advice \<Rightarrow> PendingVmMapping \<Rightarrow> history \<Rightarrow> unit memfd" where
  "advise K advice m h =
     (let answer = k_madvise K h (vm_base m) (vm_len m) advice in
      (h @ [Madvise (vm_base m) (vm_len m) advice answer], map_err Native (syscall answer)))"

definition into_mapping :: "PendingVmMapping \<Rightarrow> (VmMapping, MemfdError) result" where
  "into_mapping m = (if vm_base m = 0 then Err InvalidObject else Ok m)"

definition map_with_clear ::
    "Kernel \<Rightarrow> int \<Rightarrow> usize \<Rightarrow> bool \<Rightarrow> bool \<Rightarrow> bool \<Rightarrow> history \<Rightarrow> VmMapping memfd" where
  "map_with_clear K fd n writable clear_on_drop guard h =
     sbind (pending_map K fd n writable clear_on_drop guard h) (\<lambda>h pending.
       or_drop (drop_pending K pending)
         (sbind (advise K MADV_DONTDUMP pending h) (\<lambda>h _.
          sbind (advise K MADV_DONTFORK pending h) (\<lambda>h _.
            (h, into_mapping pending)))))"

text \<open>A refused \<^verbatim>\<open>munmap\<close> leaves the mapping to its destructor.\<close>

definition unmap :: "Kernel \<Rightarrow> VmMapping \<Rightarrow> history \<Rightarrow> unit memfd" where
  "unmap K m h =
     (let answer = k_munmap K h (vm_reservation_base m) (vm_reservation_len m);
          h = munmap K (vm_reservation_base m) (vm_reservation_len m) h in
      or_drop (drop_mapping K m) (h, map_err Native (syscall answer)))"

section \<open>Private memory files\<close>

record QuiescentRegion =
  qr_fd :: int
  qr_base :: nat
  qr_len :: usize
  qr_logical_len :: usize

definition drop_quiescent :: "Kernel \<Rightarrow> QuiescentRegion \<Rightarrow> history \<Rightarrow> history" where
  "drop_quiescent K q h = munmap K (qr_base q) (qr_len q) (close (qr_fd q) h)"

text \<open>
  The regions of theory Memory are their bytes; \<open>place\<close> gives the descriptor and the address of the
  native owner behind an incarnation.
\<close>

type_synonym placement = "bytes \<Rightarrow> int \<times> nat"

definition into_linux_quiescent ::
    "placement \<Rightarrow> NativeShareRequest \<Rightarrow> (QuiescentRegion \<times> CleanupPolicy, MemfdError) result" where
  "into_linux_quiescent place q =
     rbind (expect (sq_inner q)) (\<lambda>inner.
       Ok (\<lparr>qr_fd = fst (place (sq_incarnation q)), qr_base = snd (place (sq_incarnation q)),
            qr_len = length inner, qr_logical_len = sq_logical_len q\<rparr>, sq_cleanup q))"

definition drop_request :: "Kernel \<Rightarrow> placement \<Rightarrow> NativeShareRequest \<Rightarrow> history \<Rightarrow> history" where
  "drop_request K place q h =
     (case into_linux_quiescent place q of
        Ok (region, cleanup) \<Rightarrow>
          drop_quiescent K region
            (if cleanup = ClearThenRelease then h @ [Zeroed (qr_base region) (qr_len region)] else h)
      | _ \<Rightarrow> h)"

definition drop_region :: "Kernel \<Rightarrow> placement \<Rightarrow> PreparedRegion \<Rightarrow> history \<Rightarrow> history" where
  "drop_region K place r = drop_request K place (pq_request r)"

record PrivateMemfd =
  pm_fd :: int
  pm_mapping :: VmMapping
  pm_logical_len :: usize

definition drop_private :: "Kernel \<Rightarrow> PrivateMemfd \<Rightarrow> history \<Rightarrow> history" where
  "drop_private K p h = drop_mapping K (pm_mapping p) (close (pm_fd p) h)"

definition from_quiescent ::
    "Kernel \<Rightarrow> QuiescentRegion \<Rightarrow> CleanupPolicy \<Rightarrow> AbsoluteDeadline \<Rightarrow> bool \<Rightarrow> history \<Rightarrow> PrivateMemfd memfd" where
  "from_quiescent K region cleanup deadline guard h =
     sbind (or_drop (drop_quiescent K region) (check_deadline K deadline h)) (\<lambda>h _.
     sbind
       (or_drop
          (\<lambda>h. drop_quiescent K region
             (if cleanup = ClearThenRelease then h @ [Zeroed (qr_base region) (qr_len region)] else h))
          (map_with_clear K (qr_fd region) (qr_len region) True (cleanup = ClearThenRelease) guard h))
       (\<lambda>h mapping.
     sbind
       (or_drop (\<lambda>h. drop_quiescent K region (drop_mapping K mapping h)) (check_deadline K deadline h))
       (\<lambda>h _.
     let h = munmap K (qr_base region) (qr_len region) h in
     or_drop (\<lambda>h. drop_mapping K mapping (close (qr_fd region) h))
       (case validate_object K (qr_fd region) (qr_len region) F_SEAL_EXEC h of
          (h, validation) \<Rightarrow>
            sbind (check_deadline K deadline h) (\<lambda>h _.
            sbind (h, validation) (\<lambda>h _.
              (h, Ok \<lparr>pm_fd = qr_fd region, pm_mapping = mapping,
                     pm_logical_len = qr_logical_len region\<rparr>)))))))"

record CoordinatorWriterPrepared =
  cw_fd :: int
  cw_mapping :: VmMapping
  cw_reader_capability :: int
  cw_key :: ObjectKey

definition drop_coordinator_prepared :: "Kernel \<Rightarrow> CoordinatorWriterPrepared \<Rightarrow> history \<Rightarrow> history" where
  "drop_coordinator_prepared K p h =
     close (cw_reader_capability p) (drop_mapping K (cw_mapping p) (close (cw_fd p) h))"

definition prepare_coordinator_writer_for_batch ::
    "Kernel \<Rightarrow> AbsoluteDeadline \<Rightarrow> PrivateMemfd \<Rightarrow> history \<Rightarrow> CoordinatorWriterPrepared memfd" where
  "prepare_coordinator_writer_for_batch K deadline p h =
     sbind
       (or_drop (drop_private K p)
          (sbind (check_deadline K deadline h) (\<lambda>h _.
           sbind (add_seals K (pm_fd p) (FINAL_SEALS AND NOT F_SEAL_EXEC) h) (\<lambda>h _.
             check_deadline K deadline h))))
       (\<lambda>h _.
     let mapping = pm_mapping p in
     or_drop (\<lambda>h. close (pm_fd p) (drop_mapping K mapping h))
       (sbind (validate_object K (pm_fd p) (vm_len mapping) FINAL_SEALS h) (\<lambda>h key.
        sbind (check_deadline K deadline h) (\<lambda>h _.
        sbind (duplicate K (pm_fd p) h) (\<lambda>h reader_capability.
        or_drop (close reader_capability)
          (sbind (check_deadline K deadline h) (\<lambda>h _.
           sbind (validate_object K reader_capability (vm_len mapping) FINAL_SEALS h) (\<lambda>h exported.
           sbind (check_deadline K deadline h) (\<lambda>h _.
             (h,
              if exported \<noteq> key then Err WrongObject
              else Ok \<lparr>cw_fd = pm_fd p, cw_mapping = mapping,
                      cw_reader_capability = reader_capability, cw_key = key\<rparr>))))))))))"

text \<open>The writable view is gone before the descriptor can leave the process.\<close>

definition prepare_receiver_writer_for_batch ::
    "Kernel \<Rightarrow> AbsoluteDeadline \<Rightarrow> PrivateMemfd \<Rightarrow> history \<Rightarrow> (int \<times> ObjectKey) memfd" where
  "prepare_receiver_writer_for_batch K deadline p h =
     (let mapped_len = vm_len (pm_mapping p) in
      sbind
        (or_drop (drop_private K p)
           (sbind (check_deadline K deadline h) (\<lambda>h _.
            sbind (add_seals K (pm_fd p) (F_SEAL_GROW OR F_SEAL_SHRINK) h) (\<lambda>h _.
            sbind (check_deadline K deadline h) (\<lambda>h _.
            sbind (validate_object K (pm_fd p) mapped_len PREFIX_SEALS h) (\<lambda>h key.
            sbind (check_deadline K deadline h) (\<lambda>h _.
              (h, Ok key))))))))
        (\<lambda>h key.
      or_drop (close (pm_fd p))
        (sbind (unmap K ((pm_mapping p)\<lparr>vm_clear_on_drop := False\<rparr>) h) (\<lambda>h _.
         sbind (check_deadline K deadline h) (\<lambda>h _.
         sbind (validate_object K (pm_fd p) mapped_len PREFIX_SEALS h) (\<lambda>h again.
         if again \<noteq> key then (h, Err WrongObject)
         else
           sbind (check_deadline K deadline h) (\<lambda>h _.
             (h, Ok (pm_fd p, key)))))))))"

definition revalidate_prepared :: "Kernel \<Rightarrow> AbsoluteDeadline \<Rightarrow> CoordinatorWriterPrepared \<Rightarrow> history \<Rightarrow> unit memfd" where
  "revalidate_prepared K deadline p h =
     sbind (check_deadline K deadline h) (\<lambda>h _.
     sbind (validate_object K (cw_fd p) (vm_len (cw_mapping p)) FINAL_SEALS h) (\<lambda>h original.
     sbind (check_deadline K deadline h) (\<lambda>h _.
     sbind (validate_object K (cw_reader_capability p) (vm_len (cw_mapping p)) FINAL_SEALS h) (\<lambda>h exported.
     sbind (check_deadline K deadline h) (\<lambda>h _.
       (h, if original \<noteq> cw_key p \<or> exported \<noteq> cw_key p then Err WrongObject else Ok ()))))))"

section \<open>Batches with one direction\<close>

record LinuxCoordinatorWriterEntry =
  ce_native :: NativeRegionSpec
  ce_prepared :: CoordinatorWriterPrepared
  ce_guard_requested :: GuardPolicy

record LinuxReceiverWriterEntry =
  re_native :: NativeRegionSpec
  re_fd :: int
  re_key :: ObjectKey
  re_mapping :: "VmMapping option"
  re_pending_mapping :: "PendingVmMapping option"
  re_guard_requested :: GuardPolicy

definition drop_coordinator_entry :: "Kernel \<Rightarrow> LinuxCoordinatorWriterEntry \<Rightarrow> history \<Rightarrow> history" where
  "drop_coordinator_entry K e = drop_coordinator_prepared K (ce_prepared e)"

definition drop_option :: "('a \<Rightarrow> history \<Rightarrow> history) \<Rightarrow> 'a option \<Rightarrow> history \<Rightarrow> history" where
  "drop_option d x h = (case x of None \<Rightarrow> h | Some m \<Rightarrow> d m h)"

definition drop_receiver_entry :: "Kernel \<Rightarrow> LinuxReceiverWriterEntry \<Rightarrow> history \<Rightarrow> history" where
  "drop_receiver_entry K e h =
     drop_option (drop_pending K) (re_pending_mapping e)
       (drop_option (drop_mapping K) (re_mapping e) (close (re_fd e) h))"

text \<open>
  A loop that turns regions into entries.  When one fails, the regions that are left and then the
  entries already made are dropped.
\<close>

primrec prepare_each ::
    "('r \<Rightarrow> history \<Rightarrow> history) \<Rightarrow> ('e \<Rightarrow> history \<Rightarrow> history) \<Rightarrow> ('r \<Rightarrow> history \<Rightarrow> 'e memfd) \<Rightarrow>
     'r list \<Rightarrow> 'e list \<Rightarrow> history \<Rightarrow> 'e list memfd" where
  "prepare_each drop_r drop_e f [] entries h = (h, Ok entries)"
| "prepare_each drop_r drop_e f (r # rs) entries h =
     sbind (or_drop (\<lambda>h. fold drop_e entries (fold drop_r rs h)) (f r h)) (\<lambda>h e.
       prepare_each drop_r drop_e f rs (entries @ [e]) h)"

text \<open>What both directions do before and after their loop.\<close>

definition prepare_batch ::
    "Kernel \<Rightarrow> placement \<Rightarrow> ('e \<Rightarrow> history \<Rightarrow> history) \<Rightarrow> (PreparedRegion \<Rightarrow> history \<Rightarrow> 'e memfd) \<Rightarrow>
     TransferBatch \<Rightarrow> NativeAuthorityProfile \<Rightarrow> AbsoluteDeadline \<Rightarrow> history \<Rightarrow> 'e list memfd" where
  "prepare_batch K place drop_e f batch authority_profile deadline h =
     sbind
       (or_drop (fold (drop_region K place) (tb_regions batch))
          (sbind (check_deadline K deadline h) (\<lambda>h _.
           if authority_profile \<noteq> LinuxMdweV1 then (h, Err WrongProvenance)
           else (h, map_err (\<lambda>_. InvalidBatch) (into_pending batch)))))
       (\<lambda>h pending.
     sbind
       (prepare_each (drop_region K place) drop_e f (sort_key (\<lambda>r. spec_id (pq_spec r)) (pb_regions pending)) [] h)
       (\<lambda>h entries.
     sbind (or_drop (fold drop_e entries) (check_deadline K deadline h)) (\<lambda>h _.
       (h, Ok entries))))"

text \<open>The start of an iteration: the direction and the native specification of a region.\<close>

definition region_parts ::
    "Kernel \<Rightarrow> placement \<Rightarrow> WriterEndpoint \<Rightarrow> AbsoluteDeadline \<Rightarrow> PreparedRegion \<Rightarrow> history \<Rightarrow>
     (NativeRegionSpec \<times> QuiescentRegion \<times> CleanupPolicy) memfd" where
  "region_parts K place writer deadline region h =
     or_drop (drop_region K place region)
       (sbind (check_deadline K deadline h) (\<lambda>h _.
        if spec_writer (pq_spec region) \<noteq> writer then (h, Err UnsupportedDirection)
        else
          (h,
           rbind
             (map_err (\<lambda>_. InvalidBatch)
               (native_spec (pq_request region) (RegionId_get (spec_id (pq_spec region)))))
             (\<lambda>native.
           rbind (into_linux_quiescent place (pq_request region)) (\<lambda>(quiescent, cleanup).
             Ok (native, quiescent, cleanup))))))"

definition prepare_coordinator_entry ::
    "Kernel \<Rightarrow> placement \<Rightarrow> AbsoluteDeadline \<Rightarrow> PreparedRegion \<Rightarrow> history \<Rightarrow> LinuxCoordinatorWriterEntry memfd" where
  "prepare_coordinator_entry K place deadline region h =
     (let guard = gc_requested (pq_guard region) in
      sbind (region_parts K place WriterEndpoint.Coordinator deadline region h) (\<lambda>h (native, quiescent, cleanup).
      sbind (from_quiescent K quiescent cleanup deadline (guard \<noteq> Disable) h) (\<lambda>h private.
      sbind (prepare_coordinator_writer_for_batch K deadline private h) (\<lambda>h prepared.
        or_drop (drop_coordinator_prepared K prepared)
          (h,
           if guard = Require \<and> \<not> vm_guarded (cw_mapping prepared) then Err GuardUnavailable
           else Ok \<lparr>ce_native = native, ce_prepared = prepared, ce_guard_requested = guard\<rparr>)))))"

definition prepare_receiver_entry ::
    "Kernel \<Rightarrow> placement \<Rightarrow> AbsoluteDeadline \<Rightarrow> PreparedRegion \<Rightarrow> history \<Rightarrow> LinuxReceiverWriterEntry memfd" where
  "prepare_receiver_entry K place deadline region h =
     (let guard = gc_requested (pq_guard region) in
      sbind (region_parts K place WriterEndpoint.Receiver deadline region h) (\<lambda>h (native, quiescent, cleanup).
      sbind (from_quiescent K quiescent cleanup deadline False h) (\<lambda>h private.
      sbind (prepare_receiver_writer_for_batch K deadline private h) (\<lambda>h (fd, key).
        (h, Ok \<lparr>re_native = native, re_fd = fd, re_key = key, re_mapping = None,
               re_pending_mapping = None, re_guard_requested = guard\<rparr>)))))"

record LinuxCoordinatorWriterBatch =
  cb_entries :: "LinuxCoordinatorWriterEntry list"
  cb_deadline :: AbsoluteDeadline

record LinuxReceiverWriterBatch =
  rb_entries :: "LinuxReceiverWriterEntry list"
  rb_deadline :: AbsoluteDeadline

definition coordinator_batch_prepare ::
    "Kernel \<Rightarrow> placement \<Rightarrow> TransferBatch \<Rightarrow> NativeAuthorityProfile \<Rightarrow> AbsoluteDeadline \<Rightarrow> history \<Rightarrow>
     LinuxCoordinatorWriterBatch memfd" where
  "coordinator_batch_prepare K place batch authority_profile deadline h =
     sbind
       (prepare_batch K place (drop_coordinator_entry K) (prepare_coordinator_entry K place deadline)
          batch authority_profile deadline h)
       (\<lambda>h entries. (h, Ok \<lparr>cb_entries = entries, cb_deadline = deadline\<rparr>))"

definition receiver_batch_prepare ::
    "Kernel \<Rightarrow> placement \<Rightarrow> TransferBatch \<Rightarrow> NativeAuthorityProfile \<Rightarrow> AbsoluteDeadline \<Rightarrow> history \<Rightarrow>
     LinuxReceiverWriterBatch memfd" where
  "receiver_batch_prepare K place batch authority_profile deadline h =
     sbind
       (prepare_batch K place (drop_receiver_entry K) (prepare_receiver_entry K place deadline)
          batch authority_profile deadline h)
       (\<lambda>h entries. (h, Ok \<lparr>rb_entries = entries, rb_deadline = deadline\<rparr>))"

definition coordinator_manifest_entries :: "LinuxCoordinatorWriterBatch \<Rightarrow> ManifestEntry list" where
  "coordinator_manifest_entries b = map (\<lambda>e. from_native (ce_native e) PeerAccess.ReadOnly) (cb_entries b)"

definition receiver_manifest_entries :: "LinuxReceiverWriterBatch \<Rightarrow> ManifestEntry list" where
  "receiver_manifest_entries b = map (\<lambda>e. from_native (re_native e) SoleWriter) (rb_entries b)"

definition coordinator_capabilities :: "LinuxCoordinatorWriterBatch \<Rightarrow> int list" where
  "coordinator_capabilities b = map (\<lambda>e. cw_reader_capability (ce_prepared e)) (cb_entries b)"

definition receiver_capabilities :: "LinuxReceiverWriterBatch \<Rightarrow> int list" where
  "receiver_capabilities b = map re_fd (rb_entries b)"

text \<open>\<^verbatim>\<open>try_for_each\<close> over the history.\<close>

primrec try_for_each :: "('a \<Rightarrow> history \<Rightarrow> unit memfd) \<Rightarrow> 'a list \<Rightarrow> history \<Rightarrow> unit memfd" where
  "try_for_each f [] h = (h, Ok ())"
| "try_for_each f (x # xs) h = sbind (f x h) (\<lambda>h _. try_for_each f xs h)"

definition coordinator_revalidate :: "Kernel \<Rightarrow> LinuxCoordinatorWriterBatch \<Rightarrow> history \<Rightarrow> unit memfd" where
  "coordinator_revalidate K b h =
     sbind (check_deadline K (cb_deadline b) h) (\<lambda>h _.
     try_for_each (\<lambda>e h.
       sbind (revalidate_prepared K (cb_deadline b) (ce_prepared e) h) (\<lambda>h _.
         check_deadline K (cb_deadline b) h)) (cb_entries b) h)"

definition revalidate_prefix :: "Kernel \<Rightarrow> LinuxReceiverWriterBatch \<Rightarrow> history \<Rightarrow> unit memfd" where
  "revalidate_prefix K b h =
     sbind (check_deadline K (rb_deadline b) h) (\<lambda>h _.
     try_for_each (\<lambda>e h.
       if re_mapping e \<noteq> None \<or> re_pending_mapping e \<noteq> None then (h, Err WrongObject)
       else
         sbind (validate_key K (re_fd e) (re_key e) PREFIX_SEALS h) (\<lambda>h _.
           check_deadline K (rb_deadline b) h)) (rb_entries b) h)"

section \<open>What a call adds to the history\<close>

text \<open>
  \<open>maps_only P h h'\<close>: between \<open>h\<close> and \<open>h'\<close> shared views were requested only with an access and a
  descriptor that satisfy \<open>P\<close>.
\<close>

primrec map_request :: "Event \<Rightarrow> (bool \<times> int) option" where
  "map_request (Fstat _ _) = None"
| "map_request (Fstatfs _ _) = None"
| "map_request (GetSeals _ _) = None"
| "map_request (GetFl _ _) = None"
| "map_request (AddSeals _ _ _) = None"
| "map_request (DupFd _ _) = None"
| "map_request (CloseFd _) = None"
| "map_request (Reserve _ _) = None"
| "map_request (MapShared _ _ writable fd _) = Some (writable, fd)"
| "map_request (Munmap _ _ _) = None"
| "map_request (Madvise _ _ _ _) = None"
| "map_request (Zeroed _ _) = None"
| "map_request (Clock _) = None"

definition requests_only :: "(bool \<Rightarrow> int \<Rightarrow> bool) \<Rightarrow> history \<Rightarrow> bool" where
  "requests_only P t \<longleftrightarrow> (\<forall>x \<in> set t. \<forall>writable fd. map_request x = Some (writable, fd) \<longrightarrow> P writable fd)"

definition maps_only :: "(bool \<Rightarrow> int \<Rightarrow> bool) \<Rightarrow> history \<Rightarrow> history \<Rightarrow> bool" where
  "maps_only P h h' \<longleftrightarrow> (\<exists>t. h' = h @ t \<and> requests_only P t)"

named_theorems maps "which views a call requests"

lemma requests_only_Nil [simp]: "requests_only P []"
  by (simp add: requests_only_def)

lemma requests_only_append [simp]: "requests_only P (s @ t) \<longleftrightarrow> requests_only P s \<and> requests_only P t"
  by (auto simp: requests_only_def)

lemma requests_only_Cons [simp]:
  "requests_only P (x # t) \<longleftrightarrow>
     (\<forall>writable fd. map_request x = Some (writable, fd) \<longrightarrow> P writable fd) \<and> requests_only P t"
  by (auto simp: requests_only_def)

lemma maps_only_refl [maps]: "maps_only P h h"
  by (simp add: maps_only_def)

lemma maps_only_trans: "maps_only P a b \<Longrightarrow> maps_only P b c \<Longrightarrow> maps_only P a c"
  by (auto simp: maps_only_def)

lemma maps_only_mono: "maps_only P a b \<Longrightarrow> (\<And>w fd. P w fd \<Longrightarrow> Q w fd) \<Longrightarrow> maps_only Q a b"
  by (fastforce simp: maps_only_def requests_only_def)

lemma maps_only_event: "map_request x = None \<Longrightarrow> maps_only P h (h @ [x])"
  by (simp add: maps_only_def)

lemma maps_only_sbind [maps]:
  assumes "maps_only P h (fst m)" "\<And>h' x. m = (h', Ok x) \<Longrightarrow> maps_only P h' (fst (f h' x))"
  shows "maps_only P h (fst (sbind m f))"
  using assms by (cases m; cases "snd m") (auto intro: maps_only_trans)

lemma maps_only_or_drop [maps]:
  assumes "maps_only P h (fst m)" "\<And>h'. maps_only P h' (d h')"
  shows "maps_only P h (fst (or_drop d m))"
  using assms by (cases m; cases "snd m") (auto simp: or_drop_def intro: maps_only_trans)

lemma maps_only_fst [maps]: "maps_only P h h' \<Longrightarrow> maps_only P h (fst (h', r))"
  by simp

lemma maps_only_if [maps]:
  "(c \<Longrightarrow> maps_only P h (fst a)) \<Longrightarrow> (\<not> c \<Longrightarrow> maps_only P h (fst b)) \<Longrightarrow> maps_only P h (fst (if c then a else b))"
  by simp

lemma maps_only_fold [maps]:
  assumes "\<And>x h. x \<in> set xs \<Longrightarrow> maps_only P h (d x h)"
  shows "maps_only P h (fold d xs h)"
  using assms
proof (induction xs arbitrary: h)
  case (Cons x xs)
  have "maps_only P h (d x h)" "maps_only P (d x h) (fold d xs (d x h))" using Cons by auto
  then show ?case by (auto intro: maps_only_trans)
qed (simp add: maps)

lemma check_deadline_maps [maps]: "maps_only P h (fst (check_deadline K d h))"
  by (simp add: check_deadline_def maps_only_event)

lemma add_seals_maps [maps]: "maps_only P h (fst (add_seals K fd seals h))"
  by (simp add: add_seals_def maps_only_event)

lemma duplicate_maps [maps]: "maps_only P h (fst (duplicate K fd h))"
  by (simp add: duplicate_def maps_only_event)

lemma advise_maps [maps]: "maps_only P h (fst (advise K a m h))"
  by (simp add: advise_def Let_def maps_only_event)

lemma close_maps [maps]: "maps_only P h (close fd h)"
  by (simp add: close_def maps_only_event)

lemma munmap_maps [maps]: "maps_only P h (munmap K b n h)"
  by (simp add: munmap_def maps_only_event)

lemma drop_mapping_maps [maps]: "maps_only P h (drop_mapping K m h)" "maps_only P h (drop_pending K m h)"
  by (auto simp: drop_mapping_def drop_pending_def munmap_def maps_only_def)

lemma drop_quiescent_maps [maps]: "maps_only P h (drop_quiescent K q h)"
  by (auto simp: drop_quiescent_def munmap_def close_def maps_only_def)

lemma drop_region_maps [maps]: "maps_only P h (drop_region K place r h)"
  by (auto simp: drop_region_def drop_request_def drop_quiescent_def munmap_def close_def maps_only_def
      split: result.splits)

lemma drop_option_maps [maps]:
  "(\<And>x h. maps_only P h (d x h)) \<Longrightarrow> maps_only P h (drop_option d x h)"
  by (cases x) (auto simp: drop_option_def maps_only_refl)

lemma drop_private_maps [maps]: "maps_only P h (drop_private K p h)"
  by (auto simp: drop_private_def drop_mapping_def munmap_def close_def maps_only_def)

lemma drop_entry_maps [maps]:
  "maps_only P h (drop_coordinator_prepared K p h)"
  "maps_only P h (drop_coordinator_entry K ce h)"
  "maps_only P h (drop_receiver_entry K re h)"
  by (auto simp: drop_coordinator_entry_def drop_coordinator_prepared_def drop_receiver_entry_def
      drop_option_def drop_mapping_def drop_pending_def munmap_def close_def maps_only_def split: option.splits)

lemma validate_object_maps [maps]: "maps_only P h (fst (validate_object K fd n seals h))"
  by (auto simp: validate_object_def Let_def sbind_def maps_only_def split: result.splits)

lemma validate_key_maps [maps]: "maps_only P h (fst (validate_key K fd key seals h))"
  unfolding validate_key_def by (intro maps maps_only_fst)

lemma map_guarded_maps: "P writable fd \<Longrightarrow> maps_only P h (fst (map_guarded K fd n writable zap h))"
  by (auto simp: map_guarded_def Let_def munmap_def maps_only_def
      split: result.splits option.splits sum.splits)

lemma map_plain_maps: "P writable fd \<Longrightarrow> maps_only P h (fst (map_plain K fd n writable zap h))"
  by (auto simp: map_plain_def Let_def maps_only_def sbind_def split: result.splits)

lemma pending_map_maps [maps]:
  assumes "P writable fd"
  shows "maps_only P h (fst (pending_map K fd n writable zap guard h))"
  using map_guarded_maps [of P writable fd h K n zap, OF assms]
    map_plain_maps [of P writable fd _ K n zap, OF assms]
  by (auto simp: pending_map_def split: prod.splits option.splits intro: maps_only_trans)

lemma map_with_clear_maps [maps]:
  "P writable fd \<Longrightarrow> maps_only P h (fst (map_with_clear K fd n writable zap guard h))"
  unfolding map_with_clear_def by (intro maps maps_only_fst)

lemma unmap_maps [maps]: "maps_only P h (fst (unmap K m h))"
  unfolding unmap_def Let_def by (intro maps maps_only_fst)

section \<open>What a validation has seen\<close>

definition seen :: "int \<Rightarrow> ObjectKey \<Rightarrow> i32 \<Rightarrow> history \<Rightarrow> bool" where
  "seen fd key seals t \<longleftrightarrow>
     GetSeals fd seals \<in> set t \<and>
     (\<exists>stat. Fstat fd (Inr stat) \<in> set t \<and> st_dev stat = ok_device key \<and> st_ino stat = ok_inode key \<and>
        st_size stat = word_of_nat (ok_mapped_len key) \<and> st_nlink stat = 0)"

lemma seen_mono: "seen fd key seals t \<Longrightarrow> set t \<subseteq> set u \<Longrightarrow> seen fd key seals u"
  by (auto simp: seen_def)

lemma syscall_no_panic [simp]: "syscall x \<noteq> Panic"
  by (cases x) auto

lemma validate_object_adds:
  "\<exists>t. fst (validate_object K fd n seals h) = h @ t \<and> requests_only (\<lambda>_ _. False) t \<and>
     (\<forall>key. snd (validate_object K fd n seals h) = Ok key \<longrightarrow> seen fd key seals t \<and> ok_mapped_len key = n)"
  by (cases "k_fstat K h fd"; cases "k_fstatfs K (h @ [Fstat fd (k_fstat K h fd)]) fd")
    (auto simp: validate_object_def Let_def object_valid_def seen_def)

lemma validate_object_no_panic [simp]: "snd (validate_object K fd n seals h) \<noteq> Panic"
  by (auto simp: validate_object_def Let_def outcome)

lemma validate_key_adds:
  "\<exists>t. fst (validate_key K fd key seals h) = h @ t \<and> requests_only (\<lambda>_ _. False) t \<and>
     (snd (validate_key K fd key seals h) = Ok () \<longrightarrow> seen fd key seals t)"
proof -
  obtain t where t: "fst (validate_object K fd (ok_mapped_len key) seals h) = h @ t"
      "requests_only (\<lambda>_ _. False) t"
      "\<forall>k. snd (validate_object K fd (ok_mapped_len key) seals h) = Ok k \<longrightarrow> seen fd k seals t"
    using validate_object_adds [of K fd "ok_mapped_len key" seals h] by blast
  obtain h' r where v: "validate_object K fd (ok_mapped_len key) seals h = (h', r)" by fastforce
  show ?thesis
    using t v by (cases r) (auto simp: validate_key_def split: if_splits)
qed

lemma no_panic [simp]:
  "snd (validate_key K fd key seals h) \<noteq> Panic"
  "snd (check_deadline K d h) \<noteq> Panic"
  "snd (add_seals K fd seals h) \<noteq> Panic"
  "snd (advise K a m h) \<noteq> Panic"
  "into_mapping m \<noteq> Panic"
  "snd (map_plain K fd n w zap h) \<noteq> Panic"
  by (auto simp: validate_key_def check_deadline_def add_seals_def advise_def into_mapping_def map_plain_def
      Let_def outcome)

lemma check_deadline_neq_Panic [simp]: "check_deadline K d h \<noteq> (h', Panic)"
  by (simp add: check_deadline_def)

lemma pending_map_no_panic [simp]: "snd (pending_map K fd n w zap guard h) \<noteq> Panic"
  by (auto simp: pending_map_def split: prod.splits option.splits)

lemma snd_or_drop [simp]: "snd (or_drop d m) = snd m"
  by (cases m; cases "snd m") (auto simp: or_drop_def)

lemma or_drop_Ok [outcome]: "or_drop d m = (h, Ok x) \<longleftrightarrow> m = (h, Ok x)"
  by (cases m; cases "snd m") (auto simp: or_drop_def)

lemma map_guarded_len:
  "map_guarded K fd n w zap h = (h', Some m) \<Longrightarrow> vm_len m = n \<and> vm_guarded m \<and> vm_clear_on_drop m = zap"
  by (auto simp: map_guarded_def Let_def split: result.splits option.splits sum.splits if_splits)

lemma pending_map_len:
  "pending_map K fd n w zap guard h = (h', Ok m) \<Longrightarrow> vm_len m = n \<and> vm_clear_on_drop m = zap"
  by (auto simp: pending_map_def map_plain_def Let_def outcome split: if_splits prod.splits option.splits
      dest: map_guarded_len)

section \<open>Writable views\<close>

text \<open>
  The writable shared views that are left after a history: a successful request adds one, and a
  successful \<^verbatim>\<open>munmap\<close> removes every view inside its range.
\<close>

definition view_step :: "Event \<Rightarrow> (int \<times> nat \<times> usize) list \<Rightarrow> (int \<times> nat \<times> usize) list" where
  "view_step x views =
     (case x of
        MapShared _ n writable fd (Inr base) \<Rightarrow> if writable then (fd, base, n) # views else views
      | Munmap at whole (Inr _) \<Rightarrow> filter (\<lambda>(fd, base, n). \<not> (at \<le> base \<and> base + n \<le> at + whole)) views
      | _ \<Rightarrow> views)"

definition views_of :: "int \<Rightarrow> history \<Rightarrow> (nat \<times> usize) set" where
  "views_of fd h = {v. (fd, v) \<in> set (fold view_step h [])}"

text \<open>The documented behaviour of \<^verbatim>\<open>munmap\<close> on a range that a mapping owns.\<close>

definition munmap_releases :: "Kernel \<Rightarrow> bool" where
  "munmap_releases K \<longleftrightarrow> (\<forall>h base n. k_munmap K h base n = Inr ())"

lemma views_of_step:
  assumes "map_request x \<noteq> Some (True, fd)"
  shows "views_of fd (h @ [x]) \<subseteq> views_of fd h"
  using assms
  by (cases x) (auto simp: views_of_def view_step_def split: sum.splits)

lemma views_of_requests:
  assumes "requests_only P t" "\<not> P True fd"
  shows "views_of fd (h @ t) \<subseteq> views_of fd h"
  using assms(1)
proof (induction t rule: rev_induct)
  case (snoc x t)
  then have "views_of fd ((h @ t) @ [x]) \<subseteq> views_of fd (h @ t)"
    using assms(2) by (intro views_of_step) auto
  then show ?case using snoc by auto
qed simp

lemma views_of_maps: "maps_only P h h' \<Longrightarrow> \<not> P True fd \<Longrightarrow> views_of fd h' \<subseteq> views_of fd h"
  unfolding maps_only_def using views_of_requests by blast

lemma views_of_munmap:
  "munmap_releases K \<Longrightarrow>
     views_of fd (munmap K at whole h) = {v \<in> views_of fd h. \<not> (at \<le> fst v \<and> fst v + snd v \<le> at + whole)}"
  by (auto simp: views_of_def munmap_def view_step_def munmap_releases_def)

lemma map_plain_views:
  assumes "map_plain K fd n True zap h = (h', Ok m)"
  shows "views_of fd h' \<subseteq> insert (vm_base m, vm_len m) (views_of fd h) \<and>
    vm_reservation_base m = vm_base m \<and> vm_reservation_len m = vm_len m"
  using assms by (auto simp: map_plain_def Let_def outcome views_of_def view_step_def)

lemma map_with_clear_views:
  assumes "map_with_clear K fd n True zap False h = (h', Ok m)"
  shows "views_of fd h' \<subseteq> insert (vm_base m, vm_len m) (views_of fd h) \<and>
    vm_reservation_base m = vm_base m \<and> vm_reservation_len m = vm_len m \<and> vm_len m = n"
proof -
  obtain h1 where one: "map_plain K fd n True zap h = (h1, Ok m)"
    and "maps_only (\<lambda>_ _. False) h1 h'"
    using assms
    by (auto simp: map_with_clear_def pending_map_def outcome into_mapping_def advise_def Let_def maps_only_def
        split: if_splits)
  then have "views_of fd h' \<subseteq> views_of fd h1" by (intro views_of_maps) auto
  then show ?thesis
    using map_plain_views [OF one] pending_map_len [of K fd n True zap False h h1 m] one
    by (auto simp: pending_map_def)
qed

text \<open>Making a region private again moves its only view.\<close>

lemma from_quiescent_views:
  assumes "from_quiescent K q cleanup d False h = (h', Ok p)" "munmap_releases K"
    and "views_of (qr_fd q) h \<subseteq> {(qr_base q, qr_len q)}"
  shows "pm_fd p = qr_fd q \<and> views_of (qr_fd q) h' \<subseteq> {(vm_base (pm_mapping p), vm_len (pm_mapping p))} \<and>
    vm_reservation_base (pm_mapping p) = vm_base (pm_mapping p) \<and>
    vm_reservation_len (pm_mapping p) = vm_len (pm_mapping p)"
proof -
  let ?Q = "\<lambda>_ _. False"
  obtain h1 h2 h3 h4 h5 m where a: "check_deadline K d h = (h1, Ok ())"
    and b: "map_with_clear K (qr_fd q) (qr_len q) True (cleanup = ClearThenRelease) False h1 = (h2, Ok m)"
    and c: "check_deadline K d h2 = (h3, Ok ())"
    and v: "fst (validate_object K (qr_fd q) (qr_len q) F_SEAL_EXEC (munmap K (qr_base q) (qr_len q) h3)) = h4"
    and e: "check_deadline K d h4 = (h', Ok ())"
    and p: "p = \<lparr>pm_fd = qr_fd q, pm_mapping = m, pm_logical_len = qr_logical_len q\<rparr>"
    using assms(1) by (auto simp: from_quiescent_def outcome Let_def split_beta)
  have h: "views_of (qr_fd q) h1 \<subseteq> views_of (qr_fd q) h" "views_of (qr_fd q) h3 \<subseteq> views_of (qr_fd q) h2"
      "views_of (qr_fd q) h' \<subseteq> views_of (qr_fd q) h4"
    using views_of_maps [of ?Q] check_deadline_maps [of ?Q h K d] check_deadline_maps [of ?Q h2 K d]
      check_deadline_maps [of ?Q h4 K d] a c e by auto
  have "views_of (qr_fd q) h4 \<subseteq> views_of (qr_fd q) (munmap K (qr_base q) (qr_len q) h3)"
    using views_of_maps [of ?Q] validate_object_maps v by blast
  then have "views_of (qr_fd q) h' \<subseteq> {x \<in> views_of (qr_fd q) h2. x \<noteq> (qr_base q, qr_len q)}"
    using h views_of_munmap [OF assms(2), of "qr_fd q" "qr_base q" "qr_len q" h3] by auto
  then show ?thesis
    using map_with_clear_views [OF b] h(1) assms(3) p by auto
qed

text \<open>The steps around the release of the private view.\<close>

lemma prepare_receiver_writer_steps:
  assumes "prepare_receiver_writer_for_batch K d p h = (h', Ok (fd, key))"
  shows "\<exists>h1 h2. maps_only (\<lambda>_ _. False) h h1 \<and>
    unmap K ((pm_mapping p)\<lparr>vm_clear_on_drop := False\<rparr>) h1 = (h2, Ok ()) \<and> maps_only (\<lambda>_ _. False) h2 h' \<and>
    fd = pm_fd p \<and> ok_mapped_len key = vm_len (pm_mapping p)"
proof -
  let ?Q = "\<lambda>_ _. False" and ?m = "(pm_mapping p)\<lparr>vm_clear_on_drop := False\<rparr>"
  let ?first = "\<lambda>h. sbind (check_deadline K d h) (\<lambda>h _.
          sbind (add_seals K (pm_fd p) (F_SEAL_GROW OR F_SEAL_SHRINK) h) (\<lambda>h _.
          sbind (check_deadline K d h) (\<lambda>h _.
          sbind (validate_object K (pm_fd p) (vm_len (pm_mapping p)) PREFIX_SEALS h) (\<lambda>h key.
          sbind (check_deadline K d h) (\<lambda>h _. (h, Ok key))))))"
  let ?last = "\<lambda>h. sbind (check_deadline K d h) (\<lambda>h _.
       sbind (validate_object K (pm_fd p) (vm_len (pm_mapping p)) PREFIX_SEALS h) (\<lambda>h again.
       if again \<noteq> key then (h, Err WrongObject)
       else sbind (check_deadline K d h) (\<lambda>h _. (h, Ok (pm_fd p, key)))))"
  obtain h1 h2 where a: "?first h = (h1, Ok key)" and b: "unmap K ?m h1 = (h2, Ok ())"
    and c: "?last h2 = (h', Ok (fd, key))"
    using assms by (auto simp: prepare_receiver_writer_for_batch_def outcome Let_def split: if_splits)
  have "maps_only ?Q h (fst (?first h))" "maps_only ?Q h2 (fst (?last h2))" by (intro maps)+
  moreover have "ok_mapped_len key = vm_len (pm_mapping p)"
    using a validate_object_adds [of K "pm_fd p" "vm_len (pm_mapping p)" PREFIX_SEALS]
    by (auto simp: outcome) (metis snd_conv)
  moreover have "fd = pm_fd p" using c by (auto simp: outcome split: if_splits)
  ultimately show ?thesis using a b c by (intro exI [of _ h1] exI [of _ h2]) simp
qed

lemma prepare_receiver_writer_views:
  assumes "prepare_receiver_writer_for_batch K d p h = (h', Ok (fd, key))" "munmap_releases K"
    and "views_of (pm_fd p) h \<subseteq> {(vm_base (pm_mapping p), vm_len (pm_mapping p))}"
    and "vm_reservation_base (pm_mapping p) = vm_base (pm_mapping p)"
    and "vm_reservation_len (pm_mapping p) = vm_len (pm_mapping p)"
  shows "fd = pm_fd p \<and> ok_mapped_len key = vm_len (pm_mapping p) \<and> views_of fd h' = {}"
proof -
  let ?Q = "\<lambda>_ _. False" and ?m = "(pm_mapping p)\<lparr>vm_clear_on_drop := False\<rparr>"
  obtain h1 h2 where one: "maps_only ?Q h h1" and two: "unmap K ?m h1 = (h2, Ok ())"
    and three: "maps_only ?Q h2 h'" and fd: "fd = pm_fd p" and key: "ok_mapped_len key = vm_len (pm_mapping p)"
    using prepare_receiver_writer_steps [OF assms(1)] by blast
  have "h2 = munmap K (vm_base (pm_mapping p)) (vm_len (pm_mapping p)) h1"
    using two assms(4,5) by (auto simp: unmap_def Let_def outcome munmap_def)
  moreover have "views_of (pm_fd p) h1 \<subseteq> {(vm_base (pm_mapping p), vm_len (pm_mapping p))}"
    using views_of_maps [OF one] assms(3) by blast
  ultimately have "views_of (pm_fd p) h2 = {}"
    using views_of_munmap [OF assms(2)] by auto
  then show ?thesis using views_of_maps [OF three] fd key by auto
qed

section \<open>Preparing one region\<close>

lemma maps_only_after [maps]:
  "maps_only P h h' \<Longrightarrow> maps_only P h (close fd h')"
  "maps_only P h h' \<Longrightarrow> maps_only P h (munmap K b n h')"
  "maps_only P h h' \<Longrightarrow> maps_only P h (drop_mapping K m h')"
  "maps_only P h h' \<Longrightarrow> maps_only P h (drop_quiescent K q h')"
  "maps_only P h h' \<Longrightarrow> maps_only P h (drop_coordinator_prepared K p h')"
  by (blast intro: maps_only_trans close_maps munmap_maps drop_mapping_maps drop_quiescent_maps drop_entry_maps)+

lemma maps_only_zeroed [maps]: "maps_only P h (if c then h @ [Zeroed b n] else h)"
  by (simp add: maps_only_def)

lemma maps_only_case_prod [maps]:
  assumes "maps_only P h (fst m)" "\<And>h' x. m = (h', x) \<Longrightarrow> maps_only P h' (fst (f h' x))"
  shows "maps_only P h (fst (case m of (h', x) \<Rightarrow> f h' x))"
  using assms by (cases m) (auto intro: maps_only_trans)

lemma validate_unmapped_maps [maps]:
  "maps_only P h (fst (validate_object K fd len seals (munmap K b n h)))"
  by (rule maps_only_trans [OF munmap_maps validate_object_maps])

lemma from_quiescent_maps [maps]:
  "P True (qr_fd q) \<Longrightarrow> maps_only P h (fst (from_quiescent K q cleanup d guard h))"
  unfolding from_quiescent_def Let_def by (intro maps)

lemma prepare_coordinator_writer_maps [maps]:
  "maps_only P h (fst (prepare_coordinator_writer_for_batch K d p h))"
  unfolding prepare_coordinator_writer_for_batch_def Let_def by (intro maps)

lemma prepare_receiver_writer_maps [maps]:
  "maps_only P h (fst (prepare_receiver_writer_for_batch K d p h))"
  unfolding prepare_receiver_writer_for_batch_def Let_def by (intro maps)

lemma region_parts_maps [maps]: "maps_only P h (fst (region_parts K place w d r h))"
  unfolding region_parts_def by (intro maps)

definition region_fd :: "placement \<Rightarrow> PreparedRegion \<Rightarrow> int" where
  "region_fd place r = fst (place (sq_incarnation (pq_request r)))"

definition region_view :: "placement \<Rightarrow> PreparedRegion \<Rightarrow> (nat \<times> usize) set" where
  "region_view place r =
     (case sq_inner (pq_request r) of
        None \<Rightarrow> {}
      | Some b \<Rightarrow> {(snd (place (sq_incarnation (pq_request r))), length b)})"

lemma region_parts_Ok:
  assumes "region_parts K place w d r h = (h', Ok (native, q, cleanup))"
  shows "spec_writer (pq_spec r) = w \<and>
    native_spec (pq_request r) (RegionId_get (spec_id (pq_spec r))) = Ok native \<and>
    qr_fd q = region_fd place r \<and> {(qr_base q, qr_len q)} = region_view place r"
  using assms
  by (auto simp: region_parts_def outcome into_linux_quiescent_def region_fd_def region_view_def split: if_splits)

lemma prepare_coordinator_entry_maps [maps]:
  assumes "P True (region_fd place r)"
  shows "maps_only P h (fst (prepare_coordinator_entry K place d r h))"
  unfolding prepare_coordinator_entry_def Let_def
  using assms by (intro maps) (auto dest: region_parts_Ok intro!: maps split: prod.splits)

lemma prepare_receiver_entry_maps [maps]:
  assumes "P True (region_fd place r)"
  shows "maps_only P h (fst (prepare_receiver_entry K place d r h))"
  unfolding prepare_receiver_entry_def Let_def
  using assms by (intro maps) (auto dest: region_parts_Ok intro!: maps split: prod.splits)

lemma prepare_receiver_entry_Ok:
  assumes "prepare_receiver_entry K place d r h = (h', Ok e)"
  shows "re_fd e = region_fd place r \<and>
    native_spec (pq_request r) (RegionId_get (spec_id (pq_spec r))) = Ok (re_native e) \<and>
    re_mapping e = None \<and> re_pending_mapping e = None \<and> re_guard_requested e = gc_requested (pq_guard r) \<and>
    (munmap_releases K \<and> views_of (region_fd place r) h \<subseteq> region_view place r \<longrightarrow> views_of (re_fd e) h' = {})"
proof -
  obtain h1 h2 native q cleanup p fd key where
      a: "region_parts K place WriterEndpoint.Receiver d r h = (h1, Ok (native, q, cleanup))"
    and b: "from_quiescent K q cleanup d False h1 = (h2, Ok p)"
    and c: "prepare_receiver_writer_for_batch K d p h2 = (h', Ok (fd, key))"
    and e: "e = \<lparr>re_native = native, re_fd = fd, re_key = key, re_mapping = None,
      re_pending_mapping = None, re_guard_requested = gc_requested (pq_guard r)\<rparr>"
    using assms by (auto simp: prepare_receiver_entry_def outcome Let_def)
  have fd: "fd = region_fd place r"
    using prepare_receiver_writer_steps [OF c] region_parts_Ok [OF a] b
    by (auto simp: from_quiescent_def outcome Let_def split_beta)
  have "views_of fd h' = {}" if K: "munmap_releases K" and v: "views_of (region_fd place r) h \<subseteq> region_view place r"
  proof -
    have "views_of (qr_fd q) h1 \<subseteq> {(qr_base q, qr_len q)}"
      using views_of_maps [of "\<lambda>_ _. False" h h1] region_parts_maps [of "\<lambda>_ _. False" h] a
        region_parts_Ok [OF a] v by (metis fst_conv order_trans)
    then show ?thesis
      using from_quiescent_views [OF b K] prepare_receiver_writer_views [OF c K] by auto
  qed
  then show ?thesis using fd region_parts_Ok [OF a] e by simp
qed

lemma prepare_coordinator_entry_Ok:
  assumes "prepare_coordinator_entry K place d r h = (h', Ok e)"
  shows "native_spec (pq_request r) (RegionId_get (spec_id (pq_spec r))) = Ok (ce_native e) \<and>
    ce_guard_requested e = gc_requested (pq_guard r) \<and>
    (gc_requested (pq_guard r) = Require \<longrightarrow> vm_guarded (cw_mapping (ce_prepared e)))"
  using assms
  by (auto simp: prepare_coordinator_entry_def outcome Let_def dest: region_parts_Ok split: if_splits)

section \<open>Preparing a batch\<close>

lemma prepare_each_maps:
  assumes "\<And>r h. r \<in> set rs \<Longrightarrow> maps_only P h (fst (f r h))"
    and "\<And>r h. maps_only P h (drop_r r h)" "\<And>e h. maps_only P h (drop_e e h)"
  shows "maps_only P h (fst (prepare_each drop_r drop_e f rs es h))"
  using assms(1)
proof (induction rs arbitrary: es h)
  case (Cons r rs)
  have "maps_only P h' (fold drop_e es (fold drop_r rs h'))" for h'
    by (rule maps_only_trans [of _ _ "fold drop_r rs h'"]) (intro maps assms)+
  then show ?case
    using Cons by (auto intro!: maps_only_sbind maps_only_or_drop)
qed (simp add: maps_only_refl)

lemma prepare_batch_maps:
  assumes "\<And>r h. r \<in> set (tb_regions batch) \<Longrightarrow> maps_only P h (fst (f r h))"
    and "\<And>e h. maps_only P h (drop_e e h)"
  shows "maps_only P h (fst (prepare_batch K place drop_e f batch profile d h))"
proof -
  have "maps_only P h (fst (prepare_each (drop_region K place) drop_e f (sort_key g (pb_regions pending)) [] h))"
    if "into_pending batch = Ok pending" for pending h and g :: "PreparedRegion \<Rightarrow> RegionId"
    using that assms
    by (intro prepare_each_maps drop_region_maps) (auto simp: into_pending_def split: if_splits)
  then show ?thesis
    unfolding prepare_batch_def
    by (intro maps assms(2)) (auto simp: outcome split: if_splits)
qed

lemma prepare_batch_Ok:
  assumes "prepare_batch K place drop_e f batch profile d h = (h', Ok es)"
  shows "profile = LinuxMdweV1 \<and> tb_regions batch \<noteq> [] \<and>
    (\<exists>h1 h2. maps_only (\<lambda>_ _. False) h h1 \<and> maps_only (\<lambda>_ _. False) h2 h' \<and>
       prepare_each (drop_region K place) drop_e f (sort_key (\<lambda>r. spec_id (pq_spec r)) (tb_regions batch)) [] h1 =
         (h2, Ok es))"
  using assms
  by (auto simp: prepare_batch_def outcome into_pending_def split: if_splits)
    (metis check_deadline_maps fst_conv)

end
