(* ===== verification/Linux_Batch.thy ===== *)
theory Linux_Batch
  imports Memfd
begin

text \<open>
  Batches whose regions have either direction, \<^verbatim>\<open>native-ipc/src/backend/linux_vnext/memory.rs\<close>: what the
  coordinator prepares, seals and activates, and what the receiver expects, imports, verifies and
  activates.
\<close>

section \<open>The coordinator's batch\<close>

datatype LinuxMixedDirectionEntry =
    CoordinatorWriter LinuxCoordinatorWriterBatch
  | ReceiverWriter LinuxReceiverWriterBatch

record LinuxMixedDirectionBatch =
  mb_entries :: "LinuxMixedDirectionEntry list"
  mb_deadline :: AbsoluteDeadline

primrec drop_mixed_entry :: "Kernel \<Rightarrow> LinuxMixedDirectionEntry \<Rightarrow> history \<Rightarrow> history" where
  "drop_mixed_entry K (CoordinatorWriter b) = fold (drop_coordinator_entry K) (cb_entries b)"
| "drop_mixed_entry K (ReceiverWriter b) = fold (drop_receiver_entry K) (rb_entries b)"

definition drop_mixed_batch :: "Kernel \<Rightarrow> LinuxMixedDirectionBatch \<Rightarrow> history \<Rightarrow> history" where
  "drop_mixed_batch K b = fold (drop_mixed_entry K) (mb_entries b)"

definition single_batch :: "PreparedRegion \<Rightarrow> (TransferBatch, MemfdError) result" where
  "single_batch region =
     rbind (prepared_mapped_len region) (\<lambda>n.
     rbind (ok_or InvalidSize (try_from_usize n)) (\<lambda>mapped_len.
     rbind (map_err (\<lambda>_. InvalidBatch) (TransferBatch_new 1 mapped_len mapped_len)) (\<lambda>single.
       map_err (\<lambda>_. InvalidBatch) (add single region))))"

definition mixed_prepare_entry ::
    "Kernel \<Rightarrow> placement \<Rightarrow> NativeAuthorityProfile \<Rightarrow> AbsoluteDeadline \<Rightarrow> PreparedRegion \<Rightarrow> history \<Rightarrow>
     LinuxMixedDirectionEntry memfd" where
  "mixed_prepare_entry K place authority_profile deadline region h =
     sbind
       (or_drop (drop_region K place region)
          (sbind (check_deadline K deadline h) (\<lambda>h _. (h, single_batch region))))
       (\<lambda>h single.
     case spec_writer (pq_spec region) of
       WriterEndpoint.Coordinator \<Rightarrow>
         sbind (coordinator_batch_prepare K place single authority_profile deadline h) (\<lambda>h b.
           (h, Ok (CoordinatorWriter b)))
     | WriterEndpoint.Receiver \<Rightarrow>
         sbind (receiver_batch_prepare K place single authority_profile deadline h) (\<lambda>h b.
           (h, Ok (ReceiverWriter b))))"

definition mixed_prepare ::
    "Kernel \<Rightarrow> placement \<Rightarrow> TransferBatch \<Rightarrow> NativeAuthorityProfile \<Rightarrow> AbsoluteDeadline \<Rightarrow> history \<Rightarrow>
     LinuxMixedDirectionBatch memfd" where
  "mixed_prepare K place batch authority_profile deadline h =
     sbind
       (prepare_batch K place (drop_mixed_entry K) (mixed_prepare_entry K place authority_profile deadline)
          batch authority_profile deadline h)
       (\<lambda>h entries. (h, Ok \<lparr>mb_entries = entries, mb_deadline = deadline\<rparr>))"

definition mixed_manifest_entries :: "LinuxMixedDirectionBatch \<Rightarrow> ManifestEntry list" where
  "mixed_manifest_entries b =
     concat (map (\<lambda>e. case e of
         CoordinatorWriter b \<Rightarrow> coordinator_manifest_entries b
       | ReceiverWriter b \<Rightarrow> receiver_manifest_entries b) (mb_entries b))"

definition mixed_reservation_lengths :: "LinuxMixedDirectionBatch \<Rightarrow> u64 list" where
  "mixed_reservation_lengths b = map me_mapped_len (mixed_manifest_entries b)"

definition mixed_capabilities :: "LinuxMixedDirectionBatch \<Rightarrow> int list" where
  "mixed_capabilities b =
     concat (map (\<lambda>e. case e of
         CoordinatorWriter b \<Rightarrow> coordinator_capabilities b
       | ReceiverWriter b \<Rightarrow> receiver_capabilities b) (mb_entries b))"

definition revalidate_before_send :: "Kernel \<Rightarrow> LinuxMixedDirectionBatch \<Rightarrow> history \<Rightarrow> unit memfd" where
  "revalidate_before_send K b h =
     sbind (check_deadline K (mb_deadline b) h) (\<lambda>h _.
     try_for_each (\<lambda>e h.
       sbind
         (case e of
            CoordinatorWriter b \<Rightarrow> coordinator_revalidate K b h
          | ReceiverWriter b \<Rightarrow> revalidate_prefix K b h)
         (\<lambda>h _. check_deadline K (mb_deadline b) h)) (mb_entries b) h)"

definition requires_imported_sealed :: "LinuxMixedDirectionBatch \<Rightarrow> bool" where
  "requires_imported_sealed b =
     list_ex (\<lambda>e. case e of ReceiverWriter _ \<Rightarrow> True | CoordinatorWriter _ \<Rightarrow> False) (mb_entries b)"

section \<open>Sealing after import\<close>

text \<open>The first error is kept; later ones are forgotten.\<close>

definition remember :: "MemfdError option \<Rightarrow> ('a, MemfdError) result \<Rightarrow> MemfdError option" where
  "remember first_error r =
     (case first_error of
        Some error \<Rightarrow> Some error
      | None \<Rightarrow> (case r of Err error \<Rightarrow> Some error | _ \<Rightarrow> None))"

primrec fold_each :: "('a \<Rightarrow> 'b \<Rightarrow> history \<Rightarrow> 'b memfd) \<Rightarrow> 'a list \<Rightarrow> 'b \<Rightarrow> history \<Rightarrow> 'b memfd" where
  "fold_each f [] b h = (h, Ok b)"
| "fold_each f (x # xs) b h = sbind (f x b h) (\<lambda>h b. fold_each f xs b h)"

definition preflight_entry ::
    "Kernel \<Rightarrow> LinuxMixedDirectionEntry \<Rightarrow> MemfdError option \<Rightarrow> history \<Rightarrow> MemfdError option memfd" where
  "preflight_entry K entry first_error h =
     sbind
       (h,
        case entry of
          CoordinatorWriter b \<Rightarrow>
            (case cb_entries b of
               [] \<Rightarrow> Panic
             | e # _ \<Rightarrow> Ok (cw_fd (ce_prepared e), cw_key (ce_prepared e), FINAL_SEALS))
        | ReceiverWriter b \<Rightarrow>
            (case rb_entries b of [] \<Rightarrow> Panic | e # _ \<Rightarrow> Ok (re_fd e, re_key e, PREFIX_SEALS)))
       (\<lambda>h (fd, key, seals).
     case validate_key K fd key seals h of
       (h, validation) \<Rightarrow> (h, Ok (remember first_error validation)))"

definition seal_entry ::
    "Kernel \<Rightarrow> AbsoluteDeadline \<Rightarrow> LinuxReceiverWriterEntry \<Rightarrow> history \<times> MemfdError option \<Rightarrow>
     history \<times> MemfdError option" where
  "seal_entry K deadline e s =
     (case s of
        (h, first_error) \<Rightarrow>
          (case (if first_error = None then check_deadline K deadline h else (h, Ok ())) of
             (h, r) \<Rightarrow>
               let first_error = remember first_error r in
               (case add_seals K (re_fd e) (F_SEAL_FUTURE_WRITE OR F_SEAL_SEAL) h of
                  (h, Ok _) \<Rightarrow>
                    (case validate_key K (re_fd e) (re_key e) FINAL_SEALS h of
                       (h, validation) \<Rightarrow> (h, remember first_error validation))
                | (h, failed) \<Rightarrow> (h, remember first_error failed))))"

text \<open>The advice on a pending mapping, with the deadline checked after every call.\<close>

definition advise_pending :: "Kernel \<Rightarrow> AbsoluteDeadline \<Rightarrow> PendingVmMapping \<Rightarrow> history \<Rightarrow> VmMapping memfd" where
  "advise_pending K deadline pending h =
     sbind (check_deadline K deadline h) (\<lambda>h _.
     sbind (advise K MADV_DONTDUMP pending h) (\<lambda>h _.
     sbind (check_deadline K deadline h) (\<lambda>h _.
     sbind (advise K MADV_DONTFORK pending h) (\<lambda>h _.
     sbind (check_deadline K deadline h) (\<lambda>h _.
       (h, into_mapping pending))))))"

definition begin_view ::
    "Kernel \<Rightarrow> AbsoluteDeadline \<Rightarrow> LinuxReceiverWriterEntry \<Rightarrow> history \<Rightarrow> PendingVmMapping memfd" where
  "begin_view K deadline e h =
     sbind (check_deadline K deadline h) (\<lambda>h _.
     sbind
       (pending_map K (re_fd e) (ok_mapped_len (re_key e)) False False (re_guard_requested e \<noteq> Disable) h)
       (\<lambda>h pending.
     or_drop (drop_pending K pending)
       (h,
        if re_guard_requested e = Require \<and> \<not> vm_guarded pending then Err GuardUnavailable
        else Ok pending)))"

text \<open>
  The coordinator's read-only view.  Once the pending mapping is stored, a failure leaves it in the
  entry.
\<close>

definition establish_view ::
    "Kernel \<Rightarrow> AbsoluteDeadline \<Rightarrow> LinuxReceiverWriterEntry \<Rightarrow> history \<Rightarrow>
     history \<times> LinuxReceiverWriterEntry \<times> (unit, MemfdError) result" where
  "establish_view K deadline e h =
     (case begin_view K deadline e h of
        (h, Ok pending) \<Rightarrow>
          let h = drop_option (drop_pending K) (re_pending_mapping e) h in
          (case advise_pending K deadline pending h of
             (h, Ok mapping) \<Rightarrow>
               (drop_option (drop_mapping K) (re_mapping e) h,
                e\<lparr>re_mapping := Some mapping, re_pending_mapping := None\<rparr>, Ok ())
           | (h, Err error) \<Rightarrow> (h, e\<lparr>re_pending_mapping := Some pending\<rparr>, Err error)
           | (h, Panic) \<Rightarrow> (h, e\<lparr>re_pending_mapping := Some pending\<rparr>, Panic))
      | (h, Err error) \<Rightarrow> (h, e, Err error)
      | (h, Panic) \<Rightarrow> (h, e, Panic))"

primrec update_each ::
    "('e \<Rightarrow> history \<Rightarrow> history \<times> 'e \<times> (unit, MemfdError) result) \<Rightarrow> 'e list \<Rightarrow> history \<Rightarrow>
     history \<times> 'e list \<times> (unit, MemfdError) result" where
  "update_each f [] h = (h, [], Ok ())"
| "update_each f (e # es) h =
     (case f e h of
        (h, e, r) \<Rightarrow>
          (case r of
             Ok _ \<Rightarrow> (case update_each f es h of (h, es, r) \<Rightarrow> (h, e # es, r))
           | _ \<Rightarrow> (h, e # es, r)))"

primrec view_mixed_entry ::
    "Kernel \<Rightarrow> AbsoluteDeadline \<Rightarrow> LinuxMixedDirectionEntry \<Rightarrow> history \<Rightarrow>
     history \<times> LinuxMixedDirectionEntry \<times> (unit, MemfdError) result" where
  "view_mixed_entry K deadline (CoordinatorWriter b) h = (h, CoordinatorWriter b, Ok ())"
| "view_mixed_entry K deadline (ReceiverWriter b) h =
     (case update_each (establish_view K deadline) (rb_entries b) h of
        (h, es, r) \<Rightarrow> (h, ReceiverWriter (b\<lparr>rb_entries := es\<rparr>), r))"

primrec receiver_entries :: "LinuxMixedDirectionEntry \<Rightarrow> LinuxReceiverWriterEntry list" where
  "receiver_entries (CoordinatorWriter b) = []"
| "receiver_entries (ReceiverWriter b) = rb_entries b"

definition mixed_seal_after_import ::
    "Kernel \<Rightarrow> LinuxMixedDirectionBatch \<Rightarrow> history \<Rightarrow>
     history \<times> LinuxMixedDirectionBatch \<times> (unit, MemfdError) result" where
  "mixed_seal_after_import K b h =
     (case check_deadline K (mb_deadline b) h of
        (h, r) \<Rightarrow>
          (case fold_each (preflight_entry K) (mb_entries b) (remember None r) h of
             (h, Ok first_error) \<Rightarrow>
               (case fold (seal_entry K (mb_deadline b)) (concat (map receiver_entries (mb_entries b)))
                       (h, first_error) of
                  (h, Some error) \<Rightarrow> (h, b, Err error)
                | (h, None) \<Rightarrow>
                    (case update_each (view_mixed_entry K (mb_deadline b)) (mb_entries b) h of
                       (h, es, r) \<Rightarrow>
                         let b = b\<lparr>mb_entries := es\<rparr> in
                         (case r of
                            Ok _ \<Rightarrow>
                              (case check_deadline K (mb_deadline b) h of (h, r) \<Rightarrow> (h, b, r))
                          | _ \<Rightarrow> (h, b, r))))
           | (h, Err error) \<Rightarrow> (h, b, Err error)
           | (h, Panic) \<Rightarrow> (h, b, Panic)))"

text \<open>The same for a batch that has only receiver-written regions.\<close>

definition receiver_seal_after_import ::
    "Kernel \<Rightarrow> LinuxReceiverWriterBatch \<Rightarrow> history \<Rightarrow>
     history \<times> LinuxReceiverWriterBatch \<times> (unit, MemfdError) result" where
  "receiver_seal_after_import K b h =
     (case check_deadline K (rb_deadline b) h of
        (h, r) \<Rightarrow>
          (case
             fold (seal_entry K (rb_deadline b)) (rb_entries b)
               (fold (\<lambda>e (h, first_error).
                  case validate_key K (re_fd e) (re_key e) PREFIX_SEALS h of
                    (h, validation) \<Rightarrow> (h, remember first_error validation)) (rb_entries b)
                  (h, remember None r))
           of
             (h, Some error) \<Rightarrow> (h, b, Err error)
           | (h, None) \<Rightarrow>
               (case update_each (establish_view K (rb_deadline b)) (rb_entries b) h of
                  (h, es, r) \<Rightarrow>
                    let b = b\<lparr>rb_entries := es\<rparr> in
                    (case r of
                       Ok _ \<Rightarrow> (case check_deadline K (rb_deadline b) h of (h, r) \<Rightarrow> (h, b, r))
                     | _ \<Rightarrow> (h, b, r)))))"

section \<open>The receiver's batch\<close>

record LinuxExpectedMixedDirectionEntry =
  xe_region_id :: u128
  xe_writer :: WriterEndpoint
  xe_logical_len :: u64
  xe_mapped_len :: u64

record LinuxExpectedMixedDirectionBatch =
  xb_entries :: "LinuxExpectedMixedDirectionEntry list"
  xb_total_logical :: u64
  xb_total_mapped :: u64
  xb_deadline :: AbsoluteDeadline

definition expect_region ::
    "Kernel \<Rightarrow> SessionLimits \<Rightarrow> AbsoluteDeadline \<Rightarrow> ExpectedRegion \<Rightarrow>
     LinuxExpectedMixedDirectionEntry list \<times> u64 \<Rightarrow> history \<Rightarrow>
     (LinuxExpectedMixedDirectionEntry list \<times> u64) memfd" where
  "expect_region K limits deadline region s h =
     (case s of
        (entries, total_mapped) \<Rightarrow>
          sbind (check_deadline K deadline h) (\<lambda>h _.
            (h,
             rbind
               (case try_from_usize (er_logical_len region) of
                  Some logical \<Rightarrow>
                    if logical \<le> max_region_bytes limits then Ok logical else Err InvalidBatch
                | None \<Rightarrow> Err InvalidBatch)
               (\<lambda>logical_len.
             rbind (memfd_page_align K (er_logical_len region) h) (\<lambda>aligned.
             rbind (ok_or InvalidSize (try_from_usize aligned)) (\<lambda>mapped_len.
             rbind
               (case checked_add total_mapped mapped_len of
                  Some added \<Rightarrow>
                    if added \<le> max_batch_bytes limits \<and> added \<le> max_active_bytes limits then Ok added
                    else Err InvalidBatch
                | None \<Rightarrow> Err InvalidBatch)
               (\<lambda>total_mapped.
             Ok (entries @
                 [\<lparr>xe_region_id = RegionId_get (er_id region), xe_writer = er_writer region,
                   xe_logical_len = logical_len, xe_mapped_len = mapped_len\<rparr>], total_mapped))))))))"

definition expected_prepare ::
    "Kernel \<Rightarrow> ExpectedBatch \<Rightarrow> SessionLimits \<Rightarrow> AbsoluteDeadline \<Rightarrow> history \<Rightarrow>
     LinuxExpectedMixedDirectionBatch memfd" where
  "expected_prepare K expected limits deadline h =
     sbind (check_deadline K deadline h) (\<lambda>h _.
     if length (eb_regions expected) > unat (max_regions_per_batch limits) \<or>
        length (eb_regions expected) > unat (max_active_regions limits) \<or>
        eb_total_logical expected > max_batch_bytes limits
     then (h, Err InvalidBatch)
     else
       sbind (fold_each (expect_region K limits deadline) (eb_regions expected) ([], 0) h)
         (\<lambda>h (entries, total_mapped).
         (h, Ok \<lparr>xb_entries = entries, xb_total_logical = eb_total_logical expected,
                xb_total_mapped = total_mapped, xb_deadline = deadline\<rparr>)))"

definition expected_reservation_lengths :: "LinuxExpectedMixedDirectionBatch \<Rightarrow> u64 list" where
  "expected_reservation_lengths b = map xe_mapped_len (xb_entries b)"

definition expected_requires_imported_sealed :: "LinuxExpectedMixedDirectionBatch \<Rightarrow> bool" where
  "expected_requires_imported_sealed b =
     list_ex (\<lambda>e. xe_writer e = WriterEndpoint.Receiver) (xb_entries b)"

definition entry_matches :: "nat \<times> LinuxExpectedMixedDirectionEntry \<times> ManifestEntry \<Rightarrow> bool" where
  "entry_matches x =
     (case x of
        (ordinal, expected, received) \<Rightarrow>
          (case (case xe_writer expected of
                   WriterEndpoint.Coordinator \<Rightarrow> (0, PeerAccess.ReadOnly)
                 | WriterEndpoint.Receiver \<Rightarrow> (1, SoleWriter)) of
             (writer, access) \<Rightarrow>
               me_region_id received = xe_region_id expected \<and>
               me_writer received = writer \<and>
               me_access received = access \<and>
               me_logical_len received = xe_logical_len expected \<and>
               me_mapped_len received = xe_mapped_len expected \<and>
               unat (me_ordinal received) = ordinal))"

definition matches_manifest :: "LinuxExpectedMixedDirectionBatch \<Rightarrow> TransferManifest \<Rightarrow> bool" where
  "matches_manifest b manifest \<longleftrightarrow>
     length (tm_entries manifest) = length (xb_entries b) \<and>
     tm_total_logical manifest = xb_total_logical b \<and>
     tm_total_mapped manifest = xb_total_mapped b \<and>
     list_all entry_matches (enumerate 0 (zip (xb_entries b) (tm_entries manifest)))"

section \<open>Import\<close>

record LinuxImportedEntry =
  ie_manifest :: ManifestEntry
  ie_fd :: int
  ie_mapping :: VmMapping
  ie_key :: ObjectKey

datatype LinuxImportedMixedDirectionEntry =
    ImportedCoordinatorWriter LinuxImportedEntry
  | ImportedReceiverWriter LinuxImportedEntry

primrec imported_entry :: "LinuxImportedMixedDirectionEntry \<Rightarrow> LinuxImportedEntry" where
  "imported_entry (ImportedCoordinatorWriter e) = e"
| "imported_entry (ImportedReceiverWriter e) = e"

definition imported_key :: "LinuxImportedMixedDirectionEntry \<Rightarrow> ObjectKey" where
  "imported_key e = ie_key (imported_entry e)"

definition imported_validate :: "Kernel \<Rightarrow> i32 \<Rightarrow> LinuxImportedMixedDirectionEntry \<Rightarrow> history \<Rightarrow> unit memfd" where
  "imported_validate K seals e = validate_key K (ie_fd (imported_entry e)) (imported_key e) seals"

definition drop_imported :: "Kernel \<Rightarrow> LinuxImportedMixedDirectionEntry \<Rightarrow> history \<Rightarrow> history" where
  "drop_imported K e h = drop_mapping K (ie_mapping (imported_entry e)) (close (ie_fd (imported_entry e)) h)"

record LinuxImportedMixedDirectionBatch =
  ib_entries :: "LinuxImportedMixedDirectionEntry list"

definition drop_imported_batch :: "Kernel \<Rightarrow> LinuxImportedMixedDirectionBatch \<Rightarrow> history \<Rightarrow> history" where
  "drop_imported_batch K b = fold (drop_imported K) (ib_entries b)"

record LinuxMixedDirectionImportFailure =
  if_error :: MemfdError
  if_partial :: "LinuxImportedMixedDirectionEntry list"
  if_current_fd :: "int option"
  if_current_mapping :: "PendingVmMapping option"
  if_remaining :: "int list"

definition drop_import_failure :: "Kernel \<Rightarrow> LinuxMixedDirectionImportFailure \<Rightarrow> history \<Rightarrow> history" where
  "drop_import_failure K f h =
     fold close (if_remaining f)
       (drop_option (drop_pending K) (if_current_mapping f)
         (drop_option close (if_current_fd f) (fold (drop_imported K) (if_partial f) h)))"

text \<open>A failure keeps everything that was received and made so far.\<close>

definition failing ::
    "LinuxImportedMixedDirectionEntry list \<Rightarrow> int option \<Rightarrow> PendingVmMapping option \<Rightarrow> int list \<Rightarrow>
     'a memfd \<Rightarrow> history \<times> ('a, LinuxMixedDirectionImportFailure) result" where
  "failing imported current_fd current_mapping remaining m =
     (fst m,
      map_err (\<lambda>error.
        \<lparr>if_error = error, if_partial = imported, if_current_fd = current_fd,
         if_current_mapping = current_mapping, if_remaining = remaining\<rparr>) (snd m))"

definition import_seals :: "WriterEndpoint \<Rightarrow> i32 \<times> bool" where
  "import_seals writer =
     (case writer of
        WriterEndpoint.Coordinator \<Rightarrow> (FINAL_SEALS, False)
      | WriterEndpoint.Receiver \<Rightarrow> (PREFIX_SEALS, True))"

definition import_entry ::
    "Kernel \<Rightarrow> AbsoluteDeadline \<Rightarrow> LinuxExpectedMixedDirectionEntry \<Rightarrow> ManifestEntry \<Rightarrow> int \<Rightarrow> int list \<Rightarrow>
     LinuxImportedMixedDirectionEntry list \<Rightarrow> history \<Rightarrow>
     history \<times> (LinuxImportedMixedDirectionEntry list, LinuxMixedDirectionImportFailure) result" where
  "import_entry K deadline expected entry fd remaining imported h =
     (case import_seals (xe_writer expected) of
        (seals, writable) \<Rightarrow>
          sbind
            (failing imported (Some fd) None remaining
               (sbind (check_deadline K deadline h) (\<lambda>h _.
                sbind (h, ok_or InvalidSize (usize_from_u64 (me_mapped_len entry))) (\<lambda>h mapped_len.
                sbind (validate_object K fd mapped_len seals h) (\<lambda>h key.
                if list_ex (\<lambda>retained. imported_key retained = key) imported then (h, Err WrongObject)
                else
                  sbind (check_deadline K deadline h) (\<lambda>h _.
                  sbind (pending_map K fd mapped_len writable False True h) (\<lambda>h pending.
                    (h, Ok (key, pending)))))))))
            (\<lambda>h (key, pending).
          sbind
            (failing imported (Some fd) (Some pending) remaining (advise_pending K deadline pending h))
            (\<lambda>h mapping.
          let parts = \<lparr>ie_manifest = entry, ie_fd = fd, ie_mapping = mapping, ie_key = key\<rparr>;
              retained =
                (case xe_writer expected of
                   WriterEndpoint.Coordinator \<Rightarrow> ImportedCoordinatorWriter parts
                 | WriterEndpoint.Receiver \<Rightarrow> ImportedReceiverWriter parts);
              imported = imported @ [retained] in
          sbind
            (failing imported None None remaining
               (sbind (check_deadline K deadline h) (\<lambda>h _.
                  imported_validate K seals retained h)))
            (\<lambda>h _. (h, Ok imported)))))"

primrec import_each ::
    "Kernel \<Rightarrow> AbsoluteDeadline \<Rightarrow> (LinuxExpectedMixedDirectionEntry \<times> ManifestEntry) list \<Rightarrow> int list \<Rightarrow>
     LinuxImportedMixedDirectionEntry list \<Rightarrow> history \<Rightarrow>
     history \<times> (LinuxImportedMixedDirectionEntry list \<times> int list, LinuxMixedDirectionImportFailure) result" where
  "import_each K deadline [] descriptors imported h = (h, Ok (imported, descriptors))"
| "import_each K deadline (x # xs) descriptors imported h =
     (case descriptors of
        [] \<Rightarrow> (h, Panic)
      | fd # remaining \<Rightarrow>
          sbind (import_entry K deadline (fst x) (snd x) fd remaining imported h) (\<lambda>h imported.
            import_each K deadline xs remaining imported h))"

definition expected_import ::
    "Kernel \<Rightarrow> LinuxExpectedMixedDirectionBatch \<Rightarrow> TransferManifest \<Rightarrow> int list \<Rightarrow> history \<Rightarrow>
     history \<times> (LinuxImportedMixedDirectionBatch, LinuxMixedDirectionImportFailure) result" where
  "expected_import K b manifest descriptors h =
     sbind (failing [] None None descriptors (check_deadline K (xb_deadline b) h)) (\<lambda>h _.
     sbind
       (failing [] None None descriptors
          (h,
           if length descriptors \<noteq> length (xb_entries b) \<or> \<not> matches_manifest b manifest
           then Err WrongProvenance else Ok ()))
       (\<lambda>h _.
     sbind (import_each K (xb_deadline b) (zip (xb_entries b) (tm_entries manifest)) descriptors [] h)
       (\<lambda>h (imported, remaining).
     sbind (failing imported None None remaining (check_deadline K (xb_deadline b) h)) (\<lambda>h _.
       (fold close remaining h, Ok \<lparr>ib_entries = imported\<rparr>)))))"

definition verify_final_seals ::
    "Kernel \<Rightarrow> AbsoluteDeadline \<Rightarrow> LinuxImportedMixedDirectionBatch \<Rightarrow> history \<Rightarrow> unit memfd" where
  "verify_final_seals K deadline b h =
     sbind (check_deadline K deadline h) (\<lambda>h _.
     try_for_each (\<lambda>e h.
       sbind (imported_validate K FINAL_SEALS e h) (\<lambda>h _. check_deadline K deadline h)) (ib_entries b) h)"

section \<open>Activation\<close>

record LinuxActiveRegionSpec =
  as_id :: RegionId
  as_authority :: LocalRegionAuthority
  as_logical_len :: usize
  as_mapped_len :: u64
  as_guard_requested :: GuardPolicy

record LinuxActiveMapping =
  am_mapping :: VmMapping
  am_fd :: int
  am_page_size :: usize

datatype LinuxActiveRegionOwner =
    OwnedReader LinuxActiveRegionSpec LinuxActiveMapping
  | OwnedWriter LinuxActiveRegionSpec LinuxActiveMapping

primrec owner_spec :: "LinuxActiveRegionOwner \<Rightarrow> LinuxActiveRegionSpec" where
  "owner_spec (OwnedReader spec m) = spec"
| "owner_spec (OwnedWriter spec m) = spec"

text \<open>What the accesses of theory Active see of such an owner.\<close>

definition active_owner :: "LinuxActiveMapping \<Rightarrow> ActiveOwner" where
  "active_owner m =
     \<lparr>ow_ptr = vm_base (am_mapping m), ow_mut_ptr = vm_base (am_mapping m),
      ow_len = vm_len (am_mapping m), ow_page_size = am_page_size m,
      ow_guard_installed = vm_guarded (am_mapping m)\<rparr>"

definition drop_active_mapping :: "Kernel \<Rightarrow> LinuxActiveMapping \<Rightarrow> history \<Rightarrow> history" where
  "drop_active_mapping K m h = close (am_fd m) (drop_mapping K (am_mapping m) h)"

definition active_region_spec ::
    "u128 \<Rightarrow> LocalRegionAuthority \<Rightarrow> u64 \<Rightarrow> u64 \<Rightarrow> VmMapping \<Rightarrow> GuardPolicy \<Rightarrow>
     (LinuxActiveRegionSpec, MemfdError) result" where
  "active_region_spec region_id authority logical_len mapped_len mapping guard_requested =
     rbind (ok_or WrongProvenance (RegionId_new region_id)) (\<lambda>ident.
     rbind (ok_or InvalidSize (usize_from_u64 logical_len)) (\<lambda>logical.
     rbind (ok_or InvalidSize (usize_from_u64 mapped_len)) (\<lambda>native_mapped_len.
     if logical = 0 \<or> logical > native_mapped_len \<or> vm_len mapping \<noteq> native_mapped_len
     then Err WrongObject
     else Ok \<lparr>as_id = ident, as_authority = authority, as_logical_len = logical,
            as_mapped_len = mapped_len, as_guard_requested = guard_requested\<rparr>)))"

definition native_active_spec ::
    "NativeRegionSpec \<Rightarrow> u32 \<Rightarrow> LocalRegionAuthority \<Rightarrow> VmMapping \<Rightarrow> GuardPolicy \<Rightarrow>
     (LinuxActiveRegionSpec, MemfdError) result" where
  "native_active_spec native expected_writer authority mapping guard_requested =
     (if ns_writer native \<noteq> expected_writer then Err WrongProvenance
      else active_region_spec (ns_region_id native) authority (ns_logical_len native) (ns_mapped_len native)
             mapping guard_requested)"

definition manifest_active_spec ::
    "ManifestEntry \<Rightarrow> LocalRegionAuthority \<Rightarrow> VmMapping \<Rightarrow> (LinuxActiveRegionSpec, MemfdError) result" where
  "manifest_active_spec manifest authority mapping =
     active_region_spec (me_region_id manifest) authority (me_logical_len manifest) (me_mapped_len manifest)
       mapping BestEffort"

fun ids_increasing :: "LinuxActiveRegionSpec list \<Rightarrow> bool" where
  "ids_increasing (a # b # specs) \<longleftrightarrow> as_id a < as_id b \<and> ids_increasing (b # specs)"
| "ids_increasing _ \<longleftrightarrow> True"

definition validate_active_specs :: "LinuxActiveRegionSpec list \<Rightarrow> (unit, MemfdError) result" where
  "validate_active_specs specs =
     (if specs = [] \<or> length specs > 16 \<or> \<not> ids_increasing specs then Err WrongProvenance else Ok ())"

definition mixed_entry_spec ::
    "Kernel \<Rightarrow> AbsoluteDeadline \<Rightarrow> LinuxMixedDirectionEntry \<Rightarrow> history \<Rightarrow> LinuxActiveRegionSpec memfd" where
  "mixed_entry_spec K deadline entry h =
     (case entry of
        CoordinatorWriter b \<Rightarrow>
          (case cb_entries b of
             [e] \<Rightarrow>
               sbind (revalidate_prepared K deadline (ce_prepared e) h) (\<lambda>h _.
                 (h, native_active_spec (ce_native e) 0 LocalWriter (cw_mapping (ce_prepared e))
                       (ce_guard_requested e)))
           | _ \<Rightarrow> (h, Err WrongProvenance))
      | ReceiverWriter b \<Rightarrow>
          (case rb_entries b of
             [e] \<Rightarrow>
               sbind
                 (if re_pending_mapping e \<noteq> None then (h, Err WrongObject)
                  else validate_key K (re_fd e) (re_key e) FINAL_SEALS h)
                 (\<lambda>h _.
               (h,
                rbind (ok_or WrongObject (re_mapping e)) (\<lambda>mapping.
                  native_active_spec (re_native e) 1 LocalReader mapping (re_guard_requested e))))
           | _ \<Rightarrow> (h, Err WrongProvenance)))"

definition mixed_activation_specs ::
    "Kernel \<Rightarrow> LinuxMixedDirectionBatch \<Rightarrow> history \<Rightarrow> LinuxActiveRegionSpec list memfd" where
  "mixed_activation_specs K b h =
     sbind (check_deadline K (mb_deadline b) h) (\<lambda>h _.
     sbind
       (fold_each (\<lambda>e specs h.
          sbind (mixed_entry_spec K (mb_deadline b) e h) (\<lambda>h spec.
          sbind (check_deadline K (mb_deadline b) h) (\<lambda>h _.
            (h, Ok (specs @ [spec]))))) (mb_entries b) [] h)
       (\<lambda>h specs. (h, rbind (validate_active_specs specs) (\<lambda>_. Ok specs))))"

definition mixed_entry_owner ::
    "usize \<Rightarrow> LinuxMixedDirectionEntry \<Rightarrow> history \<Rightarrow> LinuxActiveRegionOwner memfd" where
  "mixed_entry_owner page_size entry h =
     (case entry of
        CoordinatorWriter b \<Rightarrow>
          (case cb_entries b of
             [e] \<Rightarrow>
               let p = ce_prepared e in
               (close (cw_reader_capability p) h,
                rbind
                  (expect_result
                    (native_active_spec (ce_native e) 0 LocalWriter (cw_mapping p) (ce_guard_requested e)))
                  (\<lambda>spec. Ok (OwnedWriter spec
                     \<lparr>am_mapping = cw_mapping p, am_fd = cw_fd p, am_page_size = page_size\<rparr>)))
           | _ \<Rightarrow> (h, Panic))
      | ReceiverWriter b \<Rightarrow>
          (case rb_entries b of
             [e] \<Rightarrow>
               (h,
                if re_pending_mapping e \<noteq> None then Panic
                else
                  rbind (expect (re_mapping e)) (\<lambda>mapping.
                  rbind
                    (expect_result (native_active_spec (re_native e) 1 LocalReader mapping (re_guard_requested e)))
                    (\<lambda>spec. Ok (OwnedReader spec
                       \<lparr>am_mapping = mapping, am_fd = re_fd e, am_page_size = page_size\<rparr>))))
           | _ \<Rightarrow> (h, Panic)))"

definition mixed_into_active_region_owners ::
    "usize \<Rightarrow> LinuxMixedDirectionBatch \<Rightarrow> history \<Rightarrow> LinuxActiveRegionOwner list memfd" where
  "mixed_into_active_region_owners page_size b h =
     fold_each (\<lambda>e active h.
       sbind (mixed_entry_owner page_size e h) (\<lambda>h owner. (h, Ok (active @ [owner])))) (mb_entries b) [] h"

definition imported_entry_spec ::
    "Kernel \<Rightarrow> nat \<times> LinuxImportedMixedDirectionEntry \<Rightarrow> history \<Rightarrow> LinuxActiveRegionSpec memfd" where
  "imported_entry_spec K x h =
     (case x of
        (ordinal, entry) \<Rightarrow>
          sbind (imported_validate K FINAL_SEALS entry h) (\<lambda>h _.
            (h,
             case entry of
               ImportedCoordinatorWriter e \<Rightarrow>
                 if unat (me_ordinal (ie_manifest e)) \<noteq> ordinal \<or> me_writer (ie_manifest e) \<noteq> 0 \<or>
                    me_access (ie_manifest e) \<noteq> PeerAccess.ReadOnly
                 then Err WrongProvenance
                 else manifest_active_spec (ie_manifest e) LocalReader (ie_mapping e)
             | ImportedReceiverWriter e \<Rightarrow>
                 if unat (me_ordinal (ie_manifest e)) \<noteq> ordinal \<or> me_writer (ie_manifest e) \<noteq> 1 \<or>
                    me_access (ie_manifest e) \<noteq> SoleWriter
                 then Err WrongProvenance
                 else manifest_active_spec (ie_manifest e) LocalWriter (ie_mapping e))))"

definition imported_activation_specs ::
    "Kernel \<Rightarrow> AbsoluteDeadline \<Rightarrow> LinuxImportedMixedDirectionBatch \<Rightarrow> history \<Rightarrow>
     LinuxActiveRegionSpec list memfd" where
  "imported_activation_specs K deadline b h =
     sbind (check_deadline K deadline h) (\<lambda>h _.
     sbind
       (fold_each (\<lambda>x specs h.
          sbind (imported_entry_spec K x h) (\<lambda>h spec.
          sbind (check_deadline K deadline h) (\<lambda>h _.
            (h, Ok (specs @ [spec]))))) (enumerate 0 (ib_entries b)) [] h)
       (\<lambda>h specs. (h, rbind (validate_active_specs specs) (\<lambda>_. Ok specs))))"

primrec imported_entry_owner ::
    "usize \<Rightarrow> LinuxImportedMixedDirectionEntry \<Rightarrow> (LinuxActiveRegionOwner, MemfdError) result" where
  "imported_entry_owner page_size (ImportedCoordinatorWriter e) =
     rbind (expect_result (manifest_active_spec (ie_manifest e) LocalReader (ie_mapping e))) (\<lambda>spec.
       Ok (OwnedReader spec \<lparr>am_mapping = ie_mapping e, am_fd = ie_fd e, am_page_size = page_size\<rparr>))"
| "imported_entry_owner page_size (ImportedReceiverWriter e) =
     rbind (expect_result (manifest_active_spec (ie_manifest e) LocalWriter (ie_mapping e))) (\<lambda>spec.
       Ok (OwnedWriter spec \<lparr>am_mapping = ie_mapping e, am_fd = ie_fd e, am_page_size = page_size\<rparr>))"

definition imported_into_active_region_owners ::
    "usize \<Rightarrow> LinuxImportedMixedDirectionBatch \<Rightarrow> (LinuxActiveRegionOwner list, MemfdError) result" where
  "imported_into_active_region_owners page_size b =
     for_each (\<lambda>e active. rbind (imported_entry_owner page_size e) (\<lambda>owner. Ok (active @ [owner])))
       (ib_entries b) []"

section \<open>Sealing comes before viewing\<close>

abbreviation quiet :: "history \<Rightarrow> bool" where
  "quiet \<equiv> requests_only (\<lambda>_ _. False)"

definition seal_requested :: "LinuxReceiverWriterEntry \<Rightarrow> history \<Rightarrow> bool" where
  "seal_requested e t \<longleftrightarrow>
     (\<exists>answer. AddSeals (re_fd e) (F_SEAL_FUTURE_WRITE OR F_SEAL_SEAL) answer \<in> set t)"

text \<open>The final seals were accepted, and afterwards the object was seen to be the recorded one with them.\<close>

definition sealed :: "LinuxReceiverWriterEntry \<Rightarrow> history \<Rightarrow> bool" where
  "sealed e t \<longleftrightarrow>
     (\<exists>a c. t = a @ AddSeals (re_fd e) (F_SEAL_FUTURE_WRITE OR F_SEAL_SEAL) (Inr ()) # c \<and>
        seen (re_fd e) (re_key e) FINAL_SEALS c)"

lemma seal_requested_append [simp]:
  "seal_requested e (s @ t) \<longleftrightarrow> seal_requested e s \<or> seal_requested e t"
  by (auto simp: seal_requested_def)

lemma sealed_appendI1:
  assumes "sealed e s"
  shows "sealed e (s @ t)"
proof -
  obtain a c where "s = a @ AddSeals (re_fd e) (F_SEAL_FUTURE_WRITE OR F_SEAL_SEAL) (Inr ()) # c"
      "seen (re_fd e) (re_key e) FINAL_SEALS c"
    using assms unfolding sealed_def by blast
  moreover from this(2) have "seen (re_fd e) (re_key e) FINAL_SEALS (c @ t)" by (rule seen_mono) simp
  ultimately show ?thesis
    unfolding sealed_def by (intro exI [of _ a] exI [of _ "c @ t"]) simp
qed

lemma sealed_appendI2:
  assumes "sealed e t"
  shows "sealed e (s @ t)"
proof -
  obtain a c where "t = a @ AddSeals (re_fd e) (F_SEAL_FUTURE_WRITE OR F_SEAL_SEAL) (Inr ()) # c"
      "seen (re_fd e) (re_key e) FINAL_SEALS c"
    using assms unfolding sealed_def by blast
  then show ?thesis
    unfolding sealed_def by (intro exI [of _ "s @ a"] exI [of _ c]) simp
qed

lemma remember_None [simp]: "remember f r = None \<longleftrightarrow> f = None \<and> (\<forall>error. r \<noteq> Err error)"
  by (auto simp: remember_def split: option.splits result.splits)

lemma seal_entry_adds:
  assumes "seal_entry K d e (h, first_error) = (h', last_error)"
  shows "\<exists>t. h' = h @ t \<and> quiet t \<and> seal_requested e t \<and>
    (last_error = None \<longrightarrow> first_error = None \<and> sealed e t)"
proof -
  obtain c where c: "fst (if first_error = None then check_deadline K d h else (h, Ok ())) = h @ c" "quiet c"
    by (cases first_error) (auto simp: check_deadline_def)
  let ?first = "remember first_error (snd (if first_error = None then check_deadline K d h else (h, Ok ())))"
  let ?S = "F_SEAL_FUTURE_WRITE OR F_SEAL_SEAL"
  let ?answer = "k_add_seals K (h @ c) (re_fd e) ?S"
  let ?h1 = "h @ c @ [AddSeals (re_fd e) ?S ?answer]"
  obtain t where t: "fst (validate_key K (re_fd e) (re_key e) FINAL_SEALS ?h1) = ?h1 @ t" "quiet t"
      "snd (validate_key K (re_fd e) (re_key e) FINAL_SEALS ?h1) = Ok () \<longrightarrow>
         seen (re_fd e) (re_key e) FINAL_SEALS t"
    using validate_key_adds [of K "re_fd e" "re_key e" FINAL_SEALS ?h1] by blast
  have step: "seal_entry K d e (h, first_error) =
      (case ?answer of
         Inr _ \<Rightarrow> (?h1 @ t, remember ?first (snd (validate_key K (re_fd e) (re_key e) FINAL_SEALS ?h1)))
       | Inl errno \<Rightarrow> (?h1, remember ?first (Err (Native errno) :: (unit, _) result)))"
    using c(1) t(1) by (auto simp: seal_entry_def add_seals_def Let_def split: prod.splits sum.splits)
  show ?thesis
  proof (cases ?answer)
    case (Inl errno)
    then show ?thesis
      using assms step c(2) by (auto simp: seal_requested_def intro!: exI [of _ "c @ [AddSeals (re_fd e) ?S ?answer]"])
  next
    case (Inr u)
    let ?v = "snd (validate_key K (re_fd e) (re_key e) FINAL_SEALS ?h1)"
    have "last_error = None \<Longrightarrow> ?v = Ok ()"
      using assms step Inr by (cases ?v) auto
    then have "last_error = None \<Longrightarrow> sealed e (c @ AddSeals (re_fd e) ?S (Inr ()) # t)"
      using t(3) by (auto simp: sealed_def)
    then show ?thesis
      using assms step Inr c(2) t(2)
      by (intro exI [of _ "c @ AddSeals (re_fd e) ?S (Inr ()) # t"]) (auto simp: seal_requested_def)
  qed
qed

lemma seal_entries_add:
  assumes "fold (seal_entry K d) es (h, first_error) = (h', last_error)"
  shows "\<exists>t. h' = h @ t \<and> quiet t \<and> (\<forall>e \<in> set es. seal_requested e t) \<and>
    (last_error = None \<longrightarrow> first_error = None \<and> (\<forall>e \<in> set es. sealed e t))"
  using assms
proof (induction es arbitrary: h first_error)
  case Nil
  then show ?case by auto
next
  case (Cons e es)
  obtain h1 error1 where one: "seal_entry K d e (h, first_error) = (h1, error1)" by fastforce
  obtain t where t: "h1 = h @ t" "quiet t" "seal_requested e t"
      "error1 = None \<Longrightarrow> first_error = None \<and> sealed e t"
    using seal_entry_adds [OF one] by blast
  obtain u where u: "h' = h1 @ u" "quiet u" "\<forall>e \<in> set es. seal_requested e u"
      "last_error = None \<Longrightarrow> error1 = None \<and> (\<forall>e \<in> set es. sealed e u)"
    using Cons.IH [of h1 error1] Cons.prems one by auto
  show ?case
    using t u by (intro exI [of _ "t @ u"]) (auto intro: sealed_appendI1 sealed_appendI2)
qed

definition single :: "LinuxMixedDirectionEntry \<Rightarrow> bool" where
  "single entry \<longleftrightarrow>
     (case entry of CoordinatorWriter b \<Rightarrow> length (cb_entries b) = 1 | ReceiverWriter b \<Rightarrow> length (rb_entries b) = 1)"

lemma single_cases:
  assumes "single entry"
  obtains (coordinator) b e where "entry = CoordinatorWriter b" "cb_entries b = [e]"
  | (receiver) b e where "entry = ReceiverWriter b" "rb_entries b = [e]"
  using assms by (cases entry) (auto simp: single_def length_Suc_conv)

lemma preflight_entry_adds:
  assumes "single entry"
  shows "\<exists>t error. preflight_entry K entry first_error h = (h @ t, Ok error) \<and> quiet t"
proof -
  have "\<exists>t error. (case validate_key K fd key seals h of (h, v) \<Rightarrow> (h, Ok (remember first_error v))) =
      (h @ t, Ok error :: (MemfdError option, MemfdError) result) \<and> quiet t" for fd key seals
    using validate_key_adds [of K fd key seals h] by (auto split: prod.splits)
  then show ?thesis
    by (cases rule: single_cases [OF assms]) (simp_all add: preflight_entry_def)
qed

lemma preflight_adds:
  assumes "\<forall>entry \<in> set entries. single entry"
  shows "\<exists>t error. fold_each (preflight_entry K) entries first_error h = (h @ t, Ok error) \<and> quiet t"
  using assms
proof (induction entries arbitrary: first_error h)
  case (Cons entry entries)
  obtain t error where t: "preflight_entry K entry first_error h = (h @ t, Ok error)" "quiet t"
    using preflight_entry_adds [of entry K first_error h] Cons.prems by auto
  obtain u error' where "fold_each (preflight_entry K) entries error (h @ t) = ((h @ t) @ u, Ok error')" "quiet u"
    using Cons by fastforce
  then show ?case using t by auto
qed simp

section \<open>The coordinator's views\<close>

lemma advise_pending_maps [maps]: "maps_only P h (fst (advise_pending K d m h))"
  unfolding advise_pending_def by (intro maps)

lemma advise_pending_no_panic [simp]: "snd (advise_pending K d m h) \<noteq> Panic"
  by (auto simp: advise_pending_def outcome)

lemma advise_pending_Ok: "advise_pending K d m h = (h', Ok m') \<Longrightarrow> m' = m \<and> vm_base m \<noteq> 0"
  by (auto simp: advise_pending_def into_mapping_def outcome split: if_splits)

text \<open>What a view adds to an entry.\<close>

definition viewed :: "LinuxReceiverWriterEntry \<Rightarrow> LinuxReceiverWriterEntry \<Rightarrow> bool" where
  "viewed e e' \<longleftrightarrow>
     (\<exists>m. e' = e\<lparr>re_mapping := Some m, re_pending_mapping := None\<rparr> \<and> vm_len m = ok_mapped_len (re_key e) \<and>
        vm_base m \<noteq> 0 \<and> (re_guard_requested e = Require \<longrightarrow> vm_guarded m))"

lemma begin_view_maps: "maps_only (\<lambda>writable fd. \<not> writable \<and> fd = re_fd e) h (fst (begin_view K d e h))"
  unfolding begin_view_def by (intro maps) auto

lemma begin_view_Ok:
  "begin_view K d e h = (h', Ok m) \<Longrightarrow>
     vm_len m = ok_mapped_len (re_key e) \<and> (re_guard_requested e = Require \<longrightarrow> vm_guarded m)"
  by (auto simp: begin_view_def outcome split: if_splits dest: pending_map_len)

lemma begin_view_no_panic: "snd (begin_view K d e h) \<noteq> Panic"
  by (auto simp: begin_view_def outcome)

lemma establish_view_adds:
  assumes "establish_view K d e h = (h', e', r)"
  shows "maps_only (\<lambda>writable fd. \<not> writable \<and> fd = re_fd e) h h' \<and> r \<noteq> Panic \<and> (r = Ok () \<longrightarrow> viewed e e')"
proof -
  let ?P = "\<lambda>writable fd. \<not> writable \<and> fd = re_fd e"
  obtain h1 r1 where one: "begin_view K d e h = (h1, r1)" by fastforce
  have h1: "maps_only ?P h h1" using begin_view_maps [of e h K d] one by simp
  show ?thesis
  proof (cases r1)
    case (Ok m)
    let ?h2 = "drop_option (drop_pending K) (re_pending_mapping e) h1"
    have h2: "maps_only ?P h ?h2"
      by (rule maps_only_trans [OF h1]) (intro maps)
    obtain h3 r3 where two: "advise_pending K d m ?h2 = (h3, r3)" by fastforce
    have h3: "maps_only ?P h h3"
      using maps_only_trans [OF h2] advise_pending_maps [of ?P ?h2 K d m] two by simp
    have h4: "maps_only ?P h (drop_option (drop_mapping K) (re_mapping e) h3)"
      by (rule maps_only_trans [OF h3]) (intro maps)
    have eq: "establish_view K d e h =
        (case r3 of
           Ok mapping \<Rightarrow>
             (drop_option (drop_mapping K) (re_mapping e) h3,
              e\<lparr>re_mapping := Some mapping, re_pending_mapping := None\<rparr>, Ok ())
         | Err error \<Rightarrow> (h3, e\<lparr>re_pending_mapping := Some m\<rparr>, Err error)
         | Panic \<Rightarrow> (h3, e\<lparr>re_pending_mapping := Some m\<rparr>, Panic))"
      using one two Ok by (simp add: establish_view_def Let_def split: result.splits)
    have "r3 \<noteq> Panic" using advise_pending_no_panic [of K d m ?h2] two by simp
    then show ?thesis
      using assms eq h3 h4 advise_pending_Ok [of K d m ?h2 h3] two begin_view_Ok [of K d e h h1 m] one Ok
      by (cases r3) (auto simp: viewed_def)
  qed (use assms one h1 begin_view_no_panic [of K d e h] in
      \<open>auto simp: establish_view_def\<close>)
qed

lemma update_each_adds:
  assumes "update_each f es h = (h', es', r)"
    and "\<And>e h h' e' r. e \<in> set es \<Longrightarrow> f e h = (h', e', r) \<Longrightarrow>
           maps_only P h h' \<and> r \<noteq> Panic \<and> (r = Ok () \<longrightarrow> R e e')"
  shows "maps_only P h h' \<and> r \<noteq> Panic \<and> (r = Ok () \<longrightarrow> list_all2 R es es')"
  using assms
proof (induction es arbitrary: h h' es' r)
  case Nil
  then show ?case by (auto simp: maps_only_refl)
next
  case (Cons e es)
  obtain h1 e1 r1 where one: "f e h = (h1, e1, r1)" by (cases "f e h")
  have step: "maps_only P h h1" "r1 \<noteq> Panic" "r1 = Ok () \<longrightarrow> R e e1"
    using Cons.prems(2) [OF _ one] by auto
  show ?case
  proof (cases r1)
    case (Ok u)
    obtain h2 es2 r2 where rest: "update_each f es h1 = (h2, es2, r2)" by (cases "update_each f es h1")
    have "maps_only P h1 h2 \<and> r2 \<noteq> Panic \<and> (r2 = Ok () \<longrightarrow> list_all2 R es es2)"
      using Cons.IH [OF rest] Cons.prems(2) by (meson list.set_intros(2))
    then show ?thesis
      using Cons.prems(1) one rest step Ok by (auto intro: maps_only_trans)
  qed (use Cons.prems(1) one step in auto)
qed

primrec mixed_viewed :: "LinuxMixedDirectionEntry \<Rightarrow> LinuxMixedDirectionEntry \<Rightarrow> bool" where
  "mixed_viewed (CoordinatorWriter b) entry \<longleftrightarrow> entry = CoordinatorWriter b"
| "mixed_viewed (ReceiverWriter b) entry \<longleftrightarrow>
     (\<exists>es. entry = ReceiverWriter (b\<lparr>rb_entries := es\<rparr>) \<and> list_all2 viewed (rb_entries b) es)"

abbreviation mixed_receivers :: "LinuxMixedDirectionBatch \<Rightarrow> LinuxReceiverWriterEntry list" where
  "mixed_receivers b \<equiv> concat (map receiver_entries (mb_entries b))"

lemma view_mixed_entry_adds:
  assumes "view_mixed_entry K d entry h = (h', entry', r)"
  shows "maps_only (\<lambda>writable fd. \<not> writable \<and> fd \<in> re_fd ` set (receiver_entries entry)) h h' \<and> r \<noteq> Panic \<and>
    (r = Ok () \<longrightarrow> mixed_viewed entry entry')"
proof (cases entry)
  case (CoordinatorWriter b)
  then show ?thesis using assms by (auto simp: maps_only_refl)
next
  case (ReceiverWriter b)
  obtain es where u: "update_each (establish_view K d) (rb_entries b) h = (h', es, r)"
    and e': "entry' = ReceiverWriter (b\<lparr>rb_entries := es\<rparr>)"
    using assms ReceiverWriter by (auto split: prod.splits)
  have "maps_only (\<lambda>writable fd. \<not> writable \<and> fd \<in> re_fd ` set (rb_entries b)) h h' \<and> r \<noteq> Panic \<and>
      (r = Ok () \<longrightarrow> list_all2 viewed (rb_entries b) es)"
    by (rule update_each_adds [OF u]) (blast dest: establish_view_adds intro: maps_only_mono)
  then show ?thesis using ReceiverWriter e' by auto
qed

lemma view_mixed_entries_add:
  assumes "update_each (view_mixed_entry K d) (mb_entries b) h = (h', es, r)"
  shows "maps_only (\<lambda>writable fd. \<not> writable \<and> fd \<in> re_fd ` set (mixed_receivers b)) h h' \<and> r \<noteq> Panic \<and>
    (r = Ok () \<longrightarrow> list_all2 mixed_viewed (mb_entries b) es)"
  by (rule update_each_adds [OF assms]) (force dest: view_mixed_entry_adds elim: maps_only_mono)

text \<open>The two phases before the first view, and what follows them.\<close>

lemma seal_phase:
  assumes "\<forall>entry \<in> set (mb_entries b). single entry"
  shows "\<exists>s error. quiet s \<and> (\<forall>e \<in> set (mixed_receivers b). seal_requested e s) \<and>
    (error = None \<longrightarrow> (\<forall>e \<in> set (mixed_receivers b). sealed e s)) \<and>
    mixed_seal_after_import K b h =
      (case error of
         Some error \<Rightarrow> (h @ s, b, Err error)
       | None \<Rightarrow>
           (case update_each (view_mixed_entry K (mb_deadline b)) (mb_entries b) (h @ s) of
              (h, es, r) \<Rightarrow>
                (case r of
                   Ok _ \<Rightarrow> (case check_deadline K (mb_deadline b) h of (h, r) \<Rightarrow> (h, b\<lparr>mb_entries := es\<rparr>, r))
                 | _ \<Rightarrow> (h, b\<lparr>mb_entries := es\<rparr>, r))))"
proof -
  let ?d = "mb_deadline b"
  obtain c r where c: "check_deadline K ?d h = (h @ c, r)" "quiet c" by (auto simp: check_deadline_def)
  obtain t first_error where t: "fold_each (preflight_entry K) (mb_entries b) (remember None r) (h @ c) =
      ((h @ c) @ t, Ok first_error)" "quiet t"
    using preflight_adds [OF assms] by blast
  obtain h2 error where f: "fold (seal_entry K ?d) (mixed_receivers b) ((h @ c) @ t, first_error) = (h2, error)"
    by fastforce
  obtain u where u: "h2 = ((h @ c) @ t) @ u" "quiet u" "\<forall>e \<in> set (mixed_receivers b). seal_requested e u"
      "error = None \<longrightarrow> (\<forall>e \<in> set (mixed_receivers b). sealed e u)"
    using seal_entries_add [OF f] by blast
  show ?thesis
  proof (intro exI [of _ "c @ t @ u"] exI [of _ error] conjI)
    show "quiet (c @ t @ u)" "\<forall>e \<in> set (mixed_receivers b). seal_requested e (c @ t @ u)"
      using c t u by auto
    show "error = None \<longrightarrow> (\<forall>e \<in> set (mixed_receivers b). sealed e (c @ t @ u))"
      using u(4) sealed_appendI2 [of _ u "c @ t"] by auto
  qed (use c(1) t(1) f u(1) in
      \<open>auto simp: mixed_seal_after_import_def Let_def split: option.splits prod.splits result.splits\<close>)
qed

text \<open>C3: Whatever the kernel answers, sealing a batch after the receiver has imported it asks for the final
  seals on every region the receiver writes, also when an earlier step failed, and before any view is
  requested.  A view is requested, and success is reported, only after every one of these regions was
  seen to be the recorded object with exactly the final seals.  Every view the coordinator requests is
  read-only, on success each region has the view its guard policy asks for, and the code never panics.
\<close>

theorem seal_before_view:
  assumes "\<forall>entry \<in> set (mb_entries b). single entry"
    and "mixed_seal_after_import K b h = (h', b', r)"
  shows "\<exists>s v. h' = h @ s @ v \<and> quiet s \<and>
    (\<forall>e \<in> set (mixed_receivers b). seal_requested e s) \<and>
    (r = Ok () \<or> v \<noteq> [] \<longrightarrow> (\<forall>e \<in> set (mixed_receivers b). sealed e s)) \<and>
    requests_only (\<lambda>writable fd. \<not> writable \<and> fd \<in> re_fd ` set (mixed_receivers b)) v \<and>
    (r = Ok () \<longrightarrow> list_all2 mixed_viewed (mb_entries b) (mb_entries b') \<and> mb_deadline b' = mb_deadline b) \<and>
    r \<noteq> Panic"
proof -
  let ?d = "mb_deadline b" and ?P = "\<lambda>writable fd. \<not> writable \<and> fd \<in> re_fd ` set (mixed_receivers b)"
  obtain s error where s: "quiet s" "\<forall>e \<in> set (mixed_receivers b). seal_requested e s"
      "error = None \<longrightarrow> (\<forall>e \<in> set (mixed_receivers b). sealed e s)"
    and run: "mixed_seal_after_import K b h =
      (case error of
         Some error \<Rightarrow> (h @ s, b, Err error)
       | None \<Rightarrow>
           (case update_each (view_mixed_entry K ?d) (mb_entries b) (h @ s) of
              (h, es, r) \<Rightarrow>
                (case r of
                   Ok _ \<Rightarrow> (case check_deadline K ?d h of (h, r) \<Rightarrow> (h, b\<lparr>mb_entries := es\<rparr>, r))
                 | _ \<Rightarrow> (h, b\<lparr>mb_entries := es\<rparr>, r))))"
    using seal_phase [OF assms(1)] by blast
  show ?thesis
  proof (cases error)
    case (Some x)
    then show ?thesis using run assms(2) s by (intro exI [of _ s] exI [of _ "[]"]) auto
  next
    case None
    obtain h3 es r3 where v: "update_each (view_mixed_entry K ?d) (mb_entries b) (h @ s) = (h3, es, r3)"
      by (cases "update_each (view_mixed_entry K ?d) (mb_entries b) (h @ s)")
    have r3: "maps_only ?P (h @ s) h3" "r3 \<noteq> Panic" "r3 = Ok () \<longrightarrow> list_all2 mixed_viewed (mb_entries b) es"
      using view_mixed_entries_add [OF v] by auto
    have "maps_only ?P (h @ s) h' \<and> r \<noteq> Panic \<and> b' = b\<lparr>mb_entries := es\<rparr> \<and> (r = Ok () \<longrightarrow> r3 = Ok ())"
      using r3 run v None assms(2) maps_only_trans [OF r3(1) check_deadline_maps [of ?P h3 K ?d]]
      by (cases r3) (auto split: prod.splits)
    moreover from this obtain v where "h' = (h @ s) @ v" "requests_only ?P v" unfolding maps_only_def by blast
    ultimately show ?thesis
      using s None r3(3) by (intro exI [of _ s] exI [of _ v]) auto
  qed
qed

section \<open>What the coordinator prepares\<close>

text \<open>An entry made from a region.\<close>

definition prepared_entry :: "placement \<Rightarrow> PreparedRegion \<Rightarrow> LinuxMixedDirectionEntry \<Rightarrow> bool" where
  "prepared_entry place r entry \<longleftrightarrow>
     (case entry of
        CoordinatorWriter b \<Rightarrow>
          spec_writer (pq_spec r) = WriterEndpoint.Coordinator \<and>
          (\<exists>e. cb_entries b = [e] \<and>
             native_spec (pq_request r) (RegionId_get (spec_id (pq_spec r))) = Ok (ce_native e) \<and>
             (gc_requested (pq_guard r) = Require \<longrightarrow> vm_guarded (cw_mapping (ce_prepared e))))
      | ReceiverWriter b \<Rightarrow>
          spec_writer (pq_spec r) = WriterEndpoint.Receiver \<and>
          (\<exists>e. rb_entries b = [e] \<and>
             native_spec (pq_request r) (RegionId_get (spec_id (pq_spec r))) = Ok (re_native e) \<and>
             re_fd e = region_fd place r \<and> re_mapping e = None \<and> re_pending_mapping e = None \<and>
             re_guard_requested e = gc_requested (pq_guard r)))"

lemma single_batch_Ok: "single_batch r = Ok t \<Longrightarrow> tb_regions t = [r]"
  by (auto simp: single_batch_def add_def TransferBatch_new_def outcome Let_def split: if_splits)

lemma prepared_single: "prepared_entry place r entry \<Longrightarrow> single entry"
  by (auto simp: prepared_entry_def single_def split: LinuxMixedDirectionEntry.splits)

lemma drop_mixed_entry_maps [maps]: "maps_only P h (drop_mixed_entry K e h)"
  by (cases e) (auto intro: maps_only_fold drop_entry_maps)

lemma batch_prepare_maps:
  assumes "\<forall>r \<in> set (tb_regions t). P True (region_fd place r)"
  shows "maps_only P h (fst (coordinator_batch_prepare K place t profile d h))"
    and "maps_only P h (fst (receiver_batch_prepare K place t profile d h))"
  unfolding coordinator_batch_prepare_def receiver_batch_prepare_def
  using assms by (intro maps prepare_batch_maps; simp)+

lemma mixed_prepare_entry_maps:
  assumes "P True (region_fd place r)"
  shows "maps_only P h (fst (mixed_prepare_entry K place profile d r h))"
proof -
  have "maps_only P h (fst (case spec_writer (pq_spec r) of
       WriterEndpoint.Coordinator \<Rightarrow>
         sbind (coordinator_batch_prepare K place t profile d h) (\<lambda>h b. (h, Ok (CoordinatorWriter b)))
     | WriterEndpoint.Receiver \<Rightarrow>
         sbind (receiver_batch_prepare K place t profile d h) (\<lambda>h b. (h, Ok (ReceiverWriter b)))))"
    if "single_batch r = Ok t" for h t
    using batch_prepare_maps [of t P place] single_batch_Ok [OF that] assms
    by (cases "spec_writer (pq_spec r)") (auto intro!: maps)
  then show ?thesis
    unfolding mixed_prepare_entry_def by (intro maps) (auto simp: outcome)
qed

lemma mixed_prepare_entry_Ok:
  assumes "mixed_prepare_entry K place profile d r h = (h', Ok entry)"
  shows "prepared_entry place r entry \<and>
    (munmap_releases K \<and> views_of (region_fd place r) h \<subseteq> region_view place r \<longrightarrow>
       (\<forall>e \<in> set (receiver_entries entry). views_of (re_fd e) h' = {}))"
proof -
  let ?Q = "\<lambda>_ _. False"
  obtain h1 t where t: "single_batch r = Ok t" and c: "check_deadline K d h = (h1, Ok ())"
    and run: "(case spec_writer (pq_spec r) of
       WriterEndpoint.Coordinator \<Rightarrow>
         sbind (coordinator_batch_prepare K place t profile d h1) (\<lambda>h b. (h, Ok (CoordinatorWriter b)))
     | WriterEndpoint.Receiver \<Rightarrow>
         sbind (receiver_batch_prepare K place t profile d h1) (\<lambda>h b. (h, Ok (ReceiverWriter b)))) =
       (h', Ok entry)"
    using assms by (auto simp: mixed_prepare_entry_def outcome)
  have h1: "maps_only ?Q h h1" using check_deadline_maps [of ?Q h K d] c by simp
  note t1 = single_batch_Ok [OF t]
  show ?thesis
  proof (cases "spec_writer (pq_spec r)")
    case Coordinator
    then obtain b where "coordinator_batch_prepare K place t profile d h1 = (h', Ok b)"
        "entry = CoordinatorWriter b"
      using run by (auto simp: outcome)
    moreover from this obtain h2 h3 e where "prepare_coordinator_entry K place d r h2 = (h3, Ok e)"
        "cb_entries b = [e]"
      using t1 by (auto simp: coordinator_batch_prepare_def outcome dest!: prepare_batch_Ok)
    ultimately show ?thesis
      using Coordinator prepare_coordinator_entry_Ok [of K place d r h2 h3 e] by (simp add: prepared_entry_def)
  next
    case Receiver
    then obtain b where p: "receiver_batch_prepare K place t profile d h1 = (h', Ok b)"
        and entry: "entry = ReceiverWriter b"
      using run by (auto simp: outcome)
    obtain h2 h3 e where h2: "maps_only ?Q h1 h2" and h3: "maps_only ?Q h3 h'"
      and e: "prepare_receiver_entry K place d r h2 = (h3, Ok e)" and b: "rb_entries b = [e]"
      using p t1 by (auto simp: receiver_batch_prepare_def outcome dest!: prepare_batch_Ok)
    have "views_of (region_fd place r) h2 \<subseteq> views_of (region_fd place r) h"
      using views_of_maps [OF h1] views_of_maps [OF h2] by blast
    then show ?thesis
      using prepare_receiver_entry_Ok [OF e] views_of_maps [OF h3, of "region_fd place r"] Receiver entry b
      by (auto simp: prepared_entry_def)
  qed
qed

text \<open>The loop over the regions: what was made stays as it is, and no later region touches it.\<close>

lemma prepare_each_Ok:
  assumes "prepare_each (drop_region K place) (drop_mixed_entry K) (mixed_prepare_entry K place profile d) rs es h = (h', Ok es')"
  shows "\<exists>new. es' = es @ new \<and> list_all2 (prepared_entry place) rs new \<and>
    (munmap_releases K \<and> distinct (map (region_fd place) rs) \<and>
     (\<forall>r \<in> set rs. views_of (region_fd place r) h \<subseteq> region_view place r) \<longrightarrow>
       (\<forall>e \<in> set (concat (map receiver_entries new)). views_of (re_fd e) h' = {}))"
  using assms
proof (induction rs arbitrary: es h)
  case Nil
  then show ?case by simp
next
  case (Cons r rs)
  obtain h1 entry where one: "mixed_prepare_entry K place profile d r h = (h1, Ok entry)"
    and rest: "prepare_each (drop_region K place) (drop_mixed_entry K) (mixed_prepare_entry K place profile d) rs (es @ [entry]) h1 = (h', Ok es')"
    using Cons.prems by (auto simp: outcome)
  obtain new where new: "es' = (es @ [entry]) @ new" "list_all2 (prepared_entry place) rs new"
    and views: "munmap_releases K \<and> distinct (map (region_fd place) rs) \<and>
       (\<forall>r \<in> set rs. views_of (region_fd place r) h1 \<subseteq> region_view place r) \<longrightarrow>
         (\<forall>e \<in> set (concat (map receiver_entries new)). views_of (re_fd e) h' = {})"
    using Cons.IH [OF rest] by blast
  have entry: "prepared_entry place r entry" using mixed_prepare_entry_Ok [OF one] by blast
  have "\<forall>e \<in> set (receiver_entries entry @ concat (map receiver_entries new)). views_of (re_fd e) h' = {}"
    if K: "munmap_releases K" and dist: "distinct (map (region_fd place) (r # rs))"
      and v: "\<forall>r \<in> set (r # rs). views_of (region_fd place r) h \<subseteq> region_view place r"
  proof -
    have "maps_only (\<lambda>_ fd. fd = region_fd place r) h h1"
      using mixed_prepare_entry_maps [of "\<lambda>_ fd. fd = region_fd place r" place r h K profile d] one by simp
    then have "views_of (region_fd place q) h1 \<subseteq> views_of (region_fd place q) h" if "q \<in> set rs" for q
      by (rule views_of_maps) (use dist that in \<open>auto simp: image_iff\<close>)
    then have "\<forall>e \<in> set (concat (map receiver_entries new)). views_of (re_fd e) h' = {}"
      using views K dist v by fastforce
    moreover have "maps_only (\<lambda>_ fd. fd \<in> region_fd place ` set rs) h1 h'"
      using prepare_each_maps [of rs "\<lambda>_ fd. fd \<in> region_fd place ` set rs" "mixed_prepare_entry K place profile d"
          "drop_region K place" "drop_mixed_entry K" h1 "es @ [entry]"] rest
      by (simp add: mixed_prepare_entry_maps drop_region_maps drop_mixed_entry_maps)
    then have "views_of (region_fd place r) h' \<subseteq> views_of (region_fd place r) h1"
      by (rule views_of_maps) (use dist in auto)
    moreover have "\<forall>e \<in> set (receiver_entries entry). re_fd e = region_fd place r \<and> views_of (re_fd e) h1 = {}"
      using entry mixed_prepare_entry_Ok [OF one] K v by (cases entry) (auto simp: prepared_entry_def)
    ultimately show ?thesis by auto
  qed
  then show ?case using new entry by auto
qed

lemma prepared_manifest_entry:
  assumes "prepared_entry place r entry"
  shows "manifest_entry r es = Ok (es @ (case entry of
      CoordinatorWriter b \<Rightarrow> coordinator_manifest_entries b
    | ReceiverWriter b \<Rightarrow> receiver_manifest_entries b))"
  using assms
  by (auto simp: prepared_entry_def manifest_entry_def coordinator_manifest_entries_def
      receiver_manifest_entries_def Let_def split: LinuxMixedDirectionEntry.splits)

lemma prepared_manifest_entries:
  assumes "list_all2 (prepared_entry place) rs entries"
  shows "manifest_entries rs = Ok (mixed_manifest_entries \<lparr>mb_entries = entries, mb_deadline = d\<rparr>)"
proof -
  have "for_each manifest_entry rs es =
      Ok (es @ mixed_manifest_entries \<lparr>mb_entries = entries, mb_deadline = d\<rparr>)" for es
    using assms
  proof (induction rs entries arbitrary: es rule: list_all2_induct)
    case (Cons r rs entry entries)
    then show ?case
      by (simp only: for_each.simps prepared_manifest_entry rbind.simps) (simp add: mixed_manifest_entries_def)
  qed (simp add: mixed_manifest_entries_def)
  then show ?thesis by (simp add: manifest_entries_def)
qed

text \<open>C9: A batch is prepared only for the Linux authority profile.  It then has one entry of the right
  direction per region, in the order of the identities, and announces exactly the manifest entries of
  the regions, with one capability each; a required guard is installed.  When \<^verbatim>\<open>munmap\<close> keeps its promise
  and every region starts with its own private view only, no writable view of a region that the receiver
  will write is left in the coordinator when the capabilities can first be sent.
\<close>

theorem prepared_batch_exact:
  assumes "mixed_prepare K place batch profile deadline h = (h', Ok b)"
  shows "profile = LinuxMdweV1 \<and> mb_deadline b = deadline \<and>
    list_all2 (prepared_entry place) (sort_key (\<lambda>r. spec_id (pq_spec r)) (tb_regions batch)) (mb_entries b) \<and>
    manifest_entries (sort_key (\<lambda>r. spec_id (pq_spec r)) (tb_regions batch)) = Ok (mixed_manifest_entries b) \<and>
    length (mixed_capabilities b) = length (tb_regions batch) \<and>
    (munmap_releases K \<and> distinct (map (region_fd place) (tb_regions batch)) \<and>
     (\<forall>r \<in> set (tb_regions batch). views_of (region_fd place r) h \<subseteq> region_view place r) \<longrightarrow>
       (\<forall>e \<in> set (mixed_receivers b). views_of (re_fd e) h' = {}))"
proof -
  let ?rs = "sort_key (\<lambda>r. spec_id (pq_spec r)) (tb_regions batch)"
  obtain es where p: "prepare_batch K place (drop_mixed_entry K) (mixed_prepare_entry K place profile deadline)
      batch profile deadline h = (h', Ok es)" and b: "b = \<lparr>mb_entries = es, mb_deadline = deadline\<rparr>"
    using assms by (auto simp: mixed_prepare_def outcome)
  obtain h1 h2 where profile: "profile = LinuxMdweV1"
    and h1: "maps_only (\<lambda>_ _. False) h h1" and h2: "maps_only (\<lambda>_ _. False) h2 h'"
    and each: "prepare_each (drop_region K place) (drop_mixed_entry K)
      (mixed_prepare_entry K place profile deadline) ?rs [] h1 = (h2, Ok es)"
    using prepare_batch_Ok [OF p] by blast
  have es: "list_all2 (prepared_entry place) ?rs es"
    and views: "munmap_releases K \<and> distinct (map (region_fd place) ?rs) \<and>
       (\<forall>r \<in> set ?rs. views_of (region_fd place r) h1 \<subseteq> region_view place r) \<longrightarrow>
         (\<forall>e \<in> set (concat (map receiver_entries es)). views_of (re_fd e) h2 = {})"
    using prepare_each_Ok [OF each] by auto
  have "length (mixed_capabilities \<lparr>mb_entries = es, mb_deadline = deadline\<rparr>) = length ?rs"
    using es
    by (induction rule: list_all2_induct) (auto simp: mixed_capabilities_def prepared_entry_def
        coordinator_capabilities_def receiver_capabilities_def split: LinuxMixedDirectionEntry.splits)
  moreover have "\<forall>e \<in> set (mixed_receivers b). views_of (re_fd e) h' = {}"
    if "munmap_releases K" "distinct (map (region_fd place) (tb_regions batch))"
      "\<forall>r \<in> set (tb_regions batch). views_of (region_fd place r) h \<subseteq> region_view place r"
    using views that views_of_maps [OF h1] views_of_maps [OF h2] b by (auto simp: distinct_map_sort) blast+
  ultimately show ?thesis
    using profile es prepared_manifest_entries [OF es] b by simp
qed

section \<open>What the receiver imports\<close>

definition held_fds :: "LinuxMixedDirectionImportFailure \<Rightarrow> int list" where
  "held_fds f =
     map (\<lambda>e. ie_fd (imported_entry e)) (if_partial f) @ (case if_current_fd f of None \<Rightarrow> [] | Some fd \<Rightarrow> [fd]) @
     if_remaining f"

primrec closed_fd :: "Event \<Rightarrow> int list" where
  "closed_fd (Fstat _ _) = []"
| "closed_fd (Fstatfs _ _) = []"
| "closed_fd (GetSeals _ _) = []"
| "closed_fd (GetFl _ _) = []"
| "closed_fd (AddSeals _ _ _) = []"
| "closed_fd (DupFd _ _) = []"
| "closed_fd (CloseFd fd) = [fd]"
| "closed_fd (Reserve _ _) = []"
| "closed_fd (MapShared _ _ _ _ _) = []"
| "closed_fd (Munmap _ _ _) = []"
| "closed_fd (Madvise _ _ _ _) = []"
| "closed_fd (Zeroed _ _) = []"
| "closed_fd (Clock _) = []"

definition closed_fds :: "history \<Rightarrow> int list" where
  "closed_fds h = concat (map closed_fd h)"

lemma closed_fds_drop_mapping [simp]:
  "closed_fds (drop_mapping K m h) = closed_fds h" "closed_fds (drop_pending K m h) = closed_fds h"
  by (auto simp: closed_fds_def drop_mapping_def drop_pending_def munmap_def)

lemma closed_fds_close [simp]: "closed_fds (close fd h) = closed_fds h @ [fd]"
  by (simp add: closed_fds_def close_def)

lemma closed_fds_fold_close [simp]: "closed_fds (fold close fds h) = closed_fds h @ fds"
  by (induction fds arbitrary: h) auto

lemma closed_fds_partial [simp]:
  "closed_fds (fold (drop_imported K) es h) = closed_fds h @ map (\<lambda>e. ie_fd (imported_entry e)) es"
  by (induction es arbitrary: h) (auto simp: drop_imported_def)

lemma drop_import_failure_closes: "closed_fds (drop_import_failure K f h) = closed_fds h @ held_fds f"
  by (auto simp: drop_import_failure_def drop_option_def held_fds_def split: option.splits)

text \<open>The entry that an import makes from an expected entry, its manifest entry and its descriptor.\<close>

definition imported_from ::
    "LinuxExpectedMixedDirectionEntry \<times> ManifestEntry \<Rightarrow> int \<Rightarrow> LinuxImportedMixedDirectionEntry \<Rightarrow> bool" where
  "imported_from x fd entry \<longleftrightarrow>
     (case entry of
        ImportedCoordinatorWriter _ \<Rightarrow> xe_writer (fst x) = WriterEndpoint.Coordinator
      | ImportedReceiverWriter _ \<Rightarrow> xe_writer (fst x) = WriterEndpoint.Receiver) \<and>
     ie_manifest (imported_entry entry) = snd x \<and> ie_fd (imported_entry entry) = fd \<and>
     ok_mapped_len (imported_key entry) = unat (me_mapped_len (snd x)) \<and>
     vm_len (ie_mapping (imported_entry entry)) = unat (me_mapped_len (snd x)) \<and>
     vm_base (ie_mapping (imported_entry entry)) \<noteq> 0"

lemma failing_simps:
  "fst (failing a b c d m) = fst m"
  "snd (failing a b c d m) = Panic \<longleftrightarrow> snd m = Panic"
  "failing a b c d m = (h, Ok x) \<longleftrightarrow> m = (h, Ok x)"
  "failing a b c d m = (h, Err f) \<longleftrightarrow>
     (\<exists>error. m = (h, Err error) \<and> f = \<lparr>if_error = error, if_partial = a, if_current_fd = b,
        if_current_mapping = c, if_remaining = d\<rparr>)"
  by (cases m; cases "snd m"; auto simp: failing_def)+

lemma sbind_eq_Err:
  "sbind m f = (s', Err e) \<longleftrightarrow> m = (s', Err e) \<or> (\<exists>s x. m = (s, Ok x) \<and> f s x = (s', Err e))"
  by (cases m; cases "snd m") (auto simp: sbind_def split: result.splits)

lemma imported_validate_no_panic [simp]: "snd (imported_validate K seals e h) \<noteq> Panic"
  by (simp add: imported_validate_def)

lemma import_entry_maps:
  "maps_only (\<lambda>writable f. f = fd \<and> (writable \<longrightarrow> xe_writer x = WriterEndpoint.Receiver)) h
     (fst (import_entry K d x m fd remaining imported h))"
  unfolding import_entry_def imported_validate_def
  by (cases "xe_writer x") (auto simp: import_seals_def failing_simps Let_def intro!: maps split: prod.splits)

lemma import_entry_no_panic: "snd (import_entry K d x m fd remaining imported h) \<noteq> Panic"
  by (auto simp: import_entry_def Let_def outcome failing_simps split: prod.splits if_splits)

lemma validate_object_len: "validate_object K fd n seals h = (h', Ok key) \<Longrightarrow> ok_mapped_len key = n"
  using validate_object_adds [of K fd n seals h] by auto

lemma import_entry_Ok:
  assumes "import_entry K d x m fd remaining imported h = (h', Ok imported')"
  shows "\<exists>entry. imported' = imported @ [entry] \<and> imported_from (x, m) fd entry \<and>
    imported_key entry \<notin> imported_key ` set imported"
  using assms
  by (cases "xe_writer x")
    (fastforce simp: import_entry_def Let_def outcome failing_simps import_seals_def imported_from_def
      imported_key_def list_ex_iff split: if_splits
      dest: validate_object_len pending_map_len advise_pending_Ok)+

lemma import_entry_Err:
  assumes "import_entry K d x m fd remaining imported h = (h', Err f)"
  shows "held_fds f = map (\<lambda>e. ie_fd (imported_entry e)) imported @ fd # remaining"
  using assms
  by (cases "xe_writer x")
    (auto simp: import_entry_def Let_def sbind_eq_Err failing_simps held_fds_def outcome import_seals_def
      split: if_splits)

lemma imported_fds:
  assumes "list_all2 (\<lambda>(x, fd) e. imported_from x fd e) (zip xs fds) es" "length fds = length xs"
  shows "map (\<lambda>e. ie_fd (imported_entry e)) es = fds"
proof -
  have "map (\<lambda>e. ie_fd (imported_entry e)) es = map snd (zip xs fds)"
    using assms(1) by (induction rule: list_all2_induct) (auto simp: imported_from_def)
  then show ?thesis using assms(2) by simp
qed

text \<open>The loop over the entries, with as many descriptors as entries.\<close>

lemma import_each_props:
  assumes "import_each K d xs fds imported h = (h', r)" "length fds = length xs"
  shows "r \<noteq> Panic \<and>
    (\<forall>imported' rest. r = Ok (imported', rest) \<longrightarrow> rest = [] \<and>
       (\<exists>new. imported' = imported @ new \<and> list_all2 (\<lambda>(x, fd) e. imported_from x fd e) (zip xs fds) new \<and>
          (distinct (map imported_key imported) \<longrightarrow> distinct (map imported_key imported')))) \<and>
    (\<forall>f. r = Err f \<longrightarrow> held_fds f = map (\<lambda>e. ie_fd (imported_entry e)) imported @ fds) \<and>
    maps_only (\<lambda>writable fd. writable \<longrightarrow>
       (\<exists>x \<in> set (zip xs fds). snd x = fd \<and> xe_writer (fst (fst x)) = WriterEndpoint.Receiver)) h h'"
  using assms
proof (induction xs arbitrary: fds imported h)
  case Nil
  then show ?case by (auto simp: maps_only_refl)
next
  case (Cons x xs)
  let ?R = "\<lambda>ys writable fd. writable \<longrightarrow>
    (\<exists>x \<in> set ys. snd x = fd \<and> xe_writer (fst (fst x)) = WriterEndpoint.Receiver)"
  obtain fd rest where fds: "fds = fd # rest" "length rest = length xs" using Cons.prems(2) by (cases fds) auto
  obtain h1 r1 where one: "import_entry K d (fst x) (snd x) fd rest imported h = (h1, r1)" by fastforce
  have "maps_only (\<lambda>writable f. f = fd \<and> (writable \<longrightarrow> xe_writer (fst x) = WriterEndpoint.Receiver)) h h1"
    using import_entry_maps [of fd "fst x" h K d "snd x" rest imported] one by simp
  then have h1: "maps_only (?R (zip (x # xs) fds)) h h1"
    by (rule maps_only_mono) (auto simp: fds)
  show ?case
  proof (cases r1)
    case (Ok imported1)
    have run: "import_each K d xs rest imported1 h1 = (h', r)" using Cons.prems(1) fds one Ok by simp
    note IH = Cons.IH [OF run fds(2)]
    obtain e where e: "imported1 = imported @ [e]" "imported_from x fd e" "imported_key e \<notin> imported_key ` set imported"
      using import_entry_Ok one Ok by (metis prod.collapse)
    have "maps_only (?R (zip (x # xs) fds)) h1 h'"
      by (rule maps_only_mono [of "?R (zip xs rest)"]) (use IH fds in auto)
    then have "maps_only (?R (zip (x # xs) fds)) h h'" by (rule maps_only_trans [OF h1])
    moreover have "ie_fd (imported_entry e) = fd" using e(2) by (simp add: imported_from_def)
    ultimately show ?thesis using IH e fds by auto
  next
    case (Err f)
    then show ?thesis using Cons.prems(1) fds one h1 import_entry_Err [of K d "fst x" "snd x" fd rest imported h] by auto
  next
    case Panic
    then show ?thesis using import_entry_no_panic [of K d "fst x" "snd x" fd rest imported h] one by simp
  qed
qed


section \<open>Activation after the preflight\<close>

definition owner_authority :: "LinuxActiveRegionOwner \<Rightarrow> LocalRegionAuthority" where
  "owner_authority ow = (case ow of OwnedReader _ _ \<Rightarrow> LocalReader | OwnedWriter _ _ \<Rightarrow> LocalWriter)"

text \<open>An owner that fits its specification: the mapping has the announced length and covers the region.\<close>

primrec owner_mapping :: "LinuxActiveRegionOwner \<Rightarrow> LinuxActiveMapping" where
  "owner_mapping (OwnedReader spec m) = m"
| "owner_mapping (OwnedWriter spec m) = m"

definition owner_fits :: "usize \<Rightarrow> LinuxActiveRegionOwner \<Rightarrow> bool" where
  "owner_fits page_size ow \<longleftrightarrow>
     as_authority (owner_spec ow) = owner_authority ow \<and>
     0 < as_logical_len (owner_spec ow) \<and> as_logical_len (owner_spec ow) \<le> vm_len (am_mapping (owner_mapping ow)) \<and>
     unat (as_mapped_len (owner_spec ow)) = vm_len (am_mapping (owner_mapping ow)) \<and>
     am_page_size (owner_mapping ow) = page_size"

lemma active_region_spec_Ok:
  "active_region_spec ident authority logical mapped m guard = Ok spec \<Longrightarrow>
     as_authority spec = authority \<and> 0 < as_logical_len spec \<and> as_logical_len spec \<le> vm_len m \<and>
     unat (as_mapped_len spec) = vm_len m"
  by (auto simp: active_region_spec_def outcome split: if_splits)

lemma native_active_spec_Ok:
  "native_active_spec native w authority m guard = Ok spec \<Longrightarrow>
     as_authority spec = authority \<and> 0 < as_logical_len spec \<and> as_logical_len spec \<le> vm_len m \<and>
     unat (as_mapped_len spec) = vm_len m"
  by (auto simp: native_active_spec_def split: if_splits dest: active_region_spec_Ok)

lemma mixed_entry_owner_Ok:
  assumes "mixed_entry_spec K d entry h = (h', Ok spec)"
  shows "\<exists>ow. snd (mixed_entry_owner page_size entry h1) = Ok ow \<and> owner_spec ow = spec \<and> owner_fits page_size ow"
proof (cases entry)
  case (CoordinatorWriter b)
  then obtain e where e: "cb_entries b = [e]" "native_active_spec (ce_native e) 0 LocalWriter
      (cw_mapping (ce_prepared e)) (ce_guard_requested e) = Ok spec"
    using assms by (auto simp: mixed_entry_spec_def outcome split: list.splits)
  then show ?thesis
    using CoordinatorWriter native_active_spec_Ok [OF e(2)]
    by (simp add: mixed_entry_owner_def expect_result_def owner_fits_def owner_authority_def Let_def)
next
  case (ReceiverWriter b)
  then obtain e m where e: "rb_entries b = [e]" "re_pending_mapping e = None" "re_mapping e = Some m"
      "native_active_spec (re_native e) 1 LocalReader m (re_guard_requested e) = Ok spec"
    using assms by (auto simp: mixed_entry_spec_def outcome split: list.splits if_splits)
  then show ?thesis
    using ReceiverWriter native_active_spec_Ok [OF e(4)]
    by (simp add: mixed_entry_owner_def expect_result_def owner_fits_def owner_authority_def)
qed

lemma imported_entry_owner_Ok:
  assumes "imported_entry_spec K (ordinal, entry) h = (h', Ok spec)"
  shows "\<exists>ow. imported_entry_owner page_size entry = Ok ow \<and> owner_spec ow = spec \<and> owner_fits page_size ow"
proof (cases entry)
  case (ImportedCoordinatorWriter e)
  then have "manifest_active_spec (ie_manifest e) LocalReader (ie_mapping e) = Ok spec"
    using assms by (auto simp: imported_entry_spec_def outcome split: if_splits)
  moreover from this have "active_region_spec (me_region_id (ie_manifest e)) LocalReader
      (me_logical_len (ie_manifest e)) (me_mapped_len (ie_manifest e)) (ie_mapping e) BestEffort = Ok spec"
    by (simp add: manifest_active_spec_def)
  ultimately show ?thesis
    using ImportedCoordinatorWriter active_region_spec_Ok
    by (simp add: expect_result_def owner_fits_def owner_authority_def)
next
  case (ImportedReceiverWriter e)
  then have "manifest_active_spec (ie_manifest e) LocalWriter (ie_mapping e) = Ok spec"
    using assms by (auto simp: imported_entry_spec_def outcome split: if_splits)
  moreover from this have "active_region_spec (me_region_id (ie_manifest e)) LocalWriter
      (me_logical_len (ie_manifest e)) (me_mapped_len (ie_manifest e)) (ie_mapping e) BestEffort = Ok spec"
    by (simp add: manifest_active_spec_def)
  ultimately show ?thesis
    using ImportedReceiverWriter active_region_spec_Ok
    by (simp add: expect_result_def owner_fits_def owner_authority_def)
qed

text \<open>Both loops collect, entry by entry; the second cannot fail where the first did not.\<close>

lemma mixed_owners_Ok:
  assumes "fold_each (\<lambda>e specs h. sbind (mixed_entry_spec K d e h) (\<lambda>h spec.
      sbind (check_deadline K d h) (\<lambda>h _. (h, Ok (specs @ [spec]))))) es specs h = (h', Ok specs')"
  shows "\<exists>new. snd (fold_each (\<lambda>e active h. sbind (mixed_entry_owner page_size e h)
      (\<lambda>h ow. (h, Ok (active @ [ow])))) es active h1) = Ok (active @ new) \<and>
    specs' = specs @ map owner_spec new \<and> list_all (owner_fits page_size) new"
  using assms
proof (induction es arbitrary: specs h active h1)
  case (Cons e es)
  obtain h2 h3 spec where one: "mixed_entry_spec K d e h = (h2, Ok spec)"
    and rest: "fold_each (\<lambda>e specs h. sbind (mixed_entry_spec K d e h) (\<lambda>h spec.
      sbind (check_deadline K d h) (\<lambda>h _. (h, Ok (specs @ [spec]))))) es (specs @ [spec]) h3 = (h', Ok specs')"
    using Cons.prems by (auto simp: outcome)
  obtain h4 ow where ow: "mixed_entry_owner page_size e h1 = (h4, Ok ow)" "owner_spec ow = spec" "owner_fits page_size ow"
    using mixed_entry_owner_Ok [OF one] by (metis prod.collapse)
  obtain new where "snd (fold_each (\<lambda>e active h. sbind (mixed_entry_owner page_size e h)
      (\<lambda>h ow. (h, Ok (active @ [ow])))) es (active @ [ow]) h4) = Ok ((active @ [ow]) @ new)"
      "specs' = (specs @ [spec]) @ map owner_spec new" "list_all (owner_fits page_size) new"
    using Cons.IH [OF rest] by blast
  then show ?case using ow by (intro exI [of _ "ow # new"]) simp
qed auto

lemma imported_owners_Ok:
  assumes "fold_each (\<lambda>x specs h. sbind (imported_entry_spec K x h) (\<lambda>h spec.
      sbind (check_deadline K d h) (\<lambda>h _. (h, Ok (specs @ [spec]))))) (enumerate i es) specs h = (h', Ok specs')"
  shows "\<exists>new. for_each (\<lambda>e active. rbind (imported_entry_owner page_size e) (\<lambda>ow. Ok (active @ [ow]))) es active =
      Ok (active @ new) \<and>
    specs' = specs @ map owner_spec new \<and> list_all (owner_fits page_size) new"
  using assms
proof (induction es arbitrary: i specs h active)
  case (Cons e es)
  obtain h2 h3 spec where one: "imported_entry_spec K (i, e) h = (h2, Ok spec)"
    and rest: "fold_each (\<lambda>x specs h. sbind (imported_entry_spec K x h) (\<lambda>h spec.
      sbind (check_deadline K d h) (\<lambda>h _. (h, Ok (specs @ [spec]))))) (enumerate (Suc i) es) (specs @ [spec]) h3 =
        (h', Ok specs')"
    using Cons.prems by (auto simp: outcome)
  obtain ow where ow: "imported_entry_owner page_size e = Ok ow" "owner_spec ow = spec" "owner_fits page_size ow"
    using imported_entry_owner_Ok [OF one] by blast
  obtain new where "for_each (\<lambda>e active. rbind (imported_entry_owner page_size e) (\<lambda>ow. Ok (active @ [ow]))) es
      (active @ [ow]) = Ok ((active @ [ow]) @ new)"
      "specs' = (specs @ [spec]) @ map owner_spec new" "list_all (owner_fits page_size) new"
    using Cons.IH [OF rest] by blast
  then show ?case using ow by (intro exI [of _ "ow # new"]) simp
qed auto

lemma ids_increasing_sorted: "ids_increasing specs \<Longrightarrow> sorted_wrt (<) (map as_id specs)"
  by (induction specs rule: ids_increasing.induct) (force simp: sorted_wrt_append)+

text \<open>C40: Once the preflight of an activation has accepted a prepared or an imported batch, turning it into
  owners cannot panic.  The owners carry exactly the checked specifications, in strictly increasing order
  of their identities, each with the authority of its direction and a mapping that covers the region.
\<close>

theorem activation_after_preflight:
  "(mixed_activation_specs K b h = (h', Ok specs) \<longrightarrow>
      (\<exists>owners. snd (mixed_into_active_region_owners page_size b h1) = Ok owners \<and>
         map owner_spec owners = specs \<and> list_all (owner_fits page_size) owners \<and>
         0 < length specs \<and> length specs \<le> 16 \<and> sorted_wrt (<) (map as_id specs))) \<and>
   (imported_activation_specs K deadline imported k = (k', Ok specs') \<longrightarrow>
      (\<exists>owners. imported_into_active_region_owners page_size imported = Ok owners \<and>
         map owner_spec owners = specs' \<and> list_all (owner_fits page_size) owners \<and>
         0 < length specs' \<and> length specs' \<le> 16 \<and> sorted_wrt (<) (map as_id specs')))"
proof (intro conjI impI)
  assume "mixed_activation_specs K b h = (h', Ok specs)"
  then obtain h2 h3 where "fold_each (\<lambda>e specs h. sbind (mixed_entry_spec K (mb_deadline b) e h) (\<lambda>h spec.
      sbind (check_deadline K (mb_deadline b) h) (\<lambda>h _. (h, Ok (specs @ [spec]))))) (mb_entries b) [] h2 =
        (h3, Ok specs)" and v: "validate_active_specs specs = Ok ()"
    by (auto simp: mixed_activation_specs_def outcome)
  from mixed_owners_Ok [OF this(1), of page_size "[]" h1] v
  show "\<exists>owners. snd (mixed_into_active_region_owners page_size b h1) = Ok owners \<and>
      map owner_spec owners = specs \<and> list_all (owner_fits page_size) owners \<and>
      0 < length specs \<and> length specs \<le> 16 \<and> sorted_wrt (<) (map as_id specs)"
    by (auto simp: mixed_into_active_region_owners_def validate_active_specs_def dest!: ids_increasing_sorted
        split: if_splits)
next
  assume "imported_activation_specs K deadline imported k = (k', Ok specs')"
  then obtain h2 h3 where "fold_each (\<lambda>x specs h. sbind (imported_entry_spec K x h) (\<lambda>h spec.
      sbind (check_deadline K deadline h) (\<lambda>h _. (h, Ok (specs @ [spec]))))) (enumerate 0 (ib_entries imported)) [] h2 =
        (h3, Ok specs')" and v: "validate_active_specs specs' = Ok ()"
    by (auto simp: imported_activation_specs_def outcome)
  from imported_owners_Ok [OF this(1), of page_size "[]"] v
  show "\<exists>owners. imported_into_active_region_owners page_size imported = Ok owners \<and>
      map owner_spec owners = specs' \<and> list_all (owner_fits page_size) owners \<and>
      0 < length specs' \<and> length specs' \<le> 16 \<and> sorted_wrt (<) (map as_id specs')"
    by (auto simp: imported_into_active_region_owners_def validate_active_specs_def dest!: ids_increasing_sorted
        split: if_splits)
qed

section \<open>An example\<close>

text \<open>
  A kernel that keeps the seals of each object, with pages of two bytes.  Descriptors that agree modulo
  ten name one object.
\<close>

definition example_step :: "int \<Rightarrow> Event \<Rightarrow> i32 \<Rightarrow> i32" where
  "example_step fd x seals =
     (case x of
        AddSeals f s (Inr _) \<Rightarrow> if f mod 10 = fd mod 10 then seals OR s else seals
      | _ \<Rightarrow> seals)"

definition example_seals :: "history \<Rightarrow> int \<Rightarrow> i32" where
  "example_seals h fd = fold (example_step fd) h F_SEAL_EXEC"

definition example_kernel :: Kernel where
  "example_kernel =
     \<lparr>k_fstat = (\<lambda>h fd. Inr \<lparr>st_dev = 1, st_ino = (if fd mod 10 = 3 then 3 else 4), st_size = 2, st_nlink = 0,
        st_mode = 0x8000\<rparr>),
      k_fstatfs = (\<lambda>h fd. Inr TMPFS_MAGIC),
      k_get_seals = example_seals,
      k_get_fl = (\<lambda>h fd. 2),
      k_add_seals = (\<lambda>h fd seals. Inr ()),
      k_dupfd = (\<lambda>h fd. Inr (fd + 10)),
      k_reserve = (\<lambda>h n. Inr 100),
      k_map = (\<lambda>h at n writable fd. Inr (case at of None \<Rightarrow> 50 | Some a \<Rightarrow> a)),
      k_munmap = (\<lambda>h base n. Inr ()),
      k_madvise = (\<lambda>h base n advice. Inr ()),
      k_now = (\<lambda>h. 0),
      k_errno = (\<lambda>h. 0),
      k_page_size = 2\<rparr>"

definition example_place :: placement where
  "example_place incarnation = (if hd incarnation = 3 then (3, 30) else (4, 40))"

definition example_region :: "u8 \<Rightarrow> WriterEndpoint \<Rightarrow> PreparedRegion" where
  "example_region n writer =
     \<lparr>pq_request = \<lparr>sq_inner = Some [0, 0], sq_incarnation = replicate 16 n, sq_logical_len = 2,
        sq_permissions = \<lparr>pp_writer = (case writer of WriterEndpoint.Coordinator \<Rightarrow> Creator | WriterEndpoint.Receiver \<Rightarrow> Peer)\<rparr>,
        sq_seal = RequiredOnShare, sq_cleanup = ReleaseOnDrop\<rparr>,
      pq_spec = \<lparr>spec_id = RegionId (ucast n), spec_writer = writer\<rparr>,
      pq_guard = \<lparr>gc_requested = Disable, gc_installed = False\<rparr>\<rparr>"

definition example_batch :: TransferBatch where
  "example_batch =
     \<lparr>tb_regions = [example_region 4 WriterEndpoint.Receiver, example_region 3 WriterEndpoint.Coordinator],
      tb_max_regions = 2, tb_max_region_bytes = 2, tb_max_batch_bytes = 4, tb_total_logical = 4,
      tb_total_mapped = 4\<rparr>"

definition example_start :: history where
  "example_start = [MapShared None 2 True 3 (Inr 30), MapShared None 2 True 4 (Inr 40)]"

text \<open>The kernel's answers as rewrite rules.\<close>

definition example_probe :: "int \<Rightarrow> history \<Rightarrow> history" where
  "example_probe fd h =
     [Fstat fd (k_fstat example_kernel h fd), Fstatfs fd (Inr TMPFS_MAGIC), GetSeals fd (example_seals h fd), GetFl fd 2]"

definition example_key :: "int \<Rightarrow> ObjectKey" where
  "example_key fd = \<lparr>ok_device = 1, ok_inode = (if fd mod 10 = 3 then 3 else 4), ok_mapped_len = 2\<rparr>"

definition example_view :: "bool \<Rightarrow> bool \<Rightarrow> VmMapping" where
  "example_view zap guarded =
     (if guarded
      then \<lparr>vm_base = 102, vm_len = 2, vm_clear_on_drop = zap, vm_reservation_base = 100, vm_reservation_len = 6,
            vm_guarded = True\<rparr>
      else \<lparr>vm_base = 50, vm_len = 2, vm_clear_on_drop = zap, vm_reservation_base = 50, vm_reservation_len = 2,
            vm_guarded = False\<rparr>)"

named_theorems example "evaluation of the example"

lemma example_seals_append [example]: "example_seals (h @ t) fd = fold (example_step fd) t (example_seals h fd)"
  by (simp add: example_seals_def)

lemma example_step_simps [example]:
  "fold (example_step fd) (example_probe f g) t = t"
  "fold (example_step fd) (example_probe f g @ u) t = fold (example_step fd) u t"
  "example_step fd (Clock n) t = t"
  "example_step fd (DupFd f x) t = t"
  "example_step fd (CloseFd f) t = t"
  "example_step fd (MapShared a n w f y) t = t"
  "example_step fd (Reserve n y) t = t"
  "example_step fd (Munmap b n z) t = t"
  "example_step fd (Madvise b n v z) t = t"
  "example_step fd (AddSeals f s (Inr ())) t = (if f mod 10 = fd mod 10 then t OR s else t)"
  by (simp_all add: example_step_def example_probe_def)

lemma example_calls [example]:
  "check_deadline example_kernel 5 h = (h @ [Clock 0], Ok ())"
  "add_seals example_kernel fd t h = (h @ [AddSeals fd t (Inr ())], Ok ())"
  "duplicate example_kernel fd h = (h @ [DupFd fd (Inr (fd + 10))], Ok (fd + 10))"
  "munmap example_kernel b n h = h @ [Munmap b n (Inr ())]"
  "advise example_kernel v m h = (h @ [Madvise (vm_base m) (vm_len m) v (Inr ())], Ok ())"
  "map_plain example_kernel fd 2 w zap h = (h @ [MapShared None 2 w fd (Inr 50)], Ok (example_view zap False))"
  by (simp_all add: example_kernel_def check_deadline_def add_seals_def duplicate_def munmap_def advise_def
      map_plain_def is_expired_def example_view_def)

lemma example_page [example]: "native_page_size example_kernel h = Ok 2"
  by (auto simp: native_page_size_def example_kernel_def is_power_of_two_def list_ex_iff intro!: bexI [of _ 1])

lemma example_guarded [example]:
  "map_guarded example_kernel fd 2 w zap h =
     (h @ [Reserve 6 (Inr 100), MapShared (Some 102) 2 w fd (Inr 102)], Some (example_view zap True))"
proof -
  have "k_reserve example_kernel g n = Inr 100" "k_map example_kernel g (Some a) n w f = Inr a" for g n a f
    by (simp_all add: example_kernel_def)
  then show ?thesis
    by (simp add: map_guarded_def example_page checked_add_usize_def usize_max_def example_view_def)
qed

lemma example_validate [example]:
  "validate_object example_kernel fd 2 t h =
     (h @ example_probe fd h, if example_seals h fd = t then Ok (example_key fd) else Err InvalidObject)"
  by (simp add: validate_object_def example_kernel_def example_probe_def object_valid_def example_seals_def
      example_step_def example_key_def Let_def)

lemma example_view_fields [example]:
  "vm_base (example_view zap g) = (if g then 102 else 50)" "vm_len (example_view zap g) = 2"
  "vm_guarded (example_view zap g) = g" "ok_mapped_len (example_key fd) = 2"
  "vm_clear_on_drop (example_view zap g) = zap"
  "vm_reservation_base (example_view zap g) = (if g then 100 else 50)"
  "vm_reservation_len (example_view zap g) = (if g then 6 else 2)"
  by (simp_all add: example_view_def example_key_def)

lemma example_seal_values [example]:
  "F_SEAL_EXEC OR (FINAL_SEALS AND NOT F_SEAL_EXEC) = FINAL_SEALS"
  "F_SEAL_EXEC OR (F_SEAL_GROW OR F_SEAL_SHRINK) = PREFIX_SEALS"
  "PREFIX_SEALS OR (F_SEAL_FUTURE_WRITE OR F_SEAL_SEAL) = FINAL_SEALS"
  by (simp_all add: FINAL_SEALS_def PREFIX_SEALS_def F_SEAL_EXEC_def F_SEAL_GROW_def F_SEAL_SHRINK_def
      F_SEAL_FUTURE_WRITE_def F_SEAL_SEAL_def)

lemma or_drop_simps [simp]:
  "or_drop d (h, Ok x) = (h, Ok x)" "or_drop d (h, Err e) = (d h, Err e)" "or_drop d (h, Panic) = (d h, Panic)"
  by (simp_all add: or_drop_def)

definition example_native :: "u8 \<Rightarrow> WriterEndpoint \<Rightarrow> NativeRegionSpec" where
  "example_native n writer =
     \<lparr>ns_region_id = ucast n, ns_incarnation = replicate 16 n,
      ns_writer = (case writer of WriterEndpoint.Coordinator \<Rightarrow> 0 | WriterEndpoint.Receiver \<Rightarrow> 1),
      ns_logical_len = 2, ns_mapped_len = 2\<rparr>"

lemma example_parts [example]:
  assumes "n = 3 \<or> n = 4"
  shows "region_parts example_kernel example_place writer 5 (example_region n writer) h =
    (h @ [Clock 0], Ok (example_native n writer,
       \<lparr>qr_fd = fst (example_place [n]), qr_base = snd (example_place [n]), qr_len = 2, qr_logical_len = 2\<rparr>, ReleaseOnDrop))"
  using assms
  by (cases writer) (auto simp: region_parts_def example example_region_def native_spec_def request_mapped_len_def
      NativeRegionSpec_new_def try_from_usize_def into_linux_quiescent_def example_place_def example_native_def)

definition example_coordinator_entry :: LinuxCoordinatorWriterEntry where
  "example_coordinator_entry =
     \<lparr>ce_native = example_native 3 WriterEndpoint.Coordinator,
      ce_prepared = \<lparr>cw_fd = 3, cw_mapping = example_view False False, cw_reader_capability = 13,
        cw_key = example_key 3\<rparr>,
      ce_guard_requested = Disable\<rparr>"

definition example_receiver_entry :: LinuxReceiverWriterEntry where
  "example_receiver_entry =
     \<lparr>re_native = example_native 4 WriterEndpoint.Receiver, re_fd = 4, re_key = example_key 4, re_mapping = None,
      re_pending_mapping = None, re_guard_requested = Disable\<rparr>"

definition example_prepared :: LinuxMixedDirectionBatch where
  "example_prepared =
     \<lparr>mb_entries =
        [CoordinatorWriter \<lparr>cb_entries = [example_coordinator_entry], cb_deadline = 5\<rparr>,
         ReceiverWriter \<lparr>rb_entries = [example_receiver_entry], rb_deadline = 5\<rparr>],
      mb_deadline = 5\<rparr>"

lemma example_seals_13 [example]: "example_step 13 = example_step 3" "example_seals h 13 = example_seals h 3"
proof -
  show eq: "example_step 13 = example_step 3"
  proof (intro ext)
    show "example_step 13 x t = example_step 3 x t" for x t
      by (cases x) (auto simp: example_step_def split: sum.splits)
  qed
  show "example_seals h 13 = example_seals h 3" by (simp add: example_seals_def eq)
qed

lemma example_region_fields [example]:
  "gc_requested (pq_guard (example_region n w)) = Disable"
  "pq_spec (example_region n w) = \<lparr>spec_id = RegionId (ucast n), spec_writer = w\<rparr>"
  by (simp_all add: example_region_def)

lemma example_prepare_coordinator:
  assumes "example_seals h 3 = F_SEAL_EXEC"
  shows "\<exists>t. prepare_coordinator_entry example_kernel example_place 5 (example_region 3 WriterEndpoint.Coordinator) h =
    (h @ t, Ok example_coordinator_entry) \<and> (\<forall>s. fold (example_step 4) t s = s)"
  using assms
  by (simp add: prepare_coordinator_entry_def from_quiescent_def map_with_clear_def pending_map_def
      prepare_coordinator_writer_for_batch_def example into_mapping_def example_place_def Let_def
      example_coordinator_entry_def example_key_def)

lemma example_prepare_receiver:
  assumes "example_seals h 4 = F_SEAL_EXEC"
  shows "\<exists>t. prepare_receiver_entry example_kernel example_place 5 (example_region 4 WriterEndpoint.Receiver) h =
    (h @ t, Ok example_receiver_entry)"
  using assms
  by (simp add: prepare_receiver_entry_def from_quiescent_def map_with_clear_def pending_map_def unmap_def
      prepare_receiver_writer_for_batch_def example into_mapping_def example_place_def Let_def
      example_receiver_entry_def example_key_def example_kernel_def [THEN arg_cong, of k_munmap])

lemma example_single:
  "single_batch (example_region n w) = Ok \<lparr>tb_regions = [example_region n w], tb_max_regions = 1,
     tb_max_region_bytes = 2, tb_max_batch_bytes = 2, tb_total_logical = 2, tb_total_mapped = 2\<rparr>"
  by (simp add: single_batch_def prepared_mapped_len_def TransferBatch_new_def add_def try_from_usize_def
      example_region_def prepared_logical_len_def checked_add_def)

lemma example_prepare_entry:
  "example_seals h 3 = F_SEAL_EXEC \<Longrightarrow> \<exists>t.
     mixed_prepare_entry example_kernel example_place LinuxMdweV1 5 (example_region 3 WriterEndpoint.Coordinator) h =
       (h @ t, Ok (CoordinatorWriter \<lparr>cb_entries = [example_coordinator_entry], cb_deadline = 5\<rparr>)) \<and>
     (\<forall>s. fold (example_step 4) t s = s)"
  "example_seals h 4 = F_SEAL_EXEC \<Longrightarrow> \<exists>t.
     mixed_prepare_entry example_kernel example_place LinuxMdweV1 5 (example_region 4 WriterEndpoint.Receiver) h =
       (h @ t, Ok (ReceiverWriter \<lparr>rb_entries = [example_receiver_entry], rb_deadline = 5\<rparr>))"
  using example_prepare_coordinator [of "h @ [Clock 0, Clock 0]"] example_prepare_receiver [of "h @ [Clock 0, Clock 0]"]
  by (auto simp: mixed_prepare_entry_def coordinator_batch_prepare_def receiver_batch_prepare_def prepare_batch_def
      into_pending_def example_single example)

lemma example_prepare:
  "\<exists>h. mixed_prepare example_kernel example_place example_batch LinuxMdweV1 5 example_start = (h, Ok example_prepared)"
proof -
  have start: "example_seals (example_start @ [Clock 0]) fd = F_SEAL_EXEC" for fd
    by (simp add: example_seals_def example_start_def example_step_def)
  have sort: "sort_key (\<lambda>r. spec_id (pq_spec r)) (tb_regions example_batch) =
      [example_region 3 WriterEndpoint.Coordinator, example_region 4 WriterEndpoint.Receiver]"
    by (simp add: example_batch_def example less_eq_RegionId_def)
  obtain t where t: "mixed_prepare_entry example_kernel example_place LinuxMdweV1 5
      (example_region 3 WriterEndpoint.Coordinator) (example_start @ [Clock 0]) =
       ((example_start @ [Clock 0]) @ t, Ok (CoordinatorWriter \<lparr>cb_entries = [example_coordinator_entry], cb_deadline = 5\<rparr>))"
      "\<forall>s. fold (example_step 4) t s = s"
    using example_prepare_entry(1) start by blast
  obtain u where u: "mixed_prepare_entry example_kernel example_place LinuxMdweV1 5
      (example_region 4 WriterEndpoint.Receiver) ((example_start @ [Clock 0]) @ t) =
       (((example_start @ [Clock 0]) @ t) @ u, Ok (ReceiverWriter \<lparr>rb_entries = [example_receiver_entry], rb_deadline = 5\<rparr>))"
    using example_prepare_entry(2) start t(2) by (metis example_seals_append)
  have "into_pending example_batch = Ok \<lparr>pb_regions = tb_regions example_batch, pb_total_logical = 4, pb_total_mapped = 4\<rparr>"
    by (simp add: into_pending_def example_batch_def)
  then show ?thesis
    using t(1) u sort by (simp add: mixed_prepare_def prepare_batch_def example example_prepared_def)
qed

theorem prepared_batch_exact_witness:
  "\<exists>h. mixed_prepare example_kernel example_place example_batch LinuxMdweV1 5 example_start = (h, Ok example_prepared) \<and>
     length (mixed_capabilities example_prepared) = 2 \<and> mixed_receivers example_prepared = [example_receiver_entry] \<and>
     views_of 4 example_start = {(40, 2)} \<and> views_of 4 h = {}"
proof -
  obtain h where h: "mixed_prepare example_kernel example_place example_batch LinuxMdweV1 5 example_start =
      (h, Ok example_prepared)"
    using example_prepare by blast
  have start: "views_of 3 example_start = {(30, 2)}" "views_of 4 example_start = {(40, 2)}"
    by (auto simp: views_of_def example_start_def view_step_def)
  have place: "region_fd example_place (example_region 4 w) = 4" "region_fd example_place (example_region 3 w) = 3"
      "region_view example_place (example_region 4 w) = {(40, 2)}" "region_view example_place (example_region 3 w) = {(30, 2)}" for w
    by (simp_all add: region_fd_def region_view_def example_region_def example_place_def)
  have "munmap_releases example_kernel" by (simp add: munmap_releases_def example_kernel_def)
  then show ?thesis
    using prepared_batch_exact [OF h] h start place
    by (simp add: example_batch_def example_prepared_def example_receiver_entry_def)
qed

definition example_sent :: history where
  "example_sent =
     [AddSeals 3 (FINAL_SEALS AND NOT F_SEAL_EXEC) (Inr ()), AddSeals 4 (F_SEAL_GROW OR F_SEAL_SHRINK) (Inr ())]"

definition example_viewed :: LinuxMixedDirectionBatch where
  "example_viewed =
     \<lparr>mb_entries =
        [CoordinatorWriter \<lparr>cb_entries = [example_coordinator_entry], cb_deadline = 5\<rparr>,
         ReceiverWriter \<lparr>rb_entries = [example_receiver_entry\<lparr>re_mapping := Some (example_view False False)\<rparr>],
           rb_deadline = 5\<rparr>],
      mb_deadline = 5\<rparr>"

lemma example_sent_seals [example]:
  "example_seals example_sent 3 = FINAL_SEALS" "example_seals example_sent 4 = PREFIX_SEALS"
  using example_seal_values by (simp_all add: example_seals_def example_sent_def example_step_def)

lemma example_entry_fields [example]:
  "re_fd example_receiver_entry = 4" "re_key example_receiver_entry = example_key 4"
  "re_guard_requested example_receiver_entry = Disable" "re_pending_mapping example_receiver_entry = None"
  "re_mapping example_receiver_entry = None"
  "ce_guard_requested example_coordinator_entry = Disable"
  "cw_fd (ce_prepared example_coordinator_entry) = 3"
  "cw_reader_capability (ce_prepared example_coordinator_entry) = 13"
  "cw_mapping (ce_prepared example_coordinator_entry) = example_view False False"
  "cw_key (ce_prepared example_coordinator_entry) = example_key 3" "example_key 13 = example_key 3"
  by (simp_all add: example_receiver_entry_def example_coordinator_entry_def example_key_def)

lemma example_seal_after_import:
  "\<exists>t. mixed_seal_after_import example_kernel example_prepared example_sent = (example_sent @ t, example_viewed, Ok ()) \<and>
     fold (example_step 3) t FINAL_SEALS = FINAL_SEALS \<and> fold (example_step 4) t PREFIX_SEALS = FINAL_SEALS"
  by (simp add: mixed_seal_after_import_def example_prepared_def preflight_entry_def validate_key_def seal_entry_def
      establish_view_def begin_view_def advise_pending_def pending_map_def drop_option_def into_mapping_def
      remember_def example example_viewed_def Let_def)

theorem seal_before_view_witness:
  "\<exists>s v. mixed_seal_after_import example_kernel example_prepared example_sent =
       (example_sent @ s @ v, example_viewed, Ok ()) \<and>
     quiet s \<and> sealed example_receiver_entry s \<and> requests_only (\<lambda>writable fd. \<not> writable \<and> fd = 4) v"
proof -
  obtain t where t: "mixed_seal_after_import example_kernel example_prepared example_sent =
      (example_sent @ t, example_viewed, Ok ())"
    using example_seal_after_import by blast
  have "\<forall>entry \<in> set (mb_entries example_prepared). single entry"
    by (simp add: example_prepared_def single_def)
  from seal_before_view [OF this t] t show ?thesis
    by (auto simp: example_prepared_def example)
qed

definition example_expected :: LinuxExpectedMixedDirectionBatch where
  "example_expected =
     \<lparr>xb_entries =
        [\<lparr>xe_region_id = 3, xe_writer = WriterEndpoint.Coordinator, xe_logical_len = 2, xe_mapped_len = 2\<rparr>,
         \<lparr>xe_region_id = 4, xe_writer = WriterEndpoint.Receiver, xe_logical_len = 2, xe_mapped_len = 2\<rparr>],
      xb_total_logical = 4, xb_total_mapped = 4, xb_deadline = 5\<rparr>"

definition example_manifest_entry :: "u8 \<Rightarrow> WriterEndpoint \<Rightarrow> PeerAccess \<Rightarrow> u16 \<Rightarrow> ManifestEntry" where
  "example_manifest_entry n writer access ordinal = (from_native (example_native n writer) access)\<lparr>me_ordinal := ordinal\<rparr>"

definition example_announced :: TransferManifest where
  "example_announced =
     \<lparr>tm_nonce = replicate 32 1, tm_parent_pid = 1, tm_child_pid = 2, tm_transfer_id = 1,
      tm_authority_profile = LinuxMdweV1, tm_total_logical = 4, tm_total_mapped = 4,
      tm_entries =
        [example_manifest_entry 3 WriterEndpoint.Coordinator PeerAccess.ReadOnly 0,
         example_manifest_entry 4 WriterEndpoint.Receiver SoleWriter 1]\<rparr>"

definition example_imported :: LinuxImportedMixedDirectionBatch where
  "example_imported =
     \<lparr>ib_entries =
        [ImportedCoordinatorWriter
           \<lparr>ie_manifest = example_manifest_entry 3 WriterEndpoint.Coordinator PeerAccess.ReadOnly 0, ie_fd = 13,
            ie_mapping = example_view False True, ie_key = example_key 3\<rparr>,
         ImportedReceiverWriter
           \<lparr>ie_manifest = example_manifest_entry 4 WriterEndpoint.Receiver SoleWriter 1, ie_fd = 4,
            ie_mapping = example_view False True, ie_key = example_key 4\<rparr>]\<rparr>"

lemma example_manifest_entry_fields [example]:
  "me_region_id (example_manifest_entry n w a i) = ucast n" "me_access (example_manifest_entry n w a i) = a"
  "me_writer (example_manifest_entry n w a i) =
     (case w of WriterEndpoint.Coordinator \<Rightarrow> 0 | WriterEndpoint.Receiver \<Rightarrow> 1)"
  "me_logical_len (example_manifest_entry n w a i) = 2" "me_mapped_len (example_manifest_entry n w a i) = 2"
  "me_ordinal (example_manifest_entry n w a i) = i"
  by (simp_all add: example_manifest_entry_def from_native_def example_native_def)

lemma example_import:
  "\<exists>h. expected_import example_kernel example_expected example_announced [13, 4] example_sent =
     (h, Ok example_imported)"
  by (simp add: expected_import_def example_expected_def example_announced_def matches_manifest_def entry_matches_def
      import_entry_def import_seals_def failing_def pending_map_def advise_pending_def into_mapping_def
      imported_validate_def imported_key_def validate_key_def example example_key_def example_imported_def Let_def)


definition example_sealed :: history where
  "example_sealed = example_sent @ [AddSeals 4 (F_SEAL_FUTURE_WRITE OR F_SEAL_SEAL) (Inr ())]"

lemma example_sealed_seals [example]:
  "example_seals example_sealed 3 = FINAL_SEALS" "example_seals example_sealed 4 = FINAL_SEALS"
  by (simp_all add: example_sealed_def example)

definition example_spec :: "u8 \<Rightarrow> LocalRegionAuthority \<Rightarrow> GuardPolicy \<Rightarrow> LinuxActiveRegionSpec" where
  "example_spec n authority guard =
     \<lparr>as_id = RegionId (ucast n), as_authority = authority, as_logical_len = 2, as_mapped_len = 2,
      as_guard_requested = guard\<rparr>"

lemma example_activation:
  "\<exists>h. mixed_activation_specs example_kernel example_viewed example_sealed =
     (h, Ok [example_spec 3 LocalWriter Disable, example_spec 4 LocalReader Disable])"
  "\<exists>h. imported_activation_specs example_kernel 5 example_imported example_sealed =
     (h, Ok [example_spec 3 LocalReader BestEffort, example_spec 4 LocalWriter BestEffort])"
  by (simp_all add: mixed_activation_specs_def example_viewed_def mixed_entry_spec_def revalidate_prepared_def
      validate_key_def native_active_spec_def active_region_spec_def imported_activation_specs_def
      example_imported_def imported_entry_spec_def imported_validate_def imported_key_def manifest_active_spec_def
      validate_active_specs_def RegionId_new_def example_spec_def less_RegionId_def example_native_def
      example_coordinator_entry_def [THEN arg_cong, of ce_native] example_receiver_entry_def [THEN arg_cong, of re_native]
      example)

theorem activation_after_preflight_witness:
  "(\<exists>owners. snd (mixed_into_active_region_owners 2 example_viewed []) = Ok owners \<and>
      map owner_spec owners = [example_spec 3 LocalWriter Disable, example_spec 4 LocalReader Disable]) \<and>
   (\<exists>owners. imported_into_active_region_owners 2 example_imported = Ok owners \<and>
      map owner_spec owners = [example_spec 3 LocalReader BestEffort, example_spec 4 LocalWriter BestEffort])"
proof -
  obtain h where h: "mixed_activation_specs example_kernel example_viewed example_sealed =
      (h, Ok [example_spec 3 LocalWriter Disable, example_spec 4 LocalReader Disable])"
    using example_activation(1) by blast
  obtain k where k: "imported_activation_specs example_kernel 5 example_imported example_sealed =
      (k, Ok [example_spec 3 LocalReader BestEffort, example_spec 4 LocalWriter BestEffort])"
    using example_activation(2) by blast
  obtain owners where "snd (mixed_into_active_region_owners 2 example_viewed []) = Ok owners"
      "map owner_spec owners = [example_spec 3 LocalWriter Disable, example_spec 4 LocalReader Disable]"
    using conjunct1 [OF activation_after_preflight [where page_size = 2 and ?h1.0 = "[]"], THEN mp, OF h] by auto
  moreover obtain imported where "imported_into_active_region_owners 2 example_imported = Ok imported"
      "map owner_spec imported = [example_spec 3 LocalReader BestEffort, example_spec 4 LocalWriter BestEffort]"
    using conjunct2 [OF activation_after_preflight [where page_size = 2], THEN mp, OF k] by auto
  ultimately show ?thesis by (intro conjI exI) assumption+
qed

end
