(* ===== verification/Spec2Isabelle.thy ===== *)
theory Spec2Isabelle
  imports Codec Mapping_Bridge Transcript Protocol_Correct Reaper Linux_Batch
begin

text \<open>
  A verification development of native-ipc-rs: shared-memory interprocess communication between a
  coordinator process and the receiver it spawns.  The crate \<^verbatim>\<open>native-ipc-core\<close> holds what runs over
  shared memory (layouts, slots, codec); the crate \<^verbatim>\<open>native-ipc\<close> holds what establishes the session and
  its memory (negotiation, control records, transfer manifests, the ledger of active regions, the
  dispatcher and the native backends).  Paths below are relative to \<^verbatim>\<open>crates/\<close>.

  \<^bold>\<open>How the parts interact.\<close>  The two endpoints exchange a HELLO each, reduce them to one transcript and
  exchange an ACCEPT each (\<open>Negotiation\<close>, \<open>Transcript\<close>).  The facts they agree on become the
  parameters of a dispatcher on each side (\<open>Dispatcher\<close>), which owns the record sequence
  (\<open>Control\<close>), the ledger of active regions (\<open>Liveness\<close>), the transfer counter and a transport
  (\<open>Linux_Transport\<close>).  A region is allocated and initialised privately (\<open>Memory\<close>), given an
  identity and a writer (\<open>Region\<close>), collected in a batch (\<open>Batch\<close>), announced by a manifest frame
  (\<open>Protocol\<close>), and becomes an active mapping with a lease (\<open>Active\<close>).  Inside a mapping, a
  validated layout (\<open>Layout\<close>) gives slots (\<open>Slot\<close>) reached through the mapping bridge
  (\<open>Mapping_Bridge\<close>).

  \<^bold>\<open>Conventions\<close> (theory \<open>Ipc_Prelude\<close>).  \<^verbatim>\<open>u8\<close> to \<^verbatim>\<open>u128\<close> are words of their width; \<^verbatim>\<open>usize\<close> is a
  natural number with every addition and multiplication checked against \<open>usize_max\<close>, 64 bits.  A
  fallible function returns \<open>Ok\<close>, \<open>Err\<close> or \<open>Panic\<close>; a panic of the source, an overflow that would
  panic and an access that would be undefined behaviour are all \<open>Panic\<close>, so a theorem that excludes
  \<open>Panic\<close> excludes them.  A method that changes its receiver returns the new state beside its
  result, also when it fails.  SHA-256, the allocator, the random generator, the clock and the kernel
  are arguments.  Where other threads or the peer may act in between, the definition takes the
  schedule of their steps or the successive contents they leave; atomic accesses are sequentially
  consistent.

  \<^bold>\<open>Theories and what they show.\<close>
  \<^item> \<open>Codec\<close>, \<^verbatim>\<open>native-ipc-core/src/codec.rs\<close>: the message envelope, the decode budget, and the encoder
    and decoder around a user's protocol, whose contract is the locale \<open>protocol_codec\<close>.  Decoding
    accepts exactly the canonical frames within the limits and inverts encoding.
  \<^item> \<open>Slot\<close>, \<^verbatim>\<open>native-ipc-core/src/slot.rs\<close>: slot and acknowledgement cells and their operations, and
    the system of one writer and one reader whose single loads and stores interleave.  The system
    refines a one-place queue: everything published is delivered once and in order, nothing is
    overwritten while it is being read, and one of the two sides can always go on.
  \<^item> \<open>Layout\<close>, \<open>Layout_Correct\<close>, \<open>Layout_Routes\<close>, \<^verbatim>\<open>native-ipc-core/src/layout.rs\<close>: region layouts,
    their encoding and validation, and the routes between the regions of two writers.  The offsets are
    exact and free of overflow, validation accepts exactly the initialised mappings, the ranges are
    aligned, disjoint and inside the mapping, and routes pair slots and cells one to one.
  \<^item> \<open>Mapping_Bridge\<close>, \<^verbatim>\<open>native-ipc-core/src/mapping.rs\<close>: publication and copying through mappings
    another process may change at any time.
  \<^item> \<open>Limits\<close>, \<^verbatim>\<open>native-ipc/src/session.rs\<close>: session limits and atomic facts; the negotiated limits are
    the meet of both offers.
  \<^item> \<open>Negotiation\<close>, \<open>Negotiation_Encode\<close>, \<open>Negotiation_Decode\<close>, \<open>Transcript\<close>,
    \<^verbatim>\<open>native-ipc/src/negotiation.rs\<close>: the frames with both encoders and the decoder, the reduction of two
    HELLOs and the decision machine.  Decoding is exact, the hash input is injective, acceptance needs
    both exact ACCEPTs in order, and two endpoints that accept agree on every fact.
  \<^item> \<open>Protocol\<close>, \<open>Protocol_Correct\<close>, \<^verbatim>\<open>native-ipc/src/protocol.rs\<close>: transfer manifests and the phase
    frames derived from them.
  \<^item> \<open>Control\<close>, \<^verbatim>\<open>native-ipc/src/control.rs\<close>: numbered application records.
  \<^item> \<open>Liveness\<close>, \<^verbatim>\<open>native-ipc/src/liveness.rs\<close>: the ledger of active regions under destructors of other
    threads; its counters are exactly the leases that exist.
  \<^item> \<open>Reaper\<close>, \<^verbatim>\<open>native-ipc/src/backend/reaper_ownership.rs\<close>: the last owner latches termination.
  \<^item> \<open>Memory\<close>, \<open>Region\<close>, \<open>Active\<close>, \<open>Batch\<close>, \<^verbatim>\<open>native-ipc/src/memory.rs\<close>, \<^verbatim>\<open>backend/linux.rs\<close>,
    \<^verbatim>\<open>region.rs\<close>, \<^verbatim>\<open>active.rs\<close>, \<^verbatim>\<open>external_memory.c\<close>, \<^verbatim>\<open>batch.rs\<close>: the life of a region from its
    allocation to checked accesses in a committed set.
  \<^item> \<open>Dispatcher\<close>, \<^verbatim>\<open>native-ipc/src/backend/accepted_control.rs\<close>, \<^verbatim>\<open>backend/mod.rs\<close>: the accepted
    session that all platforms share.  Its transport is a record of operations and the contract of that
    record is the locale \<open>record_transport\<close>, in which the session theorems are proved once.
  \<^item> \<open>Linux_Transport\<close>, \<^verbatim>\<open>native-ipc/src/backend/linux_vnext.rs\<close>, \<^verbatim>\<open>linux_vnext/spawn.rs\<close>: packets with
    credentials and descriptors, waiting with a deadline and a child to watch, and both accepted
    transports.  It interprets \<open>record_transport\<close>, which gives the session theorems for Linux: one
    side receives a prefix of what the other handed over, and every failure is final or harmless.

  \<^bold>\<open>Loops and bounds.\<close>  Loops over data are structural recursion; binary search and the walk over
  control messages have a decreasing measure; loops that retry until a clock or another thread lets
  them go are \<open>partial_function (option)\<close> or consume the list of kernel answers, and where the code
  promises to return that is a theorem (closing the ledger, prefaulting).  No theorem depends on
  fuel that is assumed to suffice.

  \<^bold>\<open>Not modelled.\<close>
  \<^item> The macOS backends (\<^verbatim>\<open>backend/macos.rs\<close>, \<^verbatim>\<open>backend/macos/\<close>, \<^verbatim>\<open>backend/macos_vnext/\<close>) and the Windows
    backends (\<^verbatim>\<open>backend/windows.rs\<close>, \<^verbatim>\<open>backend/windows_vnext/\<close>): Mach ports, code signing, launch
    services, jobs and section objects, nearly all of it calls into those systems.
  \<^item> Starting the receiver on Linux (\<^verbatim>\<open>linux_vnext/process.rs\<close> and the first half of
    \<^verbatim>\<open>linux_vnext/spawn.rs\<close>): clone, exec, pidfds, descriptor inheritance and socket options.
  \<^item> \<^verbatim>\<open>linux_vnext/memory.rs\<close> and the Linux transactions of \<^verbatim>\<open>accepted_control.rs\<close>.
  \<^item> The public wrappers of \<^verbatim>\<open>session.rs\<close>, which forward to the parts above, \<^verbatim>\<open>binding.rs\<close>, the display
    of errors, the test kit, fuzz targets, tests and build scripts.
\<close>

end
